(* ===== verification/Prelude.thy ===== *)
theory Prelude
  imports Main "HOL-Library.Word" "HOL-Library.Monad_Syntax"
begin

text \<open>
  Shared vocabulary of the development: the machine integers of the sources, the Rust
  operations on byte slices that may panic, the byte orders of the wire, the integer conversions
  of the standard library, and the generic interface of a transition system with an invariant.

  A Rust \<^verbatim>\<open>i32\<close> is a 32-bit word read with \<^const>\<open>sint\<close>; \<^verbatim>\<open>usize\<close>, which only ever holds
  lengths and offsets here, is a natural number. An index or a slice out of range panics in Rust:
  \<open>idx\<close> and \<open>slice\<close> return \<^const>\<open>None\<close> there, so that a decoder of type
  \<open>bytes \<Rightarrow> (error + 'a) option\<close> distinguishes a panic (\<^const>\<open>None\<close>) from an error
  (\<open>Some (Inl e)\<close>) and from a value (\<open>Some (Inr x)\<close>).
\<close>

unbundle bit_operations_syntax

type_synonym u8 = "8 word"
type_synonym u16 = "16 word"
type_synonym u32 = "32 word"
type_synonym u64 = "64 word"
type_synonym i32 = "32 word"
type_synonym bytes = "u8 list"

named_theorems wire_simps \<open>layout of encoded messages: lengths, offsets and field accesses\<close>
named_theorems trans_defs \<open>definitions of the transitions of a state machine\<close>
named_theorems passed \<open>tests of the repository that hold of the model\<close>

section \<open>Slices that may panic\<close>

definition idx :: "'a list \<Rightarrow> nat \<Rightarrow> 'a option" where
  "idx xs i = (if i < length xs then Some (xs ! i) else None)"

definition slice :: "'a list \<Rightarrow> nat \<Rightarrow> nat \<Rightarrow> 'a list option" where
  "slice xs a b = (if a \<le> b \<and> b \<le> length xs then Some (take (b - a) (drop a xs)) else None)"

lemma idx_Some: "i < length xs \<Longrightarrow> idx xs i = Some (xs ! i)"
  by (simp add: idx_def)

lemma idx_append [wire_simps]:
  "idx (xs @ ys) i = (if i < length xs then idx xs i else idx ys (i - length xs))"
  by (auto simp: idx_def nth_append)

lemma idx_Cons [simp]:
  "idx (x # xs) 0 = Some x"
  "idx (x # xs) (Suc n) = idx xs n"
  "idx (x # xs) (numeral k) = idx xs (pred_numeral k)"
  by (auto simp: idx_def numeral_eq_Suc)

lemma idx_take: "i < n \<Longrightarrow> idx (take n xs) i = idx xs i"
  by (simp add: idx_def)

lemma slice_Some:
  "a \<le> b \<Longrightarrow> b \<le> length xs \<Longrightarrow> slice xs a b = Some (take (b - a) (drop a xs))"
  by (simp add: slice_def)

lemma slice_length: "slice xs a b = Some ys \<Longrightarrow> length ys = b - a"
  by (auto simp: slice_def split: if_splits)

lemma slice_prefix: "length xs = n \<Longrightarrow> slice (xs @ ys) 0 n = Some xs"
  by (simp add: slice_def)

lemma slice_skip:
  "length xs = a \<Longrightarrow> length ys = b - a \<Longrightarrow> a \<le> b \<Longrightarrow> slice (xs @ ys @ zs) a b = Some ys"
  by (simp add: slice_def)

section \<open>Searching\<close>

lemma find_SomeD: "find P xs = Some x \<Longrightarrow> x \<in> set xs \<and> P x"
  by (auto simp: find_Some_iff)

section \<open>Byte orders\<close>

definition to_be_bytes16 :: "u16 \<Rightarrow> bytes" where
  "to_be_bytes16 w = [ucast (drop_bit 8 w), ucast w]"

definition to_be_bytes32 :: "u32 \<Rightarrow> bytes" where
  "to_be_bytes32 w =
     [ucast (drop_bit 24 w), ucast (drop_bit 16 w), ucast (drop_bit 8 w), ucast w]"

definition to_le_bytes32 :: "u32 \<Rightarrow> bytes" where
  "to_le_bytes32 w = rev (to_be_bytes32 w)"

definition from_be_bytes16 :: "u8 \<Rightarrow> u8 \<Rightarrow> u16" where
  "from_be_bytes16 a b = push_bit 8 (ucast a) OR ucast b"

definition from_be_bytes32 :: "u8 \<Rightarrow> u8 \<Rightarrow> u8 \<Rightarrow> u8 \<Rightarrow> u32" where
  "from_be_bytes32 a b c d =
     push_bit 24 (ucast a) OR push_bit 16 (ucast b) OR push_bit 8 (ucast c) OR ucast d"

definition from_le_bytes16 :: "u8 \<Rightarrow> u8 \<Rightarrow> u16" where
  "from_le_bytes16 a b = from_be_bytes16 b a"

lemma from_to_be16 [simp]: "from_be_bytes16 (ucast (drop_bit 8 w)) (ucast w) = w"
  by (rule bit_word_eqI) (auto simp: from_be_bytes16_def bit_simps)

lemma from_to_be32 [simp]:
  "from_be_bytes32 (ucast (drop_bit 24 w)) (ucast (drop_bit 16 w))
     (ucast (drop_bit 8 w)) (ucast w) = w"
proof (rule bit_word_eqI)
  fix n assume "n < LENGTH(32)"
  then consider "n < 8" | "8 \<le> n \<and> n < 16" | "16 \<le> n \<and> n < 24" | "24 \<le> n \<and> n < 32"
    by fastforce
  then show "bit (from_be_bytes32 (ucast (drop_bit 24 w)) (ucast (drop_bit 16 w))
      (ucast (drop_bit 8 w)) (ucast w)) n = bit w n"
    by cases (auto simp: from_be_bytes32_def bit_simps)
qed

lemma bit_u8_high [simp]: "8 \<le> n \<Longrightarrow> \<not> bit (a :: u8) n"
  using bit_imp_le_length [of a n] by auto

lemma to_from_be16 [simp]: "to_be_bytes16 (from_be_bytes16 a b) = [a, b]"
  by (auto simp: to_be_bytes16_def from_be_bytes16_def bit_simps
      intro!: bit_word_eqI)

lemma to_from_be32 [simp]: "to_be_bytes32 (from_be_bytes32 a b c d) = [a, b, c, d]"
  by (auto simp: to_be_bytes32_def from_be_bytes32_def bit_simps
      intro!: bit_word_eqI)

lemma length_to_be_bytes [simp]:
  "length (to_be_bytes16 w) = 2" "length (to_be_bytes32 v) = 4"
  by (simp_all add: to_be_bytes16_def to_be_bytes32_def)

text \<open>The two shapes in which the sources read an integer at an offset of a buffer.\<close>

definition be16_at :: "bytes \<Rightarrow> nat \<Rightarrow> u16 option" where
  "be16_at buf i = do { a \<leftarrow> idx buf i; b \<leftarrow> idx buf (i + 1); Some (from_be_bytes16 a b) }"

definition be32_at :: "bytes \<Rightarrow> nat \<Rightarrow> u32 option" where
  "be32_at buf i = do {
     a \<leftarrow> idx buf i; b \<leftarrow> idx buf (i + 1); c \<leftarrow> idx buf (i + 2); d \<leftarrow> idx buf (i + 3);
     Some (from_be_bytes32 a b c d) }"

lemma be16_at_Some:
  "i + 2 \<le> length buf \<Longrightarrow> be16_at buf i = Some (from_be_bytes16 (buf ! i) (buf ! (i + 1)))"
  by (simp add: be16_at_def idx_def)

lemma be32_at_Some:
  "i + 4 \<le> length buf \<Longrightarrow>
   be32_at buf i = Some (from_be_bytes32 (buf ! i) (buf ! (i + 1)) (buf ! (i + 2)) (buf ! (i + 3)))"
  by (simp add: be32_at_def idx_def)

lemma be_at_skip [wire_simps]:
  "length xs \<le> i \<Longrightarrow> be16_at (xs @ ys) i = be16_at ys (i - length xs)"
  "length xs \<le> i \<Longrightarrow> be32_at (xs @ ys) i = be32_at ys (i - length xs)"
  by (auto simp: be16_at_def be32_at_def idx_def nth_append Suc_diff_le)

lemma be_at_field [wire_simps]:
  "be16_at (to_be_bytes16 w @ ys) 0 = Some w"
  "be32_at (to_be_bytes32 v @ ys) 0 = Some v"
  by (simp_all add: be16_at_def be32_at_def to_be_bytes16_def to_be_bytes32_def)

text \<open>Reading a field back gives the bytes it was read from; adjacent fields join.\<close>

lemma field_bytes:
  "be16_at buf i = Some w \<Longrightarrow> to_be_bytes16 w = take 2 (drop i buf)"
  "be32_at buf i = Some v \<Longrightarrow> to_be_bytes32 v = take 4 (drop i buf)"
  by (auto simp: be16_at_def be32_at_def idx_def take_Suc_conv_app_nth numeral_eq_Suc
      split: if_splits)

lemma field_join [wire_simps]:
  "take a xs @ take b (drop a xs) = take (a + b) xs"
  "i + a = j \<Longrightarrow> take a (drop i xs) @ take b (drop j xs) = take (a + b) (drop i xs)"
  by (auto simp: take_add add.commute)

section \<open>Integer conversions of the standard library\<close>

text \<open>\<^verbatim>\<open>usize::try_from(x).unwrap_or(0)\<close> for a signed \<open>x\<close>.\<close>

definition usize_of_i32 :: "i32 \<Rightarrow> nat" where
  "usize_of_i32 x = (if sint x < 0 then 0 else nat (sint x))"

text \<open>\<^verbatim>\<open>i32::try_from(n).unwrap_or(i32::MAX)\<close> and the unsigned saturating conversions.\<close>

definition i32_of_usize :: "nat \<Rightarrow> i32" where
  "i32_of_usize n = (if n \<le> 2 ^ 31 - 1 then of_nat n else 0x7FFFFFFF)"

definition u8_of_usize :: "nat \<Rightarrow> u8" where
  "u8_of_usize n = (if n \<le> 255 then of_nat n else 255)"

definition u32_of_usize :: "nat \<Rightarrow> u32" where
  "u32_of_usize n = (if n \<le> 2 ^ 32 - 1 then of_nat n else 0xFFFFFFFF)"

lemma usize_of_i32_bound: "usize_of_i32 x \<le> 2 ^ 31 - 1"
proof -
  have "sint x < 2 ^ (LENGTH(32) - 1)" by (rule sint_lt)
  then show ?thesis by (simp add: usize_of_i32_def nat_le_iff)
qed

lemma sint_i32_of_usize: "n \<le> 2 ^ 31 - 1 \<Longrightarrow> sint (i32_of_usize n) = int n"
proof -
  assume n: "n \<le> 2 ^ 31 - 1"
  have "sint (of_nat n :: i32) = signed_take_bit 31 (int n)"
    by (simp add: signed_of_nat)
  also have "\<dots> = int n"
    using n by (intro signed_take_bit_int_eq_self) auto
  finally show ?thesis using n by (simp add: i32_of_usize_def)
qed

lemma i32_of_usize_roundtrip: "n \<le> 2 ^ 31 - 1 \<Longrightarrow> usize_of_i32 (i32_of_usize n) = n"
  by (simp add: usize_of_i32_def sint_i32_of_usize)

lemma unat_u8_of_usize: "unat (u8_of_usize n) = min n 255"
  by (simp add: u8_of_usize_def unat_of_nat)

lemma unat_u32_of_usize: "n \<le> 2 ^ 32 - 1 \<Longrightarrow> unat (u32_of_usize n) = n"
  by (simp add: u32_of_usize_def unat_of_nat)

lemma unat_u8_bound: "unat (b :: u8) \<le> 255"
  using unsigned_less [of b, where ?'a = nat] by simp

lemma unat_ucast_u8 [simp]: "unat (ucast (b :: u8) :: u32) = unat b"
  using unat_u8_bound [of b] by (simp add: unsigned_ucast_eq take_bit_nat_eq_self)

lemma u32_byte: "unat (w :: u32) \<le> 255 \<Longrightarrow> \<exists>b :: u8. w = ucast b"
proof (rule exI)
  assume w: "unat w \<le> 255"
  then have "unat (ucast w :: u8) = unat w"
    by (simp add: unsigned_ucast_eq take_bit_nat_eq_self)
  then show "w = ucast (ucast w :: u8)"
    by (simp add: word_unat_eq_iff del: unsigned_ucast_eq)
qed

section \<open>Transition systems with an invariant\<close>

text \<open>
  The interface every state machine of the development offers: an initial predicate, a step
  relation and a predicate that the initial states satisfy and every step keeps.
\<close>

locale safe_system =
  fixes init :: "'s \<Rightarrow> bool"
    and trans :: "'s \<Rightarrow> 's \<Rightarrow> bool"
    and invar :: "'s \<Rightarrow> bool"
  assumes invar_init: "init s \<Longrightarrow> invar s"
    and invar_trans: "invar s \<Longrightarrow> trans s t \<Longrightarrow> invar t"
begin

lemma invar_steps: "trans\<^sup>*\<^sup>* s t \<Longrightarrow> invar s \<Longrightarrow> invar t"
  by (induction rule: rtranclp_induct) (auto intro: invar_trans)

lemma invar_reachable: "init s \<Longrightarrow> trans\<^sup>*\<^sup>* s t \<Longrightarrow> invar t"
  by (blast intro: invar_steps invar_init)

end

text \<open>
  Refinement of such a system to an abstract one through a function on states: a step becomes a
  sequence of abstract steps, possibly empty, in every state that satisfies the invariant.
\<close>

locale simulation = safe_system init trans invar
  for init :: "'s \<Rightarrow> bool" and trans :: "'s \<Rightarrow> 's \<Rightarrow> bool" and invar :: "'s \<Rightarrow> bool" +
  fixes abs :: "'s \<Rightarrow> 'a"
    and ainit :: "'a \<Rightarrow> bool"
    and atrans :: "'a \<Rightarrow> 'a \<Rightarrow> bool"
  assumes abs_init: "init s \<Longrightarrow> ainit (abs s)"
    and abs_trans: "invar s \<Longrightarrow> trans s t \<Longrightarrow> atrans\<^sup>*\<^sup>* (abs s) (abs t)"
begin

lemma abs_steps: "trans\<^sup>*\<^sup>* s t \<Longrightarrow> invar s \<Longrightarrow> atrans\<^sup>*\<^sup>* (abs s) (abs t)"
proof (induction rule: rtranclp_induct)
  case (step t u)
  have "invar t" by (rule invar_steps [OF step.hyps(1) step.prems])
  from abs_trans [OF this step.hyps(2)] step.IH [OF step.prems] show ?case
    by (meson rtranclp_trans)
qed simp

lemma abs_reachable: "init s \<Longrightarrow> trans\<^sup>*\<^sup>* s t \<Longrightarrow> ainit (abs s) \<and> atrans\<^sup>*\<^sup>* (abs s) (abs t)"
  by (simp add: abs_init abs_steps invar_init)

lemma abs_invariant:
  assumes "\<And>a. ainit a \<Longrightarrow> P a" "\<And>a b. P a \<Longrightarrow> atrans a b \<Longrightarrow> P b" "init s" "trans\<^sup>*\<^sup>* s t"
  shows "P (abs t)"
proof -
  have "atrans\<^sup>*\<^sup>* (abs s) (abs t)" "P (abs s)"
    using abs_reachable [OF assms(3,4)] assms(1) by auto
  then show ?thesis by (induction rule: rtranclp_induct) (auto intro: assms(2))
qed

end

text \<open>
  Systems in which every run ends: a well-founded measure that each step decreases wherever the
  invariant holds, and a predicate that holds in every state that has no step left.
\<close>

locale terminating_system = safe_system init trans invar
  for init :: "'s \<Rightarrow> bool" and trans :: "'s \<Rightarrow> 's \<Rightarrow> bool" and invar :: "'s \<Rightarrow> bool" +
  fixes rank :: "'s \<Rightarrow> 'm"
    and below :: "('m \<times> 'm) set"
    and quiet :: "'s \<Rightarrow> bool"
  assumes wf_below: "wf below"
    and rank_trans: "invar s \<Longrightarrow> trans s t \<Longrightarrow> (rank t, rank s) \<in> below"
    and stuck_quiet: "invar s \<Longrightarrow> \<nexists>t. trans s t \<Longrightarrow> quiet s"
begin

lemma no_infinite_run: "init (f 0) \<Longrightarrow> \<exists>n. \<not> trans (f n) (f (Suc n))"
proof (rule ccontr)
  assume i: "init (f 0)" and "\<nexists>n. \<not> trans (f n) (f (Suc n))"
  then have run: "trans (f n) (f (Suc n))" for n by blast
  have inv: "invar (f n)" for n
    by (induction n) (use i run invar_init invar_trans in blast)+
  have "\<exists>g. \<forall>n. (g (Suc n), g n) \<in> below"
    by (rule exI [of _ "\<lambda>n. rank (f n)"]) (simp add: rank_trans inv run)
  with wf_below show False unfolding wf_iff_no_infinite_down_chain by blast
qed

lemma reaches_quiet: "invar s \<Longrightarrow> \<exists>t. trans\<^sup>*\<^sup>* s t \<and> (\<nexists>u. trans t u) \<and> quiet t"
proof (induction "rank s" arbitrary: s rule: wf_induct_rule [OF wf_below])
  case 1
  show ?case
  proof (cases "\<exists>t. trans s t")
    case True
    then obtain t where t: "trans s t" by blast
    with 1 obtain u where "trans\<^sup>*\<^sup>* t u" "\<nexists>v. trans u v" "quiet u"
      using rank_trans invar_trans by blast
    with t show ?thesis by (meson converse_rtranclp_into_rtranclp)
  next
    case False
    with 1 stuck_quiet show ?thesis by blast
  qed
qed

lemma stuck_reachable_quiet: "init s \<Longrightarrow> trans\<^sup>*\<^sup>* s t \<Longrightarrow> \<nexists>u. trans t u \<Longrightarrow> quiet t"
  using invar_reachable stuck_quiet by blast

end

end
