(* ===== verification/Rust_Str.thy ===== *)
theory Rust_Str
  imports Prelude
begin

text \<open>
  Rust strings and the standard-library operations on them that the sources use.

  A Rust \<^verbatim>\<open>str\<close> or \<^verbatim>\<open>String\<close> is its sequence of UTF-8 bytes, a \<^verbatim>\<open>char\<close> of it is the byte sequence
  that encodes it. Modelled are \<^verbatim>\<open>String::from_utf8_lossy\<close> with its substitution of maximal
  ill-formed subsequences by U+FFFD, \<^verbatim>\<open>chars\<close>, \<^verbatim>\<open>split_once\<close>, the formatting of unsigned
  integers with \<^verbatim>\<open>{}\<close> and \<^verbatim>\<open>{:04x}\<close>, and the parsing of unsigned integers with
  \<^verbatim>\<open>from_str_radix\<close> and \<^verbatim>\<open>parse\<close>.
\<close>

type_synonym rstr = bytes

abbreviation lit :: "string \<Rightarrow> rstr" where
  "lit s \<equiv> map of_char s"

section \<open>UTF-8\<close>

definition safe_get :: "bytes \<Rightarrow> nat \<Rightarrow> u8" where
  "safe_get xs i = (case idx xs i of Some b \<Rightarrow> b | None \<Rightarrow> 0)"

definition is_cont :: "u8 \<Rightarrow> bool" where
  "is_cont b \<longleftrightarrow> b AND 192 = 128"

definition second_of_3 :: "u8 \<Rightarrow> u8 \<Rightarrow> bool" where
  "second_of_3 b c \<longleftrightarrow>
     b = 0xE0 \<and> 0xA0 \<le> c \<and> c \<le> 0xBF \<or>
     0xE1 \<le> b \<and> b \<le> 0xEC \<and> 0x80 \<le> c \<and> c \<le> 0xBF \<or>
     b = 0xED \<and> 0x80 \<le> c \<and> c \<le> 0x9F \<or>
     0xEE \<le> b \<and> b \<le> 0xEF \<and> 0x80 \<le> c \<and> c \<le> 0xBF"

definition second_of_4 :: "u8 \<Rightarrow> u8 \<Rightarrow> bool" where
  "second_of_4 b c \<longleftrightarrow>
     b = 0xF0 \<and> 0x90 \<le> c \<and> c \<le> 0xBF \<or>
     0xF1 \<le> b \<and> b \<le> 0xF3 \<and> 0x80 \<le> c \<and> c \<le> 0xBF \<or>
     b = 0xF4 \<and> 0x80 \<le> c \<and> c \<le> 0x8F"

text \<open>
  One iteration of the scanner: whether the sequence that starts with \<open>b\<close> is well formed, and
  how many of the bytes \<open>r\<close> after it belong to it (or to its maximal ill-formed prefix).
\<close>

definition utf8_next :: "u8 \<Rightarrow> bytes \<Rightarrow> bool \<times> nat" where
  "utf8_next b r =
     (if b < 128 then (True, 0)
      else if 0xC2 \<le> b \<and> b \<le> 0xDF then
        (if is_cont (safe_get r 0) then (True, 1) else (False, 0))
      else if 0xE0 \<le> b \<and> b \<le> 0xEF then
        (if second_of_3 b (safe_get r 0) then
           (if is_cont (safe_get r 1) then (True, 2) else (False, 1))
         else (False, 0))
      else if 0xF0 \<le> b \<and> b \<le> 0xF4 then
        (if second_of_4 b (safe_get r 0) then
           (if is_cont (safe_get r 1) then
              (if is_cont (safe_get r 2) then (True, 3) else (False, 2))
            else (False, 1))
         else (False, 0))
      else (False, 0))"

fun utf8_valid :: "bytes \<Rightarrow> bool" where
  "utf8_valid [] = True"
| "utf8_valid (b # r) = (fst (utf8_next b r) \<and> utf8_valid (drop (snd (utf8_next b r)) r))"

fun from_utf8_lossy :: "bytes \<Rightarrow> rstr" where
  "from_utf8_lossy [] = []"
| "from_utf8_lossy (b # r) =
     (if fst (utf8_next b r) then b # take (snd (utf8_next b r)) r else [0xEF, 0xBF, 0xBD]) @
     from_utf8_lossy (drop (snd (utf8_next b r)) r)"

fun str_chars :: "rstr \<Rightarrow> rstr list" where
  "str_chars [] = []"
| "str_chars (b # r) =
     (b # take (snd (utf8_next b r)) r) # str_chars (drop (snd (utf8_next b r)) r)"

definition ascii :: "bytes \<Rightarrow> bool" where
  "ascii s \<longleftrightarrow> (\<forall>b \<in> set s. b < 128)"

section \<open>Splitting, formatting and parsing\<close>

definition split_once :: "u8 \<Rightarrow> rstr \<Rightarrow> (rstr \<times> rstr) option" where
  "split_once c s =
     (case dropWhile (\<lambda>b. b \<noteq> c) s of
        [] \<Rightarrow> None
      | _ # t \<Rightarrow> Some (takeWhile (\<lambda>b. b \<noteq> c) s, t))"

fun show_dec :: "nat \<Rightarrow> rstr" where
  "show_dec n =
     (if n < 10 then [48 + of_nat n] else show_dec (n div 10) @ [48 + of_nat (n mod 10)])"

declare show_dec.simps [simp del]

definition hex_digit :: "nat \<Rightarrow> u8" where
  "hex_digit n = (if n < 10 then 48 + of_nat n else 87 + of_nat n)"

definition fmt_02x :: "u8 \<Rightarrow> rstr" where
  "fmt_02x b = [hex_digit (unat b div 16), hex_digit (unat b mod 16)]"

definition fmt_04x :: "u16 \<Rightarrow> rstr" where
  "fmt_04x w = [hex_digit (unat w div 4096), hex_digit (unat w div 256 mod 16),
                hex_digit (unat w div 16 mod 16), hex_digit (unat w mod 16)]"

definition to_digit :: "nat \<Rightarrow> u8 \<Rightarrow> nat option" where
  "to_digit radix c =
     (let d = (if 48 \<le> c \<and> c \<le> 57 then unat c - 48
               else if 97 \<le> c \<and> c \<le> 122 then unat c - 87
               else if 65 \<le> c \<and> c \<le> 90 then unat c - 55
               else radix)
      in if d < radix then Some d else None)"

datatype int_error = Empty | InvalidDigit | PosOverflow

fun radix_loop :: "nat \<Rightarrow> nat \<Rightarrow> nat \<Rightarrow> rstr \<Rightarrow> int_error + nat" where
  "radix_loop radix maxv acc [] = Inr acc"
| "radix_loop radix maxv acc (c # cs) =
     (case to_digit radix c of
        None \<Rightarrow> Inl InvalidDigit
      | Some d \<Rightarrow>
          if maxv < acc * radix then Inl PosOverflow
          else if maxv < acc * radix + d then Inl PosOverflow
          else radix_loop radix maxv (acc * radix + d) cs)"

text \<open>Parsing of an unsigned type whose largest value is \<open>maxv\<close>: one leading plus sign is skipped.\<close>

definition from_str_radix :: "nat \<Rightarrow> nat \<Rightarrow> rstr \<Rightarrow> int_error + nat" where
  "from_str_radix radix maxv s =
     (case s of
        [] \<Rightarrow> Inl Empty
      | c # cs \<Rightarrow>
          if (c = of_char CHR ''+'' \<or> c = of_char CHR ''-'') \<and> cs = [] then Inl InvalidDigit
          else if c = of_char CHR ''+'' then radix_loop radix maxv 0 cs
          else radix_loop radix maxv 0 s)"

section \<open>Facts about UTF-8\<close>

lemma second_zero [simp]: "\<not> is_cont 0" "\<not> second_of_3 b 0" "\<not> second_of_4 b 0"
  by (simp_all add: is_cont_def second_of_3_def second_of_4_def)

lemma safe_get_append: "safe_get r i \<noteq> 0 \<Longrightarrow> safe_get (r @ s) i = safe_get r i"
  by (auto simp: safe_get_def idx_def nth_append split: if_splits)

lemma safe_get_take: "i < k \<Longrightarrow> safe_get (take k r) i = safe_get r i"
  by (simp add: safe_get_def idx_def)

lemma safe_get_length: "safe_get r i \<noteq> 0 \<Longrightarrow> i < length r"
  by (auto simp: safe_get_def idx_def split: if_splits)

lemma safe_get_nonzero:
  "is_cont (safe_get r i) \<Longrightarrow> safe_get r i \<noteq> 0"
  "second_of_3 b (safe_get r i) \<Longrightarrow> safe_get r i \<noteq> 0"
  "second_of_4 b (safe_get r i) \<Longrightarrow> safe_get r i \<noteq> 0"
  by auto

lemmas scan_append = safe_get_nonzero [THEN safe_get_append]
lemmas scan_length = safe_get_nonzero [THEN safe_get_length, unfolded Suc_le_eq [symmetric]]

lemma utf8_next_length: "snd (utf8_next b r) \<le> length r"
  unfolding utf8_next_def
  using scan_length(1) [of r 0] scan_length(1) [of r 1] scan_length(1) [of r 2]
    scan_length(2) [of b r 0] scan_length(3) [of b r 0]
  by (simp add: numeral_2_eq_2 numeral_3_eq_3)

lemma utf8_next_append: "fst (utf8_next b r) \<Longrightarrow> utf8_next b (r @ s) = utf8_next b r"
  unfolding utf8_next_def by (simp add: scan_append split: if_splits)

lemma utf8_next_take: "utf8_next b r = (True, k) \<Longrightarrow> utf8_next b (take k r) = (True, k)"
  unfolding utf8_next_def by (simp add: safe_get_take split: if_split_asm) blast

lemma utf8_next_ascii [simp]: "b < 128 \<Longrightarrow> utf8_next b r = (True, 0)"
  by (simp add: utf8_next_def)

lemma utf8_valid_append: "utf8_valid xs \<Longrightarrow> utf8_valid ys \<Longrightarrow> utf8_valid (xs @ ys)"
  by (induction xs rule: utf8_valid.induct) (auto simp: utf8_next_append utf8_next_length)

lemma utf8_valid_char:
  "fst (utf8_next b r) \<Longrightarrow> utf8_valid (b # take (snd (utf8_next b r)) r)"
  by (cases "utf8_next b r") (simp add: utf8_next_take)

lemma utf8_valid_replacement: "utf8_valid [0xEF, 0xBF, 0xBD]"
  by (simp add: utf8_next_def second_of_3_def is_cont_def safe_get_def)

lemma from_utf8_lossy_valid: "utf8_valid (from_utf8_lossy bs)"
  by (induction bs rule: from_utf8_lossy.induct)
    (simp_all del: utf8_valid.simps(2)
      add: utf8_valid_append utf8_valid_char [simplified append_Cons] utf8_valid_replacement)

lemma from_utf8_lossy_id: "utf8_valid bs \<Longrightarrow> from_utf8_lossy bs = bs"
  by (induction bs rule: utf8_valid.induct) auto

lemma from_utf8_lossy_zero: "0 \<in> set (from_utf8_lossy bs) \<Longrightarrow> 0 \<in> set bs"
  by (induction bs rule: from_utf8_lossy.induct)
    (auto split: prod.splits if_splits dest: in_set_takeD in_set_dropD)

lemma ascii_utf8_valid: "ascii s \<Longrightarrow> utf8_valid s"
  by (induction s) (simp_all add: ascii_def)

lemma ascii_simps [simp]:
  "ascii []" "ascii (b # s) \<longleftrightarrow> b < 128 \<and> ascii s" "ascii (s @ t) \<longleftrightarrow> ascii s \<and> ascii t"
  by (auto simp: ascii_def)

lemma concat_str_chars [simp]: "concat (str_chars s) = s"
  by (induction s rule: str_chars.induct) auto

lemma str_chars_ascii: "ascii s \<Longrightarrow> str_chars s = map (\<lambda>b. [b]) s"
  by (induction s rule: str_chars.induct) auto

section \<open>Facts about formatting and parsing\<close>

lemma digit_cases_16: "n < 16 \<Longrightarrow>
    n = 15 \<or> n = 14 \<or> n = 13 \<or> n = 12 \<or> n = 11 \<or> n = 10 \<or> n = 9 \<or> n = 8 \<or>
    n = 7 \<or> n = 6 \<or> n = 5 \<or> n = 4 \<or> n = 3 \<or> n = 2 \<or> n = 1 \<or> n = (0 :: nat)"
  by presburger

lemma to_digit_hex_digit [simp]: "n < 16 \<Longrightarrow> to_digit 16 (hex_digit n) = Some n"
  by (drule digit_cases_16, elim disjE) (simp_all add: to_digit_def hex_digit_def)

lemma to_digit_dec_digit [simp]: "n < 10 \<Longrightarrow> to_digit 10 (48 + of_nat n) = Some n"
  by (subgoal_tac "n < 16", drule digit_cases_16, elim disjE) (simp_all add: to_digit_def)

lemma hex_digit_ascii: "n < 16 \<Longrightarrow> hex_digit n < 128 \<and> hex_digit n \<noteq> of_char CHR '':''
    \<and> hex_digit n \<noteq> of_char CHR ''+'' \<and> hex_digit n \<noteq> of_char CHR ''-''"
  by (drule digit_cases_16, elim disjE) (simp_all add: hex_digit_def)

lemma unat_u16_bound: "unat (w :: u16) < 65536"
  using unsigned_less [of w, where ?'a = nat] by simp

lemma fmt_04x_digits:
  "unat (w :: u16) div 4096 < 16" "unat w div 256 mod 16 < 16"
  "unat w div 16 mod 16 < 16" "unat w mod 16 < 16"
  using unat_u16_bound [of w] by auto

lemma radix_loop_fmt_04x: "radix_loop 16 65535 0 (fmt_04x w) = Inr (unat w)"
proof -
  let ?n = "unat w"
  have n: "?n < 65536" by (rule unat_u16_bound)
  have 1: "?n div 4096 * 16 + ?n div 256 mod 16 = ?n div 256"
    using div_mult_mod_eq [of "?n div 256" 16] by (simp add: div_mult2_eq [symmetric])
  have 2: "?n div 256 * 16 + ?n div 16 mod 16 = ?n div 16"
    using div_mult_mod_eq [of "?n div 16" 16] by (simp add: div_mult2_eq [symmetric])
  have 3: "?n div 16 * 16 + ?n mod 16 = ?n"
    by (rule div_mult_mod_eq)
  have "?n div 4096 * 16 \<le> 65535" "?n div 256 * 16 \<le> 65535" "?n div 16 * 16 \<le> 65535" "?n \<le> 65535"
    "?n div 256 \<le> 65535" "?n div 16 \<le> 65535" "?n div 4096 \<le> 65535"
    using n 1 2 3 div_le_dividend [of ?n 4096] div_le_dividend [of ?n 256] div_le_dividend [of ?n 16]
    by linarith+
  then show ?thesis
    using fmt_04x_digits [of w] by (simp add: fmt_04x_def 1 2 3 not_less del: div_mult_mod_eq)
qed

lemma from_str_radix_fmt_04x: "from_str_radix 16 65535 (fmt_04x w) = Inr (unat w)"
  using radix_loop_fmt_04x [of w] hex_digit_ascii fmt_04x_digits [of w]
  by (simp add: from_str_radix_def fmt_04x_def)

lemma fmt_04x_no_colon: "of_char CHR '':'' \<notin> set (fmt_04x w)"
  using hex_digit_ascii fmt_04x_digits [of w] by (fastforce simp: fmt_04x_def)

lemma fmt_04x_length [simp]: "length (fmt_04x w) = 4"
  by (simp add: fmt_04x_def)

lemma fmt_04x_inj: "fmt_04x v = fmt_04x w \<Longrightarrow> v = w"
  using radix_loop_fmt_04x [of v] radix_loop_fmt_04x [of w] by (simp add: word_unat_eq_iff)

lemma split_once_append: "c \<notin> set s \<Longrightarrow> split_once c (s @ c # t) = Some (s, t)"
proof -
  assume "c \<notin> set s"
  then have "dropWhile (\<lambda>b. b \<noteq> c) (s @ c # t) = c # t" "takeWhile (\<lambda>b. b \<noteq> c) (s @ c # t) = s"
    by (induction s) auto
  then show ?thesis by (simp add: split_once_def)
qed

lemma split_once_Some:
  "split_once c s = Some (a, b) \<Longrightarrow> s = a @ c # b \<and> c \<notin> set a"
proof -
  assume "split_once c s = Some (a, b)"
  then obtain d where d: "dropWhile (\<lambda>b. b \<noteq> c) s = d # b" and a: "a = takeWhile (\<lambda>b. b \<noteq> c) s"
    by (auto simp: split_once_def split: list.splits)
  from d have "d = c" by (metis (full_types) hd_dropWhile list.sel(1) list.distinct(1))
  moreover from d a have "s = a @ d # b" by (metis takeWhile_dropWhile_id)
  moreover from a have "c \<notin> set a" by (metis (full_types) set_takeWhileD)
  ultimately show ?thesis by simp
qed

lemma radix_loop_bound: "radix_loop radix maxv acc s = Inr n \<Longrightarrow> acc \<le> maxv \<Longrightarrow> n \<le> maxv"
  by (induction s arbitrary: acc) (auto split: option.splits if_splits)

lemma from_str_radix_bound: "from_str_radix radix maxv s = Inr n \<Longrightarrow> n \<le> maxv"
  by (auto simp del: radix_loop.simps simp: from_str_radix_def
      intro: radix_loop_bound [of radix maxv 0] split: list.splits if_splits)

lemma radix_loop_append:
  "radix_loop radix maxv acc (xs @ ys) =
     (case radix_loop radix maxv acc xs of
        Inl e \<Rightarrow> Inl e
      | Inr a \<Rightarrow> radix_loop radix maxv a ys)"
  by (induction xs arbitrary: acc) (auto split: option.splits)

lemma radix_loop_show_dec: "n \<le> maxv \<Longrightarrow> radix_loop 10 maxv 0 (show_dec n) = Inr n"
proof (induction n rule: show_dec.induct)
  case (1 n)
  show ?case
  proof (cases "n < 10")
    case True
    with 1 show ?thesis by (simp add: show_dec.simps [of n])
  next
    case False
    with 1 have "radix_loop 10 maxv 0 (show_dec (n div 10)) = Inr (n div 10)" by simp
    moreover have "n div 10 * 10 + n mod 10 = n" by simp
    ultimately show ?thesis
      using 1 False by (simp add: show_dec.simps [of n] radix_loop_append not_less)
  qed
qed

lemma show_dec_inj: "show_dec m = show_dec n \<Longrightarrow> m = n"
proof -
  assume eq: "show_dec m = show_dec n"
  have "Inr m = radix_loop 10 (max m n) 0 (show_dec m)"
    by (rule radix_loop_show_dec [symmetric]) simp
  also have "\<dots> = Inr n"
    unfolding eq by (rule radix_loop_show_dec) simp
  finally show ?thesis by simp
qed

lemma show_dec_not_Nil [simp]: "show_dec n \<noteq> []"
  by (subst show_dec.simps) simp

lemma dec_digit_range: "n < 10 \<Longrightarrow> (48 :: u8) \<le> 48 + of_nat n \<and> (48 + of_nat n :: u8) \<le> 57"
  by (subgoal_tac "n < 16", drule digit_cases_16, elim disjE) simp_all

lemma show_dec_digits: "b \<in> set (show_dec n) \<Longrightarrow> 48 \<le> b \<and> b \<le> 57"
proof (induction n rule: show_dec.induct)
  case (1 n)
  then show ?case
    using dec_digit_range [of n] dec_digit_range [of "n mod 10"]
    by (cases "n < 10") (auto simp: show_dec.simps [of n])
qed

lemma show_dec_sep: "of_char CHR ''.'' \<notin> set (show_dec n)" "of_char CHR ''-'' \<notin> set (show_dec n)"
proof -
  have "b \<notin> set (show_dec n)" if "b < 48" for b
    using show_dec_digits [of b n] that by auto
  from this [of 46] this [of 45] show "of_char CHR ''.'' \<notin> set (show_dec n)"
    "of_char CHR ''-'' \<notin> set (show_dec n)" by simp_all
qed

end
