(* ===== verification/Host_Enum.thy ===== *)
theory Host_Enum
  imports Rust_Str
begin

text \<open>
  Device enumeration and identity of the host crate (\<^verbatim>\<open>host-mac/src/lib.rs\<close>): the device record
  that is advertised over USB/IP, the synthesized bus and device numbers, and the busid.

  \<^verbatim>\<open>nusb::DeviceInfo\<close> belongs to a third-party crate: it is a record of the values its accessors
  return. The result of \<^verbatim>\<open>nusb::list_devices\<close> is an argument of every operation that calls it.
  Errors of nusb are opaque codes that the sources only pass on.
\<close>

type_synonym nusb_error = nat
type_synonym transfer_error = nat
type_synonym device_id = nat

datatype nusb_speed = Low | Full | High | Super | SuperPlus | OtherSpeed

record usb_interface =
  ui_class :: u8
  ui_subclass :: u8
  ui_protocol :: u8

record device_info =
  di_id :: device_id
  di_registry_entry_id :: u64
  di_location_id :: u32
  di_bus_id :: rstr
  di_port_chain :: "u8 list"
  di_device_address :: u8
  di_vendor_id :: u16
  di_product_id :: u16
  di_device_version :: u16
  di_class :: u8
  di_subclass :: u8
  di_protocol :: u8
  di_speed :: "nusb_speed option"
  di_manufacturer_string :: "rstr option"
  di_product_string :: "rstr option"
  di_serial_number :: "rstr option"
  di_interfaces :: "usb_interface list"

type_synonym listing = "nusb_error + device_info list"

datatype capture_error =
    NoService u64
  | PlugIn i32
  | QueryInterface i32
  | OpenSeize i32
  | ReEnumerate i32

datatype host_error =
    Nusb nusb_error
  | Transfer transfer_error
  | NotFound rstr
  | EndpointNotFound u8
  | UnsupportedTransfer u8
  | InvalidSetup
  | Capture capture_error
  | ReenumerateTimeout

record usb_device =
  ud_busid :: rstr
  ud_busnum :: u32
  ud_devnum :: u32
  ud_speed :: u32
  ud_vendor_id :: u16
  ud_product_id :: u16
  ud_bcd_device :: u16
  ud_class :: u8
  ud_subclass :: u8
  ud_protocol :: u8
  ud_configuration_value :: u8
  ud_num_configurations :: u8
  ud_manufacturer :: "rstr option"
  ud_product :: "rstr option"
  ud_serial :: "rstr option"
  ud_interfaces :: "usb_interface list"

section \<open>Bus and device numbers\<close>

definition FNV_BASIS :: u32 where "FNV_BASIS = 0x811C9DC5"
definition FNV_PRIME :: u32 where "FNV_PRIME = 0x01000193"

definition fnv_step :: "u8 \<Rightarrow> u32 \<Rightarrow> u32" where
  "fnv_step b h = (h * FNV_PRIME) XOR ucast b"

definition fold_to_u8 :: "u32 \<Rightarrow> u8" where
  "fold_to_u8 h =
     (case to_le_bytes32 h of [a, b, c, d] \<Rightarrow> a XOR b XOR c XOR d | _ \<Rightarrow> 0)"

definition parse_bus_id :: "rstr \<Rightarrow> u32" where
  "parse_bus_id bus_id =
     (case from_str_radix 10 (2 ^ 32 - 1) bus_id of
        Inr n \<Rightarrow> of_nat (max 1 (min n 255))
      | Inl _ \<Rightarrow> max (ucast (fold_to_u8 (fold fnv_step bus_id FNV_BASIS))) 1)"

definition derive_bus_dev_inner :: "rstr \<Rightarrow> u8 list \<Rightarrow> u8 \<Rightarrow> u32 \<times> u32" where
  "derive_bus_dev_inner bus_id port_chain device_address =
     (let bus_token = parse_bus_id bus_id;
          h = fold fnv_step port_chain FNV_BASIS;
          h = fnv_step device_address h;
          devnum = max (ucast (fold_to_u8 h)) 1
      in (bus_token, devnum))"

definition derive_bus_dev :: "device_info \<Rightarrow> u32 \<times> u32" where
  "derive_bus_dev info =
     derive_bus_dev_inner (di_bus_id info) (di_port_chain info) (di_device_address info)"

section \<open>Busid, speed and the device record\<close>

fun join :: "rstr \<Rightarrow> rstr list \<Rightarrow> rstr" where
  "join sep [] = []"
| "join sep [x] = x"
| "join sep (x # y # zs) = x @ sep @ join sep (y # zs)"

definition format_busid :: "device_info \<Rightarrow> rstr" where
  "format_busid info =
     (let ports = map (\<lambda>p. show_dec (unat p)) (di_port_chain info); bus = di_bus_id info
      in if ports = [] then bus @ lit ''-0.'' @ show_dec (unat (di_device_address info))
         else bus @ lit ''-'' @ join (lit ''.'') ports)"

definition speed_to_usbip :: "nusb_speed option \<Rightarrow> u32" where
  "speed_to_usbip speed =
     (case speed of
        Some Low \<Rightarrow> 1
      | Some Full \<Rightarrow> 2
      | Some High \<Rightarrow> 3
      | Some Super \<Rightarrow> 5
      | Some SuperPlus \<Rightarrow> 6
      | _ \<Rightarrow> 0)"

definition from_nusb :: "device_info \<Rightarrow> u32 \<Rightarrow> u32 \<Rightarrow> usb_device" where
  "from_nusb info busnum devnum =
     \<lparr>ud_busid = format_busid info, ud_busnum = busnum, ud_devnum = devnum,
      ud_speed = speed_to_usbip (di_speed info), ud_vendor_id = di_vendor_id info,
      ud_product_id = di_product_id info, ud_bcd_device = di_device_version info,
      ud_class = di_class info, ud_subclass = di_subclass info, ud_protocol = di_protocol info,
      ud_configuration_value = 1, ud_num_configurations = 1,
      ud_manufacturer = di_manufacturer_string info, ud_product = di_product_string info,
      ud_serial = di_serial_number info, ud_interfaces = di_interfaces info\<rparr>"

definition from_info :: "device_info \<Rightarrow> usb_device" where
  "from_info info = (let (busnum, devnum) = derive_bus_dev info in from_nusb info busnum devnum)"

definition list_devices :: "listing \<Rightarrow> host_error + usb_device list" where
  "list_devices nusb_list =
     (case nusb_list of Inl e \<Rightarrow> Inl (Nusb e) | Inr infos \<Rightarrow> Inr (map from_info infos))"

section \<open>Facts about the numbers\<close>

lemma fold_to_u8_xor:
  "fold_to_u8 h =
     ucast h XOR ucast (drop_bit 8 h) XOR ucast (drop_bit 16 h) XOR ucast (drop_bit 24 h)"
  by (simp add: fold_to_u8_def to_le_bytes32_def to_be_bytes32_def ac_simps)

text \<open>Mixing a byte into the hash changes the fold by exactly that byte.\<close>

lemma fold_to_u8_mix: "fold_to_u8 (h XOR ucast (a :: u8)) = fold_to_u8 h XOR a"
  unfolding fold_to_u8_xor by (rule bit_word_eqI) (auto simp: bit_simps)

lemma clamped_u8_bounds:
  "1 \<le> unat (max (ucast (b :: u8)) (1 :: u32)) \<and> unat (max (ucast b) (1 :: u32)) \<le> 255"
proof -
  show ?thesis using unat_u8_bound [of b] by (auto simp: max_def word_le_nat_alt)
qed

lemma clamped_u8_collision:
  assumes "(x :: u8) \<noteq> y" and eq: "max (ucast x) (1 :: u32) = max (ucast y) 1"
  shows "max (ucast x) (1 :: u32) = 1"
proof (rule ccontr)
  assume big: "max (ucast x) (1 :: u32) \<noteq> 1"
  then have "max (ucast y) (1 :: u32) = ucast x" "max (ucast y) (1 :: u32) = ucast y"
    using eq by (auto simp: max_def split: if_splits)
  then have "unat x = unat y" by (metis unat_ucast_u8)
  with \<open>x \<noteq> y\<close> show False by (simp add: word_unat_eq_iff)
qed

lemma parse_bus_id_bounds: "1 \<le> unat (parse_bus_id s) \<and> unat (parse_bus_id s) \<le> 255"
proof (cases "from_str_radix 10 (2 ^ 32 - 1) s")
  case (Inl e)
  then show ?thesis unfolding parse_bus_id_def using clamped_u8_bounds by simp
next
  case (Inr n)
  let ?k = "max 1 (min n 255)"
  have "?k < 2 ^ 32" by simp
  then have "unat (of_nat ?k :: u32) = ?k" by (simp add: unat_of_nat)
  with Inr show ?thesis by (simp add: parse_bus_id_def)
qed

lemma derive_bus_dev_bounds:
  "derive_bus_dev_inner bus ports addr = (busnum, devnum) \<Longrightarrow>
   1 \<le> unat busnum \<and> unat busnum \<le> 255 \<and> 1 \<le> unat devnum \<and> unat devnum \<le> 255"
  using parse_bus_id_bounds clamped_u8_bounds
  by (auto simp: derive_bus_dev_inner_def Let_def)

section \<open>The packed device id\<close>

text \<open>
  \<open>devid_of\<close> is the expression \<^verbatim>\<open>(busnum << 16) | devnum\<close> of \<^verbatim>\<open>OpenedDevice::open\<close> and of the
  URB loop; \<open>devid_busnum\<close> and \<open>devid_devnum\<close> are its inverses in \<^verbatim>\<open>descriptor_snapshot\<close>.
\<close>

definition devid_of :: "u32 \<Rightarrow> u32 \<Rightarrow> u32" where
  "devid_of busnum devnum = push_bit 16 busnum OR devnum"

definition devid_busnum :: "u32 \<Rightarrow> u32" where
  "devid_busnum devid = drop_bit 16 devid"

definition devid_devnum :: "u32 \<Rightarrow> u32" where
  "devid_devnum devid = devid AND 0xFFFF"

lemma devid_unpack_bytes:
  "devid_busnum (devid_of (ucast (b :: u8)) (ucast (d :: u8))) = ucast b"
  "devid_devnum (devid_of (ucast (b :: u8)) (ucast (d :: u8))) = ucast d"
proof -
  have mask: "(0xFFFF :: u32) = mask 16" by (simp add: mask_numeral)
  show "devid_busnum (devid_of (ucast b) (ucast d)) = ucast b"
  proof (rule bit_word_eqI)
    fix n
    show "bit (devid_busnum (devid_of (ucast b) (ucast d))) n = bit (ucast b :: u32) n"
      by (cases "n < 8") (auto simp: devid_busnum_def devid_of_def bit_simps)
  qed
  show "devid_devnum (devid_of (ucast b) (ucast d)) = ucast d"
    unfolding devid_devnum_def mask
  proof (rule bit_word_eqI)
    fix n
    show "bit (devid_of (ucast b) (ucast d) AND mask 16) n = bit (ucast d :: u32) n"
      by (cases "n < 8") (auto simp: devid_of_def bit_simps)
  qed
qed

lemma devid_unpack:
  assumes "unat busnum \<le> 255" "unat devnum \<le> 255"
  shows "devid_busnum (devid_of busnum devnum) = busnum" "devid_devnum (devid_of busnum devnum) = devnum"
proof -
  from assms obtain b d :: u8 where "busnum = ucast b" "devnum = ucast d"
    by (metis u32_byte)
  then show "devid_busnum (devid_of busnum devnum) = busnum"
    "devid_devnum (devid_of busnum devnum) = devnum"
    by (simp_all add: devid_unpack_bytes)
qed

lemma ucast_u8_masked: "unat (w :: u32) \<le> 255 \<Longrightarrow> w AND 0xFF = w"
proof -
  have mask: "(0xFF :: u32) = mask 8" by (simp add: mask_numeral)
  assume "unat w \<le> 255"
  then obtain b :: u8 where w: "w = ucast b" by (metis u32_byte)
  show ?thesis
    unfolding w mask
  proof (rule bit_word_eqI)
    fix n
    show "bit (ucast b AND mask 8 :: u32) n = bit (ucast b :: u32) n"
      by (cases "n < 8") (auto simp: bit_simps)
  qed
qed

section \<open>Facts about the busid\<close>

lemma append_sep_inject:
  fixes c :: u8
  assumes "c \<notin> set x" "c \<notin> set y" "x @ c # r = y @ c # s"
  shows "x = y \<and> r = s"
proof -
  have "Some (x, r) = split_once c (x @ c # r)"
    by (rule split_once_append [symmetric]) fact
  also have "\<dots> = Some (y, s)"
    unfolding assms(3) by (rule split_once_append) fact
  finally show ?thesis by simp
qed

lemma join_Cons: "join sep (x # xs) = (if xs = [] then x else x @ sep @ join sep xs)"
  by (cases xs) simp_all

lemma join_inject:
  "xs \<noteq> [] \<Longrightarrow> ys \<noteq> [] \<Longrightarrow> \<forall>x \<in> set xs. c \<notin> set x \<Longrightarrow> \<forall>y \<in> set ys. c \<notin> set y \<Longrightarrow>
   join [c] xs = join [c] ys \<Longrightarrow> xs = ys"
proof (induction xs arbitrary: ys)
  case (Cons x xs)
  then obtain y ys' where ys: "ys = y # ys'" by (cases ys) auto
  show ?case
  proof (cases "xs = [] \<or> ys' = []")
    case True
    with Cons.prems ys show ?thesis by (auto simp: join_Cons split: if_splits)
  next
    case False
    with Cons.prems ys have "x = y \<and> join [c] xs = join [c] ys'"
      by (intro append_sep_inject [of c]) (auto simp: join_Cons)
    with Cons False ys show ?thesis by auto
  qed
qed simp

definition busid_ports :: "device_info \<Rightarrow> u8 list" where
  "busid_ports info =
     (if di_port_chain info = [] then [0, di_device_address info] else di_port_chain info)"

lemma format_busid_ports:
  "format_busid info =
     di_bus_id info @ of_char CHR ''-'' # join [of_char CHR ''.''] (map (show_dec \<circ> unat) (busid_ports info))"
  by (simp add: format_busid_def busid_ports_def Let_def comp_def show_dec.simps [of 0])

lemma format_busid_inject:
  assumes "of_char CHR ''-'' \<notin> set (di_bus_id i)" "of_char CHR ''-'' \<notin> set (di_bus_id j)"
    and eq: "format_busid i = format_busid j"
  shows "di_bus_id i = di_bus_id j \<and> busid_ports i = busid_ports j"
proof -
  let ?show = "map (show_dec \<circ> unat :: u8 \<Rightarrow> rstr)"
  from assms have "di_bus_id i = di_bus_id j \<and>
      join [of_char CHR ''.''] (?show (busid_ports i)) = join [of_char CHR ''.''] (?show (busid_ports j))"
    unfolding format_busid_ports by (intro append_sep_inject)
  moreover from this have "?show (busid_ports i) = ?show (busid_ports j)"
    using show_dec_sep by (intro join_inject [of _ _ "of_char CHR ''.''"]) (auto simp: busid_ports_def)
  moreover have "inj (show_dec \<circ> unat :: u8 \<Rightarrow> rstr)"
    by (auto intro!: injI dest!: show_dec_inj simp: word_unat_eq_iff)
  ultimately show ?thesis using map_injective by blast
qed

section \<open>Properties\<close>

text \<open>
  The bus and device number of every device are in 1..255, so that the packed device id survives
  the truncation of both halves to eight bits that Linux clients perform and unpacks to the pair it
  was built from.
\<close>

theorem devid_survives_truncation:
  "case derive_bus_dev info of (busnum, devnum) \<Rightarrow>
     1 \<le> unat busnum \<and> unat busnum \<le> 255 \<and> 1 \<le> unat devnum \<and> unat devnum \<le> 255 \<and>
     devid_of (busnum AND 0xFF) (devnum AND 0xFF) = devid_of busnum devnum \<and>
     devid_busnum (devid_of busnum devnum) = busnum \<and>
     devid_devnum (devid_of busnum devnum) = devnum"
  using derive_bus_dev_bounds [of "di_bus_id info" "di_port_chain info" "di_device_address info"]
  by (auto simp: derive_bus_dev_def ucast_u8_masked devid_unpack split: prod.split)

text \<open>
  Busids identify devices: two devices with the same busid sit on the same bus with the same port
  chain and, where the port chain is empty, have the same device address (bus tokens contain no
  dash, and no port is numbered 0).
\<close>

theorem busid_identifies_device:
  assumes "of_char CHR ''-'' \<notin> set (di_bus_id i)" "of_char CHR ''-'' \<notin> set (di_bus_id j)"
    and "0 \<notin> set (di_port_chain i)" "0 \<notin> set (di_port_chain j)"
  shows "format_busid i = format_busid j \<longleftrightarrow>
     di_bus_id i = di_bus_id j \<and> di_port_chain i = di_port_chain j \<and>
     (di_port_chain i = [] \<longrightarrow> di_device_address i = di_device_address j)"
proof
  assume "format_busid i = format_busid j"
  with assms(1,2) have bus: "di_bus_id i = di_bus_id j" and ports: "busid_ports i = busid_ports j"
    using format_busid_inject by blast+
  from ports assms(3,4) have "di_port_chain i = di_port_chain j"
    by (metis busid_ports_def list.set_intros(1))
  with bus ports show "di_bus_id i = di_bus_id j \<and> di_port_chain i = di_port_chain j \<and>
     (di_port_chain i = [] \<longrightarrow> di_device_address i = di_device_address j)"
    by (simp add: busid_ports_def split: if_splits)
qed (simp add: format_busid_def Let_def)

definition keyboard_info :: device_info where
  "keyboard_info =
     \<lparr>di_id = 1, di_registry_entry_id = 100, di_location_id = 0x01100000, di_bus_id = lit ''01'',
      di_port_chain = [1], di_device_address = 2, di_vendor_id = 0x1050, di_product_id = 0x0407,
      di_device_version = 0x0543, di_class = 0, di_subclass = 0, di_protocol = 0,
      di_speed = Some Full, di_manufacturer_string = Some (lit ''Yubico''),
      di_product_string = None, di_serial_number = None,
      di_interfaces = [\<lparr>ui_class = 3, ui_subclass = 1, ui_protocol = 1\<rparr>]\<rparr>"

theorem busid_identifies_device_witness:
  "format_busid keyboard_info \<noteq> format_busid (keyboard_info\<lparr>di_port_chain := [1, 1]\<rparr>)"
  using busid_identifies_device [of keyboard_info "keyboard_info\<lparr>di_port_chain := [1, 1]\<rparr>"]
  by (simp add: keyboard_info_def)

text \<open>
  The device number is not a function of the physical port alone: two devices on the same bus and
  port chain with different device addresses get different device numbers, unless both are clamped
  to 1.
\<close>

theorem devnum_depends_on_address:
  assumes "a \<noteq> a'"
    and "snd (derive_bus_dev_inner bus ports a) = snd (derive_bus_dev_inner bus ports a')"
  shows "snd (derive_bus_dev_inner bus ports a) = 1"
proof -
  let ?f = "\<lambda>a. fold_to_u8 (fold fnv_step ports FNV_BASIS * FNV_PRIME) XOR a"
  have num: "snd (derive_bus_dev_inner bus ports a) = max (ucast (?f a)) 1" for a
    by (simp add: derive_bus_dev_inner_def Let_def fnv_step_def fold_to_u8_mix)
  have "?f a \<noteq> ?f a'"
  proof
    assume eq: "?f a = ?f a'"
    have "a = ?f 0 XOR ?f a" by (simp flip: xor.assoc)
    also have "\<dots> = a'" unfolding eq by (simp flip: xor.assoc)
    finally show False using \<open>a \<noteq> a'\<close> by simp
  qed
  moreover have "max (ucast (?f a)) (1 :: u32) = max (ucast (?f a')) 1"
    using assms(2) unfolding num .
  ultimately have "max (ucast (?f a)) (1 :: u32) = 1"
    by (rule clamped_u8_collision)
  with num show ?thesis by simp
qed

theorem devnum_depends_on_address_witness:
  "snd (derive_bus_dev_inner (lit ''1'') [2] 4) \<noteq> snd (derive_bus_dev_inner (lit ''1'') [2] 5)"
  using devnum_depends_on_address [of 4 5 "lit ''1''" "[2]"]
  by (auto simp: derive_bus_dev_inner_def fnv_step_def FNV_BASIS_def FNV_PRIME_def fold_to_u8_xor)

end
