(* ===== verification/Host_Capture.thy ===== *)
theory Host_Capture
  imports Host_Enum
begin

text \<open>
  Force-capture through IOKit (\<^verbatim>\<open>host-mac/src/capture.rs\<close>). IOKit is the parameter \<open>iokit\<close>: what
  each call returns, with \<^const>\<open>None\<close> for a null slot of a COM vtable. The model of
  \<^verbatim>\<open>reenumerate_with_options\<close> returns the calls it makes, in order and with the drops of its two
  RAII guards, and its result, with \<^const>\<open>None\<close> for a panic of an \<^verbatim>\<open>expect\<close>.

  \<open>io_run\<close> replays a call sequence on reference counts and is \<^const>\<open>None\<close> as soon as a call uses an
  object that is not held. The lemmas show that no path uses a released object, and that under the
  COM contract every path releases exactly what it acquired.
\<close>

definition kUSBReEnumerateCaptureDeviceMask :: u32 where
  "kUSBReEnumerateCaptureDeviceMask = push_bit 30 1"

definition kUSBReEnumerateReleaseDeviceMask :: u32 where
  "kUSBReEnumerateReleaseDeviceMask = push_bit 29 1"

record iokit =
  io_matching :: "u64 \<Rightarrow> bool"
  io_service :: "u64 \<Rightarrow> u32"
  io_plugin :: "u32 \<Rightarrow> i32 \<times> bool"
  io_plugin_query :: "u32 \<Rightarrow> (i32 \<times> bool) option"
  io_plugin_release :: bool
  io_dev_release :: bool
  io_open_seize :: "u32 \<Rightarrow> i32 option"
  io_reenumerate :: "u32 \<Rightarrow> (u32 \<Rightarrow> i32) option"
  io_close :: bool

datatype io_call =
    RegistryEntryIDMatching u64 bool
  | GetMatchingService u32
  | CreatePlugIn i32 bool
  | PlugInQueryInterface i32 bool
  | PlugInRelease
  | USBDeviceOpenSeize i32
  | USBDeviceReEnumerate u32 i32
  | USBDeviceClose
  | DeviceRelease
  | ObjectRelease u32

text \<open>Steps 4 to 6 and the two guards: the device interface is held, the service still is.\<close>

definition reenumerate_held ::
  "iokit \<Rightarrow> u32 \<Rightarrow> u32 \<Rightarrow> io_call list \<times> (capture_error + unit) option" where
  "reenumerate_held k service options =
     (let drop_dev = (if io_dev_release k then [DeviceRelease] else []);
          drop_service = [ObjectRelease service]
      in case io_open_seize k service of
           None \<Rightarrow> (drop_dev @ drop_service, None)
         | Some ret \<Rightarrow>
             if ret \<noteq> 0 then
               (USBDeviceOpenSeize ret # drop_dev @ drop_service, Some (Inl (OpenSeize ret)))
             else
               (case io_reenumerate k service of
                  None \<Rightarrow> (USBDeviceOpenSeize ret # drop_dev @ drop_service, None)
                | Some f \<Rightarrow>
                    ([USBDeviceOpenSeize ret, USBDeviceReEnumerate options (f options)] @
                       (if io_close k then [USBDeviceClose] else []) @ drop_dev @ drop_service,
                     Some (if f options \<noteq> 0 then Inl (ReEnumerate (f options)) else Inr ()))))"

definition reenumerate_with_options ::
  "iokit \<Rightarrow> u64 \<Rightarrow> u32 \<Rightarrow> io_call list \<times> (capture_error + unit) option" where
  "reenumerate_with_options k registry_entry_id options =
     (if \<not> io_matching k registry_entry_id then
        ([RegistryEntryIDMatching registry_entry_id False], Some (Inl (NoService registry_entry_id)))
      else
        let found = [RegistryEntryIDMatching registry_entry_id True,
                     GetMatchingService (io_service k registry_entry_id)];
            service = io_service k registry_entry_id
        in if service = 0 then (found, Some (Inl (NoService registry_entry_id)))
           else
             (case io_plugin k service of (kr, plugin) \<Rightarrow>
                if kr \<noteq> 0 \<or> \<not> plugin then
                  (found @ [CreatePlugIn kr plugin, ObjectRelease service], Some (Inl (PlugIn kr)))
                else
                  (case io_plugin_query k service of
                     None \<Rightarrow> (found @ [CreatePlugIn kr plugin, ObjectRelease service], None)
                   | Some (hr, dev_iface) \<Rightarrow>
                       let queried = found @ [CreatePlugIn kr plugin, PlugInQueryInterface hr dev_iface] @
                             (if io_plugin_release k then [PlugInRelease] else [])
                       in if hr \<noteq> 0 \<or> \<not> dev_iface then
                            (queried @ [ObjectRelease service], Some (Inl (QueryInterface hr)))
                          else
                            (case reenumerate_held k service options of
                               (calls, r) \<Rightarrow> (queried @ calls, r)))))"

definition reenumerate_with_capture :: "iokit \<Rightarrow> u64 \<Rightarrow> io_call list \<times> (capture_error + unit) option" where
  "reenumerate_with_capture k registry_entry_id =
     reenumerate_with_options k registry_entry_id kUSBReEnumerateCaptureDeviceMask"

definition reenumerate_release :: "iokit \<Rightarrow> u64 \<Rightarrow> io_call list \<times> (capture_error + unit) option" where
  "reenumerate_release k registry_entry_id =
     reenumerate_with_options k registry_entry_id kUSBReEnumerateReleaseDeviceMask"

section \<open>Reference counts along a call sequence\<close>

record io_refs =
  held_service :: nat
  held_plugin :: nat
  held_dev :: nat
  dev_open :: bool

definition no_refs :: io_refs where
  "no_refs = \<lparr>held_service = 0, held_plugin = 0, held_dev = 0, dev_open = False\<rparr>"

fun io_step :: "io_call \<Rightarrow> io_refs \<Rightarrow> io_refs option" where
  "io_step (RegistryEntryIDMatching _ _) r = Some r"
| "io_step (GetMatchingService s) r =
     Some (if s \<noteq> 0 then r\<lparr>held_service := Suc (held_service r)\<rparr> else r)"
| "io_step (CreatePlugIn kr plugin) r =
     (if held_service r = 0 then None
      else Some (if plugin then r\<lparr>held_plugin := Suc (held_plugin r)\<rparr> else r))"
| "io_step (PlugInQueryInterface hr dev) r =
     (if held_plugin r = 0 then None
      else Some (if dev then r\<lparr>held_dev := Suc (held_dev r)\<rparr> else r))"
| "io_step PlugInRelease r =
     (if held_plugin r = 0 then None else Some (r\<lparr>held_plugin := held_plugin r - 1\<rparr>))"
| "io_step (USBDeviceOpenSeize ret) r =
     (if held_dev r = 0 then None else Some (r\<lparr>dev_open := (ret = 0)\<rparr>))"
| "io_step (USBDeviceReEnumerate opts ret) r =
     (if held_dev r = 0 \<or> \<not> dev_open r then None else Some r)"
| "io_step USBDeviceClose r =
     (if held_dev r = 0 then None else Some (r\<lparr>dev_open := False\<rparr>))"
| "io_step DeviceRelease r =
     (if held_dev r = 0 then None else Some (r\<lparr>held_dev := held_dev r - 1\<rparr>))"
| "io_step (ObjectRelease s) r =
     (if held_service r = 0 then None else Some (r\<lparr>held_service := held_service r - 1\<rparr>))"

fun io_run :: "io_call list \<Rightarrow> io_refs \<Rightarrow> io_refs option" where
  "io_run [] r = Some r"
| "io_run (c # cs) r = (case io_step c r of None \<Rightarrow> None | Some r' \<Rightarrow> io_run cs r')"

text \<open>
  The COM and IOKit contract: the vtable slots the sources call are not null, and an out-pointer
  is set only by a call that succeeds.
\<close>

definition io_contract :: "iokit \<Rightarrow> bool" where
  "io_contract k \<longleftrightarrow>
     io_plugin_release k \<and> io_dev_release k \<and> io_close k \<and>
     (\<forall>s. fst (io_plugin k s) \<noteq> 0 \<longrightarrow> \<not> snd (io_plugin k s)) \<and>
     (\<forall>s. io_plugin_query k s \<noteq> None \<and> io_open_seize k s \<noteq> None \<and> io_reenumerate k s \<noteq> None) \<and>
     (\<forall>s hr dev. io_plugin_query k s = Some (hr, dev) \<longrightarrow> hr \<noteq> 0 \<longrightarrow> \<not> dev)"

lemma io_run_append:
  "io_run (xs @ ys) r = (case io_run xs r of None \<Rightarrow> None | Some r' \<Rightarrow> io_run ys r')"
  by (induction xs arbitrary: r) (auto split: option.splits)

lemma reenumerate_held_no_misuse:
  "0 < held_service r \<Longrightarrow> 0 < held_dev r \<Longrightarrow>
   io_run (fst (reenumerate_held k service options)) r \<noteq> None"
  by (auto simp: reenumerate_held_def Let_def split: option.splits)

lemma io_contract_slots:
  assumes "io_contract k"
  obtains hr dev ret f where "io_plugin_query k s = Some (hr, dev)" "hr \<noteq> 0 \<longrightarrow> \<not> dev"
    "io_open_seize k s = Some ret" "io_reenumerate k s = Some f"
  using assms unfolding io_contract_def by (metis option.exhaust surj_pair)

lemma reenumerate_held_balanced:
  assumes "io_contract k"
  shows "io_run (fst (reenumerate_held k service options))
       \<lparr>held_service = Suc 0, held_plugin = 0, held_dev = Suc 0, dev_open = False\<rparr> = Some no_refs \<and>
     snd (reenumerate_held k service options) \<noteq> None"
proof -
  from assms obtain ret f where "io_open_seize k service = Some ret" "io_reenumerate k service = Some f"
    by (rule io_contract_slots)
  with assms show ?thesis
    by (auto simp: reenumerate_held_def Let_def io_contract_def no_refs_def)
qed

text \<open>Whatever IOKit answers, and even where an \<^verbatim>\<open>expect\<close> on a null vtable slot panics:\<close>

lemma reenumerate_no_misuse:
  "io_run (fst (reenumerate_with_options k registry_entry_id options)) no_refs \<noteq> None"
  unfolding reenumerate_with_options_def
  using reenumerate_held_no_misuse [of _ k "io_service k registry_entry_id" options]
  by (auto simp: Let_def io_run_append no_refs_def split: option.splits prod.splits)

lemma reenumerate_releases_all:
  assumes "io_contract k"
  shows "io_run (fst (reenumerate_with_options k registry_entry_id options)) no_refs = Some no_refs \<and>
     snd (reenumerate_with_options k registry_entry_id options) \<noteq> None"
proof -
  let ?s = "io_service k registry_entry_id"
  obtain kr plugin where plugin: "io_plugin k ?s = (kr, plugin)" by (cases "io_plugin k ?s")
  from assms obtain hr dev where query: "io_plugin_query k ?s = Some (hr, dev)" "hr \<noteq> 0 \<longrightarrow> \<not> dev"
    by (rule io_contract_slots)
  from assms have rel: "io_plugin_release k" "kr \<noteq> 0 \<longrightarrow> \<not> plugin"
    using plugin by (auto simp: io_contract_def dest: spec [of _ ?s])
  obtain calls res where held: "reenumerate_held k ?s options = (calls, res)"
    by (cases "reenumerate_held k ?s options")
  have "io_run calls \<lparr>held_service = Suc 0, held_plugin = 0, held_dev = Suc 0, dev_open = False\<rparr> =
      Some no_refs" "res \<noteq> None"
    using reenumerate_held_balanced [OF assms, of ?s options] held by auto
  with plugin query rel held show ?thesis
    by (auto simp: reenumerate_with_options_def Let_def io_run_append no_refs_def)
qed

lemmas reenumerate_total = reenumerate_releases_all [THEN conjunct2]

text \<open>
  C22: On every path of a re-enumeration, whatever IOKit answers and even where an \<^verbatim>\<open>expect\<close> on a null
  vtable slot panics, no IOKit object is used or released while it is not held, and the device is
  re-enumerated only after it was seized. Under the COM contract a re-enumeration moreover never
  panics and releases, on success and on every error, exactly the service, plug-in and device
  references it acquired, with the device closed.
\<close>

theorem reenumerate_balanced:
  "io_run (fst (reenumerate_with_options k registry_entry_id options)) no_refs \<noteq> None \<and>
   (io_contract k \<longrightarrow>
      io_run (fst (reenumerate_with_options k registry_entry_id options)) no_refs = Some no_refs \<and>
      snd (reenumerate_with_options k registry_entry_id options) \<noteq> None)"
  using reenumerate_no_misuse reenumerate_releases_all by blast

definition witness_iokit :: iokit where
  "witness_iokit =
     \<lparr>io_matching = (\<lambda>_. True), io_service = (\<lambda>_. 7), io_plugin = (\<lambda>_. (0, True)),
      io_plugin_query = (\<lambda>_. Some (0, True)), io_plugin_release = True, io_dev_release = True,
      io_open_seize = (\<lambda>_. Some 0), io_reenumerate = (\<lambda>_. Some (\<lambda>_. 0)), io_close = True\<rparr>"

theorem reenumerate_balanced_witness:
  "io_contract witness_iokit \<and>
   io_run (fst (reenumerate_with_options witness_iokit 42 kUSBReEnumerateCaptureDeviceMask)) no_refs =
     Some no_refs"
proof -
  have c: "io_contract witness_iokit" by (simp add: io_contract_def witness_iokit_def)
  from c reenumerate_balanced [of witness_iokit 42 kUSBReEnumerateCaptureDeviceMask] show ?thesis by simp
qed

text \<open>
  A capture that succeeds has issued exactly one \<^verbatim>\<open>USBDeviceReEnumerate\<close>, with the capture mask
  \<^verbatim>\<open>0x40000000\<close>; a release that succeeds exactly one, with the disjoint mask \<^verbatim>\<open>0x20000000\<close>.
\<close>

definition reenumerations :: "io_call list \<Rightarrow> u32 list" where
  "reenumerations cs = List.map_filter (\<lambda>c. case c of USBDeviceReEnumerate opts _ \<Rightarrow> Some opts | _ \<Rightarrow> None) cs"

lemma reenumerate_ok_once:
  "snd (reenumerate_with_options k i options) = Some (Inr ()) \<Longrightarrow>
   reenumerations (fst (reenumerate_with_options k i options)) = [options]"
  by (auto simp: reenumerate_with_options_def reenumerate_held_def reenumerations_def Let_def
      List.map_filter_def split: option.splits prod.splits if_splits)

theorem capture_masks:
  "(snd (reenumerate_with_capture k i) = Some (Inr ()) \<longrightarrow>
      reenumerations (fst (reenumerate_with_capture k i)) = [0x40000000]) \<and>
   (snd (reenumerate_release k i) = Some (Inr ()) \<longrightarrow>
      reenumerations (fst (reenumerate_release k i)) = [0x20000000]) \<and>
   kUSBReEnumerateCaptureDeviceMask AND kUSBReEnumerateReleaseDeviceMask = 0"
  using reenumerate_ok_once [of k i]
  by (auto simp: reenumerate_with_capture_def reenumerate_release_def
      kUSBReEnumerateCaptureDeviceMask_def kUSBReEnumerateReleaseDeviceMask_def)

theorem capture_masks_witness:
  "snd (reenumerate_with_capture witness_iokit 42) = Some (Inr ()) \<and>
   reenumerations (fst (reenumerate_with_capture witness_iokit 42)) = [0x40000000]"
proof -
  have ok: "snd (reenumerate_with_capture witness_iokit 42) = Some (Inr ())"
    by (simp add: reenumerate_with_capture_def reenumerate_with_options_def reenumerate_held_def
        witness_iokit_def)
  with capture_masks [of witness_iokit 42] show ?thesis by blast
qed

end
