(* ===== verification/Host_Device.thy ===== *)
theory Host_Device
  imports Host_Capture
begin

text \<open>
  Opened devices of the host crate (\<^verbatim>\<open>host-mac/src/lib.rs\<close>, from the setup packet on): opening with
  force-capture, the lazily filled interface and endpoint caches, control and data transfers with the
  interception of \<^verbatim>\<open>SET_CONFIGURATION\<close> and \<^verbatim>\<open>SET_INTERFACE\<close>, and the release on drop.

  nusb is the record \<open>'w nusb\<close>: each operation takes the state \<open>'w\<close> of the USB stack and returns its
  result with the next state. The iteration order of a \<^verbatim>\<open>HashMap\<close> is random and differs from one map
  to the next, even for the same keys: \<open>nb_order\<close> draws it anew for every map that \<^verbatim>\<open>endpoint_kind\<close>
  builds, from a source that is part of \<open>'w\<close>. Every method is one atomic operation here; the
  interleaving of transfers is the subject of the URB session theory.
\<close>

section \<open>Setup packets\<close>

record setup_packet =
  bm_request_type :: u8
  b_request :: u8
  w_value :: u16
  w_index :: u16
  w_length :: u16

definition setup_from_bytes :: "bytes \<Rightarrow> setup_packet" where
  "setup_from_bytes b =
     \<lparr>bm_request_type = b ! 0, b_request = b ! 1, w_value = from_le_bytes16 (b ! 2) (b ! 3),
      w_index = from_le_bytes16 (b ! 4) (b ! 5), w_length = from_le_bytes16 (b ! 6) (b ! 7)\<rparr>"

definition setup_is_in :: "setup_packet \<Rightarrow> bool" where
  "setup_is_in s \<longleftrightarrow> bm_request_type s AND 0x80 \<noteq> 0"

datatype control_type = Standard | ClassType | Vendor
datatype recipient = DeviceRecipient | InterfaceRecipient | EndpointRecipient | OtherRecipient

definition setup_control_type :: "setup_packet \<Rightarrow> control_type" where
  "setup_control_type s =
     (let t = drop_bit 5 (bm_request_type s) AND 0x3
      in if t = 0 then Standard else if t = 1 then ClassType else Vendor)"

definition setup_recipient :: "setup_packet \<Rightarrow> recipient" where
  "setup_recipient s =
     (let r = bm_request_type s AND 0x1F
      in if r = 0 then DeviceRecipient else if r = 1 then InterfaceRecipient
         else if r = 2 then EndpointRecipient else OtherRecipient)"

definition is_set_configuration :: "setup_packet \<Rightarrow> bool" where
  "is_set_configuration s \<longleftrightarrow> \<not> setup_is_in s \<and> bm_request_type s = 0x00 \<and> b_request s = 0x09"

definition is_set_interface :: "setup_packet \<Rightarrow> bool" where
  "is_set_interface s \<longleftrightarrow> \<not> setup_is_in s \<and> bm_request_type s = 0x01 \<and> b_request s = 0x0B"

section \<open>The nusb interface\<close>

datatype transfer_type = TControl | TIsochronous | TBulk | TInterrupt
datatype ep_kind = Bulk | Interrupt

record alt_setting =
  as_interface_number :: u8
  as_alternate_setting :: u8
  as_class :: u8
  as_subclass :: u8
  as_protocol :: u8
  as_endpoints :: "(u8 \<times> transfer_type) list"

record configuration =
  cfg_value :: u8
  cfg_alt_settings :: "alt_setting list"

record control_request =
  cr_type :: control_type
  cr_recipient :: recipient
  cr_request :: u8
  cr_value :: u16
  cr_index :: u16

record completion =
  actual_len :: nat
  into_result :: "transfer_error + bytes"

record 'w nusb =
  nb_active_configuration :: "'w \<Rightarrow> configuration option"
  nb_configurations :: "'w \<Rightarrow> nat"
  nb_set_configuration :: "u8 \<Rightarrow> 'w \<Rightarrow> (nusb_error + unit) \<times> 'w"
  nb_claim_interface :: "u8 \<Rightarrow> 'w \<Rightarrow> (nusb_error + unit) \<times> 'w"
  nb_set_alt_setting :: "u8 \<Rightarrow> u8 \<Rightarrow> 'w \<Rightarrow> (nusb_error + unit) \<times> 'w"
  nb_endpoint :: "u8 \<Rightarrow> ep_kind \<Rightarrow> u8 \<Rightarrow> 'w \<Rightarrow> (nusb_error + unit) \<times> 'w"
  nb_clear_halt :: "u8 \<Rightarrow> 'w \<Rightarrow> (nusb_error + unit) \<times> 'w"
  nb_max_packet_size :: "u8 \<Rightarrow> 'w \<Rightarrow> nat"
  nb_transfer_in :: "u8 \<Rightarrow> nat \<Rightarrow> 'w \<Rightarrow> completion \<times> 'w"
  nb_transfer_out :: "u8 \<Rightarrow> bytes \<Rightarrow> 'w \<Rightarrow> completion \<times> 'w"
  nb_cancel_all :: "u8 \<Rightarrow> 'w \<Rightarrow> 'w"
  nb_control_in :: "control_request \<Rightarrow> u16 \<Rightarrow> 'w \<Rightarrow> (transfer_error + bytes) \<times> 'w"
  nb_control_out :: "control_request \<Rightarrow> bytes \<Rightarrow> 'w \<Rightarrow> (transfer_error + unit) \<times> 'w"
  nb_order :: "u8 list \<Rightarrow> 'w \<Rightarrow> u8 list \<times> 'w"

section \<open>Opened devices\<close>

record endpoint_entry =
  ee_iface_num :: u8
  ee_kind :: ep_kind

record opened_device =
  od_busid :: rstr
  od_devid :: u32
  od_device :: bool
  od_interfaces :: "u8 set"
  od_alt_settings :: "u8 \<rightharpoonup> u8"
  od_endpoints :: "u8 \<rightharpoonup> endpoint_entry"
  od_captured_registry_id :: "u64 option"
  od_captured_vid_pid :: "(u16 \<times> u16) option"

text \<open>A method of the device: it updates the caches and the state of the USB stack.\<close>

type_synonym ('w, 'a) device_op = "opened_device \<times> 'w \<Rightarrow> (host_error + 'a) \<times> opened_device \<times> 'w"

definition dir_in_of :: "u8 \<Rightarrow> bool" where
  "dir_in_of ep_addr \<longleftrightarrow> ep_addr AND 0x80 \<noteq> 0"

subsection \<open>Interfaces and endpoints\<close>

definition ensure_interface :: "'w nusb \<Rightarrow> u8 \<Rightarrow> ('w, unit) device_op" where
  "ensure_interface nb num = (\<lambda>(d, w).
     if num \<in> od_interfaces d then (Inr (), d, w)
     else
       (case nb_claim_interface nb num w of
          (Inl e, w1) \<Rightarrow> (Inl (Nusb e), d, w1)
        | (Inr _, w1) \<Rightarrow>
            (case nb_set_alt_setting nb num 0 w1 of
               (_, w2) \<Rightarrow> (Inr (), d\<lparr>od_interfaces := insert num (od_interfaces d)\<rparr>, w2))))"

definition active_alt :: "opened_device \<Rightarrow> configuration \<Rightarrow> u8 \<Rightarrow> alt_setting option" where
  "active_alt d cfg iface_num =
     (let alts = filter (\<lambda>a. as_interface_number a = iface_num) (cfg_alt_settings cfg);
          active = (case od_alt_settings d iface_num of Some a \<Rightarrow> a | None \<Rightarrow> 0)
      in case find (\<lambda>a. as_alternate_setting a = active) alts of
           Some a \<Rightarrow> Some a
         | None \<Rightarrow> (case alts of [] \<Rightarrow> None | a # _ \<Rightarrow> Some a))"

fun find_endpoint ::
  "opened_device \<Rightarrow> configuration \<Rightarrow> u8 \<Rightarrow> u8 list \<Rightarrow> host_error + u8 \<times> ep_kind" where
  "find_endpoint d cfg ep_addr [] = Inl (EndpointNotFound ep_addr)"
| "find_endpoint d cfg ep_addr (n # ns) =
     (case active_alt d cfg n of
        None \<Rightarrow> find_endpoint d cfg ep_addr ns
      | Some iface \<Rightarrow>
          (case find (\<lambda>ep. fst ep = ep_addr) (as_endpoints iface) of
             None \<Rightarrow> find_endpoint d cfg ep_addr ns
           | Some (_, TBulk) \<Rightarrow> Inr (n, Bulk)
           | Some (_, TInterrupt) \<Rightarrow> Inr (n, Interrupt)
           | Some _ \<Rightarrow> Inl (UnsupportedTransfer ep_addr)))"

definition endpoint_kind ::
  "'w nusb \<Rightarrow> opened_device \<Rightarrow> 'w \<Rightarrow> u8 \<Rightarrow> (host_error + u8 \<times> ep_kind) \<times> 'w" where
  "endpoint_kind nb d w ep_addr =
     (case nb_active_configuration nb w of
        None \<Rightarrow> (Inl (EndpointNotFound ep_addr), w)
      | Some cfg \<Rightarrow>
          (case nb_order nb (remdups (map as_interface_number (cfg_alt_settings cfg))) w of
             (by_iface, w1) \<Rightarrow> (find_endpoint d cfg ep_addr by_iface, w1)))"

definition ensure_endpoint ::
  "'w nusb \<Rightarrow> u8 \<Rightarrow> u8 \<times> ep_kind \<Rightarrow> ('w, endpoint_entry) device_op" where
  "ensure_endpoint nb ep_addr k = (\<lambda>(d, w).
     case od_endpoints d ep_addr of
       Some entry \<Rightarrow> (Inr entry, d, w)
     | None \<Rightarrow>
         (case ensure_interface nb (fst k) (d, w) of
            (Inl e, d1, w1) \<Rightarrow> (Inl e, d1, w1)
          | (Inr _, d1, w1) \<Rightarrow>
              (case nb_endpoint nb (fst k) (snd k) ep_addr w1 of
                 (Inl e, w2) \<Rightarrow> (Inl (Nusb e), d1, w2)
               | (Inr _, w2) \<Rightarrow>
                   (case nb_clear_halt nb ep_addr w2 of
                      (_, w3) \<Rightarrow>
                        let entry = \<lparr>ee_iface_num = fst k, ee_kind = snd k\<rparr>
                        in (Inr entry,
                            d1\<lparr>od_endpoints := (od_endpoints d1)(ep_addr \<mapsto> entry)\<rparr>, w3)))))"

definition invalidate_interface_endpoints :: "u8 \<Rightarrow> opened_device \<Rightarrow> opened_device" where
  "invalidate_interface_endpoints iface_num d =
     d\<lparr>od_endpoints := (\<lambda>ep. case od_endpoints d ep of
          Some e \<Rightarrow> if ee_iface_num e \<noteq> iface_num then Some e else None
        | None \<Rightarrow> None)\<rparr>"

subsection \<open>Transfers\<close>

definition control_transfer :: "'w nusb \<Rightarrow> setup_packet \<Rightarrow> bytes \<Rightarrow> ('w, bytes) device_op" where
  "control_transfer nb setup out_data = (\<lambda>(d, w).
     if is_set_configuration setup then
       let cfg = ucast (w_value setup AND 0xFF);
           d1 = d\<lparr>od_endpoints := Map.empty, od_interfaces := {}, od_alt_settings := Map.empty\<rparr>
       in (case nb_set_configuration nb cfg w of
             (Inl e, w1) \<Rightarrow> (Inl (Nusb e), d1, w1)
           | (Inr _, w1) \<Rightarrow> (Inr [], d1, w1))
     else if is_set_interface setup then
       let alt = ucast (w_value setup AND 0xFF);
           iface_num = ucast (w_index setup AND 0xFF);
           d1 = invalidate_interface_endpoints iface_num d
       in (case ensure_interface nb iface_num (d1, w) of
             (Inl e, d2, w1) \<Rightarrow> (Inl e, d2, w1)
           | (Inr _, d2, w1) \<Rightarrow>
               (case nb_set_alt_setting nb iface_num alt w1 of
                  (Inl e, w2) \<Rightarrow> (Inl (Nusb e), d2, w2)
                | (Inr _, w2) \<Rightarrow>
                    (Inr [], d2\<lparr>od_alt_settings := (od_alt_settings d2)(iface_num \<mapsto> alt)\<rparr>, w2)))
     else
       let req = \<lparr>cr_type = setup_control_type setup, cr_recipient = setup_recipient setup,
                  cr_request = b_request setup, cr_value = w_value setup, cr_index = w_index setup\<rparr>
       in if setup_is_in setup then
            (case nb_control_in nb req (w_length setup) w of
               (Inl e, w1) \<Rightarrow> (Inl (Transfer e), d, w1)
             | (Inr data, w1) \<Rightarrow> (Inr data, d, w1))
          else
            (case nb_control_out nb req out_data w of
               (Inl e, w1) \<Rightarrow> (Inl (Transfer e), d, w1)
             | (Inr _, w1) \<Rightarrow> (Inr [], d, w1)))"

definition div_ceil :: "nat \<Rightarrow> nat \<Rightarrow> nat" where
  "div_ceil a b = a div b + (if a mod b > 0 then 1 else 0)"

definition padded_len :: "bool \<Rightarrow> nat \<Rightarrow> nat \<Rightarrow> nat" where
  "padded_len dir_in mps len = (if dir_in \<and> mps > 0 then max (div_ceil len mps) 1 * mps else len)"

record transfer_result =
  tr_actual_length :: nat
  tr_data :: bytes

definition data_transfer ::
  "'w nusb \<Rightarrow> u8 \<Rightarrow> nat \<Rightarrow> bytes \<Rightarrow> ('w, transfer_result) device_op" where
  "data_transfer nb ep_addr len out_data = (\<lambda>(d, w).
     case endpoint_kind nb d w ep_addr of
       (Inl e, w0) \<Rightarrow> (Inl e, d, w0)
     | (Inr kind, w0) \<Rightarrow>
         (case ensure_endpoint nb ep_addr kind (d, w0) of
            (Inl e, d1, w1) \<Rightarrow> (Inl e, d1, w1)
          | (Inr entry, d1, w1) \<Rightarrow>
              let dir_in = dir_in_of ep_addr;
                  mps = nb_max_packet_size nb ep_addr w1;
                  (compl, w2) =
                    (if dir_in then nb_transfer_in nb ep_addr (padded_len dir_in mps len) w1
                     else nb_transfer_out nb ep_addr out_data w1)
              in (case into_result compl of
                    Inl e \<Rightarrow> (Inl (Transfer e), d1, w2)
                  | Inr data \<Rightarrow>
                      (Inr (if dir_in then
                              let usable = min (actual_len compl) len
                              in \<lparr>tr_actual_length = usable, tr_data = take usable data\<rparr>
                            else \<lparr>tr_actual_length = actual_len compl, tr_data = []\<rparr>),
                       d1, w2))))"

definition cancel_endpoint :: "'w nusb \<Rightarrow> u8 \<Rightarrow> opened_device \<times> 'w \<Rightarrow> opened_device \<times> 'w" where
  "cancel_endpoint nb ep_addr = (\<lambda>(d, w).
     case od_endpoints d ep_addr of
       Some _ \<Rightarrow> (d, nb_cancel_all nb ep_addr w)
     | None \<Rightarrow> (d, w))"

subsection \<open>Descriptors\<close>

definition descriptor_snapshot :: "'w nusb \<Rightarrow> opened_device \<Rightarrow> 'w \<Rightarrow> usb_device" where
  "descriptor_snapshot nb d w =
     (let active_cfg = (case nb_active_configuration nb w of None \<Rightarrow> 0 | Some c \<Rightarrow> cfg_value c);
          n = nb_configurations nb w;
          num_cfg = (if n \<le> 255 then of_nat n else 1 :: u8);
          interfaces = (case nb_active_configuration nb w of
             None \<Rightarrow> []
           | Some cfg \<Rightarrow>
               map (\<lambda>a. \<lparr>ui_class = as_class a, ui_subclass = as_subclass a, ui_protocol = as_protocol a\<rparr>)
                 (filter (\<lambda>a. as_alternate_setting a = 0) (cfg_alt_settings cfg)))
      in \<lparr>ud_busid = od_busid d, ud_busnum = drop_bit 16 (od_devid d),
          ud_devnum = od_devid d AND 0xFFFF, ud_speed = 0, ud_vendor_id = 0, ud_product_id = 0,
          ud_bcd_device = 0, ud_class = 0, ud_subclass = 0, ud_protocol = 0,
          ud_configuration_value = active_cfg, ud_num_configurations = max num_cfg 1,
          ud_manufacturer = None, ud_product = None, ud_serial = None,
          ud_interfaces = interfaces\<rparr>)"

section \<open>Opening, capture and release\<close>

text \<open>
  What the operating system answers while a device is opened: whether the process is root, IOKit,
  the listing that is searched for the busid, the listings and the elapsed milliseconds of the
  successive polls after a re-enumeration, and the result of opening the nusb handle.
\<close>

record host_env =
  he_root :: bool
  he_iokit :: iokit
  he_listing :: listing
  he_polls :: "nat \<Rightarrow> listing"
  he_clock :: "nat \<Rightarrow> nat"
  he_open :: "device_info \<Rightarrow> nusb_error + unit"

definition same_device :: "device_info \<Rightarrow> device_info \<Rightarrow> bool" where
  "same_device info i \<longleftrightarrow>
     di_location_id i = di_location_id info \<and> di_vendor_id i = di_vendor_id info \<and>
     di_product_id i = di_product_id info"

text \<open>The poll loop of \<^verbatim>\<open>maybe_capture\<close> from its \<open>k\<close>-th try on; \<^const>\<open>None\<close> if it never returns.\<close>

partial_function (option) capture_poll ::
  "host_env \<Rightarrow> device_info \<Rightarrow> nat \<Rightarrow> (host_error + device_info \<times> u64 option) option" where
  "capture_poll env info k =
     (case he_polls env k of
        Inl e \<Rightarrow> Some (Inl (Nusb e))
      | Inr infos \<Rightarrow>
          (case find (same_device info) infos of
             Some new_info \<Rightarrow> Some (Inr (new_info, Some (di_registry_entry_id new_info)))
           | None \<Rightarrow>
               if 5000 \<le> he_clock env k then Some (Inl ReenumerateTimeout)
               else capture_poll env info (Suc k)))"

definition maybe_capture ::
  "host_env \<Rightarrow> device_info \<Rightarrow> io_call list \<times> (host_error + device_info \<times> u64 option) option" where
  "maybe_capture env info =
     (if \<not> he_root env then ([], Some (Inr (info, None)))
      else
        (case reenumerate_with_capture (he_iokit env) (di_registry_entry_id info) of
           (calls, None) \<Rightarrow> (calls, None)
         | (calls, Some (Inl _)) \<Rightarrow> (calls, Some (Inr (info, None)))
         | (calls, Some (Inr _)) \<Rightarrow> (calls, capture_poll env info 0)))"

definition open_device :: "host_env \<Rightarrow> rstr \<Rightarrow> io_call list \<times> (host_error + opened_device) option" where
  "open_device env busid =
     (case he_listing env of
        Inl e \<Rightarrow> ([], Some (Inl (Nusb e)))
      | Inr infos \<Rightarrow>
          (case find (\<lambda>i. format_busid i = busid) infos of
             None \<Rightarrow> ([], Some (Inl (NotFound busid)))
           | Some info \<Rightarrow>
               (case maybe_capture env info of
                  (calls, None) \<Rightarrow> (calls, None)
                | (calls, Some (Inl e)) \<Rightarrow> (calls, Some (Inl e))
                | (calls, Some (Inr (info, captured))) \<Rightarrow>
                    let (busnum, devnum) = derive_bus_dev info
                    in (calls, Some (case he_open env info of
                          Inl e \<Rightarrow> Inl (Nusb e)
                        | Inr _ \<Rightarrow> Inr
                            \<lparr>od_busid = busid, od_devid = devid_of busnum devnum, od_device = True,
                             od_interfaces = {}, od_alt_settings = Map.empty,
                             od_endpoints = Map.empty, od_captured_registry_id = captured,
                             od_captured_vid_pid =
                               map_option (\<lambda>_. (di_vendor_id info, di_product_id info)) captured\<rparr>)))))"

text \<open>The steps of \<^verbatim>\<open>Drop\<close>, in order.\<close>

datatype drop_action = ClearInterfaces | ClearEndpoints | CloseDevice | IoKit io_call

definition drop_target :: "opened_device \<Rightarrow> listing \<Rightarrow> u64 option" where
  "drop_target d listed =
     (case listed of
        Inl _ \<Rightarrow> None
      | Inr infos \<Rightarrow>
          (case (find (\<lambda>i. format_busid i = od_busid d) infos, od_captured_vid_pid d) of
             (Some info, Some (vid, pid)) \<Rightarrow>
               if di_vendor_id info = vid \<and> di_product_id info = pid
               then Some (di_registry_entry_id info) else None
           | (Some info, None) \<Rightarrow> Some (di_registry_entry_id info)
           | (None, _) \<Rightarrow> None))"

definition drop_device :: "iokit \<Rightarrow> listing \<Rightarrow> opened_device \<Rightarrow> drop_action list" where
  "drop_device k listed d =
     (case od_captured_registry_id d of
        None \<Rightarrow> []
      | Some reg_id \<Rightarrow>
          [ClearInterfaces, ClearEndpoints, CloseDevice] @
          (case drop_target d listed of
             None \<Rightarrow> []
           | Some target \<Rightarrow> map IoKit (fst (reenumerate_release k target))))"

definition release_capture ::
  "bool \<Rightarrow> iokit \<Rightarrow> listing \<Rightarrow> rstr \<Rightarrow> io_call list \<times> (host_error + unit) option" where
  "release_capture root k listed busid =
     (if \<not> root then ([], Some (Inr ()))
      else
        (case listed of
           Inl e \<Rightarrow> ([], Some (Inl (Nusb e)))
         | Inr infos \<Rightarrow>
             (case find (\<lambda>i. format_busid i = busid) infos of
                None \<Rightarrow> ([], Some (Inr ()))
              | Some info \<Rightarrow>
                  (case reenumerate_release k (di_registry_entry_id info) of
                     (calls, None) \<Rightarrow> (calls, None)
                   | (calls, Some (Inl e)) \<Rightarrow> (calls, Some (Inl (Capture e)))
                   | (calls, Some (Inr _)) \<Rightarrow> (calls, Some (Inr ()))))))"

end
