(* ===== verification/Device_Cache.thy ===== *)
theory Device_Cache
  imports Host_Device
begin

text \<open>
  The interface and endpoint caches of an opened device: every operation keeps them consistent and
  keeps the identity of the device, \<^verbatim>\<open>SET_CONFIGURATION\<close> and \<^verbatim>\<open>SET_INTERFACE\<close> invalidate exactly what
  they have to, endpoint resolution does not depend on the iteration order of a hash map, and the
  padding of an IN request never shows in its result.
\<close>

section \<open>The caches\<close>

text \<open>
  The invariant of the caches: a cached endpoint belongs to a claimed interface, and an alternate
  setting is recorded for claimed interfaces only. The identity of a device is what no transfer
  may change.
\<close>

definition cache_wf :: "opened_device \<Rightarrow> bool" where
  "cache_wf d \<longleftrightarrow>
     (\<forall>ep e. od_endpoints d ep = Some e \<longrightarrow> ee_iface_num e \<in> od_interfaces d) \<and>
     (\<forall>n a. od_alt_settings d n = Some a \<longrightarrow> n \<in> od_interfaces d)"

definition identity :: "opened_device \<Rightarrow> rstr \<times> u32 \<times> bool \<times> u64 option \<times> (u16 \<times> u16) option" where
  "identity d =
     (od_busid d, od_devid d, od_device d, od_captured_registry_id d, od_captured_vid_pid d)"

definition fresh_caches :: "opened_device \<Rightarrow> bool" where
  "fresh_caches d \<longleftrightarrow>
     od_interfaces d = {} \<and> od_endpoints d = Map.empty \<and> od_alt_settings d = Map.empty"

definition keeps :: "opened_device \<Rightarrow> opened_device \<Rightarrow> bool" where
  "keeps d d' \<longleftrightarrow> (cache_wf d \<longrightarrow> cache_wf d') \<and> identity d' = identity d"

named_theorems keeps_intros \<open>every operation of a device keeps the cache invariant and the identity\<close>

lemma keeps_refl [keeps_intros]: "keeps d d"
  by (simp add: keeps_def)

lemma keeps_trans: "keeps a b \<Longrightarrow> keeps b c \<Longrightarrow> keeps a c"
  by (simp add: keeps_def)

lemma ensure_interface_keeps [keeps_intros]:
  "ensure_interface nb n (d, w) = (r, d', w') \<Longrightarrow> keeps d d'"
  by (auto simp: ensure_interface_def keeps_def cache_wf_def identity_def
      split: if_splits prod.splits sum.splits option.splits unit.splits)

lemma ensure_interface_claimed:
  "ensure_interface nb n (d, w) = (Inr (), d', w') \<Longrightarrow> n \<in> od_interfaces d'"
  by (auto simp: ensure_interface_def split: if_splits prod.splits sum.splits)

lemma ensure_interface_frame:
  "ensure_interface nb n (d, w) = (r, d', w') \<Longrightarrow>
   od_endpoints d' = od_endpoints d \<and> od_alt_settings d' = od_alt_settings d"
  by (auto simp: ensure_interface_def split: if_splits prod.splits sum.splits)

lemma cache_endpoint_keeps:
  "n \<in> od_interfaces d \<Longrightarrow>
   keeps d (d\<lparr>od_endpoints := (od_endpoints d)(ep \<mapsto> \<lparr>ee_iface_num = n, ee_kind = k\<rparr>)\<rparr>)"
  by (simp add: keeps_def cache_wf_def identity_def)

lemma ensure_endpoint_keeps [keeps_intros]:
  assumes "ensure_endpoint nb ep k (d, w) = (r, d', w')"
  shows "keeps d d'"
proof (cases "od_endpoints d ep")
  case (Some e)
  with assms show ?thesis by (simp add: ensure_endpoint_def keeps_refl)
next
  case None
  obtain r1 d1 w1 where i: "ensure_interface nb (fst k) (d, w) = (r1, d1, w1)"
    by (cases "ensure_interface nb (fst k) (d, w)") auto
  from i have k1: "keeps d d1" by (rule ensure_interface_keeps)
  show ?thesis
  proof (cases r1)
    case (Inl e)
    with None i assms k1 show ?thesis by (simp add: ensure_endpoint_def)
  next
    case (Inr u)
    with i have "fst k \<in> od_interfaces d1" using ensure_interface_claimed by simp
    with None i assms Inr k1 show ?thesis
      by (auto simp: ensure_endpoint_def Let_def split: prod.splits sum.splits
          intro: keeps_trans cache_endpoint_keeps)
  qed
qed

lemma invalidate_keeps [keeps_intros]: "keeps d (invalidate_interface_endpoints n d)"
  by (auto simp: keeps_def cache_wf_def identity_def invalidate_interface_endpoints_def
      split: option.splits)

lemma invalidate_endpoints:
  "od_endpoints (invalidate_interface_endpoints n d) ep = Some e \<longleftrightarrow>
     od_endpoints d ep = Some e \<and> ee_iface_num e \<noteq> n"
  by (auto simp: invalidate_interface_endpoints_def split: option.splits)

lemma clear_keeps:
  "keeps d (d\<lparr>od_endpoints := Map.empty, od_interfaces := {}, od_alt_settings := Map.empty\<rparr>)"
  by (simp add: keeps_def cache_wf_def identity_def)

lemma record_alt_keeps:
  "n \<in> od_interfaces d \<Longrightarrow> keeps d (d\<lparr>od_alt_settings := (od_alt_settings d)(n \<mapsto> a)\<rparr>)"
  by (simp add: keeps_def cache_wf_def identity_def)

text \<open>The three branches of a control transfer.\<close>

lemma control_transfer_set_configuration:
  "is_set_configuration setup \<Longrightarrow> control_transfer nb setup data (d, w) = (r, d', w') \<Longrightarrow>
   d' = d\<lparr>od_endpoints := Map.empty, od_interfaces := {}, od_alt_settings := Map.empty\<rparr>"
  by (auto simp: control_transfer_def Let_def split: prod.splits sum.splits)

lemma control_transfer_set_interface:
  assumes "is_set_interface setup" "control_transfer nb setup data (d, w) = (r, d', w')"
    and n: "n = ucast (w_index setup AND 0xFF)" and a: "a = ucast (w_value setup AND 0xFF)"
  obtains r1 d2 w1 where
    "ensure_interface nb n (invalidate_interface_endpoints n d, w) = (r1, d2, w1)"
    "d' = d2 \<and> (\<exists>e. r = Inl e) \<or>
     d' = d2\<lparr>od_alt_settings := (od_alt_settings d2)(n \<mapsto> a)\<rparr> \<and> r1 = Inr () \<and> r = Inr []"
proof -
  have nc: "\<not> is_set_configuration setup"
    using assms(1) by (auto simp: is_set_configuration_def is_set_interface_def)
  obtain r1 d2 w1 where i: "ensure_interface nb n (invalidate_interface_endpoints n d, w) = (r1, d2, w1)"
    by (cases "ensure_interface nb n (invalidate_interface_endpoints n d, w)") auto
  moreover have "d' = d2 \<and> (\<exists>e. r = Inl e) \<or>
      d' = d2\<lparr>od_alt_settings := (od_alt_settings d2)(n \<mapsto> a)\<rparr> \<and> r1 = Inr () \<and> r = Inr []"
    using assms(1,2) nc i unfolding n a
    by (auto simp: control_transfer_def Let_def split: prod.splits sum.splits)
  ultimately show thesis by (rule that)
qed

lemma control_transfer_passthrough:
  "\<not> is_set_configuration setup \<Longrightarrow> \<not> is_set_interface setup \<Longrightarrow>
   control_transfer nb setup data (d, w) = (r, d', w') \<Longrightarrow> d' = d"
  by (auto simp: control_transfer_def Let_def split: prod.splits sum.splits if_splits)

lemma control_transfer_keeps [keeps_intros]:
  assumes "control_transfer nb setup data (d, w) = (r, d', w')"
  shows "keeps d d'"
proof -
  consider "is_set_configuration setup" | "is_set_interface setup"
    | "\<not> is_set_configuration setup" "\<not> is_set_interface setup" by blast
  then show ?thesis
  proof cases
    case 1
    with assms show ?thesis using control_transfer_set_configuration clear_keeps by metis
  next
    case 2
    define n where "n = (ucast (w_index setup AND 0xFF) :: u8)"
    define a where "a = (ucast (w_value setup AND 0xFF) :: u8)"
    obtain r1 d2 w1 where
      i: "ensure_interface nb n (invalidate_interface_endpoints n d, w) = (r1, d2, w1)" and
      d': "d' = d2 \<and> (\<exists>e. r = Inl e) \<or>
        d' = d2\<lparr>od_alt_settings := (od_alt_settings d2)(n \<mapsto> a)\<rparr> \<and> r1 = Inr () \<and> r = Inr []"
      using control_transfer_set_interface [OF 2 assms n_def a_def] by blast
    have "keeps d d2" by (rule keeps_trans [OF invalidate_keeps ensure_interface_keeps [OF i]])
    moreover have "n \<in> od_interfaces d2" if "r1 = Inr ()"
      using i unfolding that by (rule ensure_interface_claimed)
    ultimately show ?thesis using d' record_alt_keeps keeps_trans by blast
  next
    case 3
    with assms show ?thesis using control_transfer_passthrough keeps_refl by metis
  qed
qed

lemma resolved_cases [case_names Failed Found]:
  obtains e w where "x = (Inl e, w)" | k w where "x = (Inr k, w)"
  by (metis obj_sumE surj_pair)

lemma data_transfer_keeps [keeps_intros]:
  assumes "data_transfer nb ep len data (d, w) = (r, d', w')"
  shows "keeps d d'"
proof (cases "endpoint_kind nb d w ep" rule: resolved_cases)
  case (Failed e w0)
  with assms show ?thesis by (simp add: data_transfer_def keeps_refl)
next
  case (Found k w0)
  obtain r1 d1 w1 where e: "ensure_endpoint nb ep k (d, w0) = (r1, d1, w1)"
    by (cases "ensure_endpoint nb ep k (d, w0)") auto
  from Found e assms have "d' = d1"
    by (auto simp: data_transfer_def Let_def split: sum.splits prod.splits)
  with e show ?thesis by (simp add: ensure_endpoint_keeps)
qed

subsection \<open>Sequences of operations on an opened device\<close>

inductive device_step :: "'w nusb \<Rightarrow> opened_device \<times> 'w \<Rightarrow> opened_device \<times> 'w \<Rightarrow> bool" for nb where
  Control: "control_transfer nb setup data s = (r, t) \<Longrightarrow> device_step nb s t"
| Data: "data_transfer nb ep len data s = (r, t) \<Longrightarrow> device_step nb s t"
| Cancel: "cancel_endpoint nb ep s = t \<Longrightarrow> device_step nb s t"

inductive_cases device_stepE: "device_step nb s t"

lemma device_step_keeps: "device_step nb (d, w) (d', w') \<Longrightarrow> keeps d d'"
  by (erule device_stepE)
    (auto intro: keeps_intros simp: cancel_endpoint_def split: option.splits)

interpretation dev: safe_system
  "\<lambda>(d, w). fresh_caches d \<and> identity d = i" "device_step nb"
  "\<lambda>(d, w). cache_wf d \<and> identity d = i" for i nb
proof unfold_locales
  fix s t :: "opened_device \<times> 'a"
  assume "case s of (d, w) \<Rightarrow> cache_wf d \<and> identity d = i" "device_step nb s t"
  then show "case t of (d, w) \<Rightarrow> cache_wf d \<and> identity d = i"
    using device_step_keeps [of nb "fst s" "snd s" "fst t" "snd t"]
    by (auto simp: keeps_def split: prod.splits)
qed (auto simp: fresh_caches_def cache_wf_def)

section \<open>Endpoint resolution\<close>

text \<open>Interface \<open>n\<close> has the endpoint in its active alternate setting.\<close>

definition serves :: "opened_device \<Rightarrow> configuration \<Rightarrow> u8 \<Rightarrow> u8 \<Rightarrow> bool" where
  "serves d cfg ep n \<longleftrightarrow>
     (case active_alt d cfg n of
        None \<Rightarrow> False
      | Some iface \<Rightarrow> ep \<in> fst ` set (as_endpoints iface))"

lemma find_fst_None: "find (\<lambda>e. fst e = ep) es = None \<longleftrightarrow> ep \<notin> fst ` set es"
  by (force simp: find_None_iff)

lemma find_endpoint_Cons:
  "find_endpoint d cfg ep (n # ns) =
     (if serves d cfg ep n then find_endpoint d cfg ep [n] else find_endpoint d cfg ep ns)"
proof (cases "active_alt d cfg n")
  case (Some iface)
  then have "serves d cfg ep n \<longleftrightarrow> find (\<lambda>e. fst e = ep) (as_endpoints iface) \<noteq> None"
    by (simp add: serves_def find_fst_None)
  with Some show ?thesis
    by (cases "find (\<lambda>e. fst e = ep) (as_endpoints iface)") auto
qed (simp add: serves_def)

lemma find_endpoint_none:
  "\<forall>n \<in> set ns. \<not> serves d cfg ep n \<Longrightarrow> find_endpoint d cfg ep ns = Inl (EndpointNotFound ep)"
  by (induction ns) (simp_all add: find_endpoint_Cons del: find_endpoint.simps(2))

lemma find_endpoint_owner:
  "n \<in> set ns \<Longrightarrow> serves d cfg ep n \<Longrightarrow> \<forall>m \<in> set ns. serves d cfg ep m \<longrightarrow> m = n \<Longrightarrow>
   find_endpoint d cfg ep ns = find_endpoint d cfg ep [n]"
proof (induction ns)
  case (Cons m ns)
  show ?case
  proof (cases "serves d cfg ep m")
    case True
    with Cons.prems have "m = n" by simp
    with True find_endpoint_Cons [of d cfg ep m ns] show ?thesis by (simp only: if_True)
  next
    case False
    then have "find_endpoint d cfg ep (m # ns) = find_endpoint d cfg ep ns"
      using find_endpoint_Cons [of d cfg ep m ns] by (simp only: if_False)
    also have "\<dots> = find_endpoint d cfg ep [n]"
      using False Cons.prems by (intro Cons.IH) auto
    finally show ?thesis .
  qed
qed simp

lemma find_endpoint_order:
  assumes "set ns = set ms"
    and "\<forall>m \<in> set ns. \<forall>n \<in> set ns. serves d cfg ep m \<longrightarrow> serves d cfg ep n \<longrightarrow> m = n"
  shows "find_endpoint d cfg ep ns = find_endpoint d cfg ep ms"
proof (cases "\<exists>n \<in> set ns. serves d cfg ep n")
  case True
  then obtain n where n: "n \<in> set ns" "serves d cfg ep n" by blast
  with assms have "find_endpoint d cfg ep ns = find_endpoint d cfg ep [n]"
    by (intro find_endpoint_owner) auto
  moreover from n assms have "find_endpoint d cfg ep ms = find_endpoint d cfg ep [n]"
    by (intro find_endpoint_owner) auto
  ultimately show ?thesis by simp
next
  case False
  with assms(1) show ?thesis by (simp add: find_endpoint_none)
qed

lemma active_alt_cong:
  "od_alt_settings d' n = od_alt_settings d n \<Longrightarrow> active_alt d' cfg n = active_alt d cfg n"
  by (simp add: active_alt_def)

lemma active_alt_selected:
  assumes "od_alt_settings d n = Some a"
    and "x \<in> set (cfg_alt_settings cfg)" "as_interface_number x = n" "as_alternate_setting x = a"
  obtains y where "active_alt d cfg n = Some y" "as_interface_number y = n" "as_alternate_setting y = a"
proof -
  let ?alts = "filter (\<lambda>x. as_interface_number x = n) (cfg_alt_settings cfg)"
  have "x \<in> set ?alts" using assms(2,3) by simp
  with assms(4) have "find (\<lambda>x. as_alternate_setting x = a) ?alts \<noteq> None"
    unfolding find_None_iff by blast
  then obtain y where y: "find (\<lambda>x. as_alternate_setting x = a) ?alts = Some y" by auto
  then have "y \<in> set ?alts \<and> as_alternate_setting y = a"
    by (rule find_SomeD)
  with y assms(1) show thesis by (intro that) (auto simp: active_alt_def)
qed

section \<open>Padding\<close>

lemma div_ceil_bounds:
  assumes "0 < m"
  shows "n \<le> div_ceil n m * m" "div_ceil n m * m < n + m"
proof -
  define q r where "q = n div m" and "r = n mod m"
  then have "n = q * m + r" "r < m" using assms by auto
  moreover have "div_ceil n m * m = q * m + (if 0 < r then m else 0)"
    by (simp add: div_ceil_def q_def r_def)
  ultimately show "n \<le> div_ceil n m * m" "div_ceil n m * m < n + m" by auto
qed

lemma padded_len_bounds:
  assumes "0 < mps"
  shows "padded_len True mps len mod mps = 0" "0 < padded_len True mps len"
    "len \<le> padded_len True mps len" "padded_len True mps len \<le> len + mps"
proof -
  have pad: "padded_len True mps len = (if div_ceil len mps = 0 then mps else div_ceil len mps * mps)"
    using assms by (auto simp: padded_len_def max_def)
  then show "padded_len True mps len mod mps = 0" "0 < padded_len True mps len"
    using assms by auto
  from pad div_ceil_bounds [OF assms, of len]
  show "len \<le> padded_len True mps len" "padded_len True mps len \<le> len + mps" by auto
qed

section \<open>A sample stack\<close>

text \<open>
  A stack with one mouse-like device, on which the properties are instantiated: interface 0 with
  an interrupt IN endpoint in both of its alternate settings, interface 1 with a bulk pair.
\<close>

definition sample_configuration :: configuration where
  "sample_configuration =
     \<lparr>cfg_value = 1, cfg_alt_settings =
        [\<lparr>as_interface_number = 0, as_alternate_setting = 0, as_class = 3, as_subclass = 1,
           as_protocol = 2, as_endpoints = [(0x81, TInterrupt)]\<rparr>,
         \<lparr>as_interface_number = 0, as_alternate_setting = 1, as_class = 3, as_subclass = 1,
           as_protocol = 2, as_endpoints = [(0x81, TBulk)]\<rparr>,
         \<lparr>as_interface_number = 1, as_alternate_setting = 0, as_class = 8, as_subclass = 6,
           as_protocol = 0x50, as_endpoints = [(0x82, TBulk), (0x02, TBulk)]\<rparr>]\<rparr>"

definition sample_nusb :: "unit nusb" where
  "sample_nusb =
     \<lparr>nb_active_configuration = (\<lambda>_. Some sample_configuration), nb_configurations = (\<lambda>_. 1),
      nb_set_configuration = (\<lambda>_ w. (Inr (), w)), nb_claim_interface = (\<lambda>_ w. (Inr (), w)),
      nb_set_alt_setting = (\<lambda>_ _ w. (Inr (), w)), nb_endpoint = (\<lambda>_ _ _ w. (Inr (), w)),
      nb_clear_halt = (\<lambda>_ w. (Inr (), w)), nb_max_packet_size = (\<lambda>_ _. 8),
      nb_transfer_in = (\<lambda>_ n w. (\<lparr>actual_len = n, into_result = Inr (replicate n 7)\<rparr>, w)),
      nb_transfer_out = (\<lambda>_ b w. (\<lparr>actual_len = length b, into_result = Inr []\<rparr>, w)),
      nb_cancel_all = (\<lambda>_ w. w), nb_control_in = (\<lambda>_ n w. (Inr (replicate (unat n) 0), w)),
      nb_control_out = (\<lambda>_ _ w. (Inr (), w)), nb_order = (\<lambda>ns w. (ns, w))\<rparr>"

definition sample_env :: host_env where
  "sample_env =
     \<lparr>he_root = True, he_iokit = witness_iokit, he_listing = Inr [keyboard_info],
      he_polls = (\<lambda>k. if k < 3 then Inr [] else Inr [keyboard_info\<lparr>di_registry_entry_id := 101\<rparr>]),
      he_clock = (\<lambda>k. 50 * (k + 1)), he_open = (\<lambda>_. Inr ())\<rparr>"

definition sample_device :: opened_device where
  "sample_device =
     \<lparr>od_busid = lit ''01-1'', od_devid = devid_of (fst (derive_bus_dev keyboard_info)) (snd (derive_bus_dev keyboard_info)),
      od_device = True, od_interfaces = {}, od_alt_settings = Map.empty, od_endpoints = Map.empty,
      od_captured_registry_id = Some 101, od_captured_vid_pid = Some (0x1050, 0x0407)\<rparr>"

lemma keyboard_busid [simp]: "format_busid keyboard_info = lit ''01-1''"
  by (simp add: format_busid_def keyboard_info_def show_dec.simps)

lemma keyboard_same [simp]: "same_device keyboard_info (keyboard_info\<lparr>di_registry_entry_id := r\<rparr>)"
  by (simp add: same_device_def)

lemma keyboard_ids [simp]: "di_vendor_id keyboard_info = 0x1050" "di_product_id keyboard_info = 0x0407"
  by (simp_all add: keyboard_info_def)

lemma sample_env_sel [simp]:
  "he_root sample_env" "he_iokit sample_env = witness_iokit" "he_open sample_env i = Inr ()"
  "he_listing sample_env = Inr [keyboard_info]" "he_clock sample_env k = 50 * (k + 1)"
  "he_polls sample_env k =
     (if k < 3 then Inr [] else Inr [keyboard_info\<lparr>di_registry_entry_id := 101\<rparr>])"
  by (simp_all add: sample_env_def)

lemma sample_capture_poll:
  "capture_poll sample_env keyboard_info 0 =
     Some (Inr (keyboard_info\<lparr>di_registry_entry_id := 101\<rparr>, Some 101))"
proof -
  have "capture_poll sample_env keyboard_info 3 =
     Some (Inr (keyboard_info\<lparr>di_registry_entry_id := 101\<rparr>, Some 101))"
    by (subst capture_poll.simps) simp
  then have "capture_poll sample_env keyboard_info 2 =
     Some (Inr (keyboard_info\<lparr>di_registry_entry_id := 101\<rparr>, Some 101))"
    by (subst capture_poll.simps) simp
  then have "capture_poll sample_env keyboard_info 1 =
     Some (Inr (keyboard_info\<lparr>di_registry_entry_id := 101\<rparr>, Some 101))"
    by (subst capture_poll.simps) (simp add: numeral_2_eq_2)
  then show ?thesis
    by (subst capture_poll.simps) simp
qed

lemma sample_open: "snd (open_device sample_env (lit ''01-1'')) = Some (Inr sample_device)"
proof -
  have ok: "snd (reenumerate_with_capture witness_iokit (di_registry_entry_id keyboard_info)) = Some (Inr ())"
    by (simp add: reenumerate_with_capture_def reenumerate_with_options_def reenumerate_held_def
        witness_iokit_def)
  then obtain calls where
    "reenumerate_with_capture witness_iokit (di_registry_entry_id keyboard_info) = (calls, Some (Inr ()))"
    by (cases "reenumerate_with_capture witness_iokit (di_registry_entry_id keyboard_info)") auto
  then have "maybe_capture sample_env keyboard_info =
      (calls, Some (Inr (keyboard_info\<lparr>di_registry_entry_id := 101\<rparr>, Some 101)))"
    using sample_capture_poll by (simp add: maybe_capture_def)
  then show ?thesis
    by (simp add: open_device_def sample_device_def derive_bus_dev_def split: prod.split)
qed

definition sample_set_interface :: setup_packet where
  "sample_set_interface = setup_from_bytes [0x01, 0x0B, 1, 0, 0, 0, 0, 0]"

lemma sample_set_interface_fields:
  "is_set_interface sample_set_interface" "w_index sample_set_interface = 0"
  "w_value sample_set_interface = 1"
  by (simp_all add: is_set_interface_def sample_set_interface_def setup_from_bytes_def setup_is_in_def
      from_le_bytes16_def from_be_bytes16_def)

lemma sample_set_interface_transfer:
  "control_transfer sample_nusb sample_set_interface [] (sample_device, ()) =
     (Inr [], sample_device\<lparr>od_interfaces := {0}, od_alt_settings := [0 \<mapsto> 1]\<rparr>, ())"
  by (simp add: control_transfer_def ensure_interface_def sample_set_interface_def sample_nusb_def
      setup_from_bytes_def from_le_bytes16_def from_be_bytes16_def is_set_configuration_def
      is_set_interface_def setup_is_in_def sample_device_def invalidate_interface_endpoints_def)

section \<open>Properties\<close>

text \<open>
  Whatever sequence of control transfers, data transfers and cancellations a client causes on a
  device it opened, every cached endpoint belongs to a claimed interface, alternate settings are
  recorded for claimed interfaces only, and the busid, the device id, the open handle and the record
  of the capture never change.
\<close>

theorem device_caches_consistent:
  assumes "snd (open_device env busid) = Some (Inr d)" "(device_step nb)\<^sup>*\<^sup>* (d, w) (d', w')"
  shows "cache_wf d' \<and> identity d' = identity d"
proof -
  have "fresh_caches d"
    using assms(1)
    by (auto simp: open_device_def fresh_caches_def split: sum.splits option.splits prod.splits)
  with dev.invar_reachable [OF _ assms(2), of "identity d"] show ?thesis by simp
qed

theorem device_caches_consistent_witness:
  "\<exists>d. (device_step sample_nusb)\<^sup>*\<^sup>* (sample_device, ()) (d, ()) \<and> od_interfaces d = {0} \<and>
     od_alt_settings d 0 = Some 1 \<and> cache_wf d \<and> identity d = identity sample_device"
proof -
  let ?d = "sample_device\<lparr>od_interfaces := {0}, od_alt_settings := [0 \<mapsto> 1]\<rparr>"
  note sample_set_interface_transfer
  then have "device_step sample_nusb (sample_device, ()) (?d, ())" by (rule Control)
  then have run: "(device_step sample_nusb)\<^sup>*\<^sup>* (sample_device, ()) (?d, ())" by simp
  from device_caches_consistent [OF sample_open run] run show ?thesis by auto
qed

text \<open>
  A successful \<^verbatim>\<open>SET_INTERFACE\<close> leaves no cached endpoint of that interface, keeps those of the
  other interfaces, makes the requested alternate setting the one against which endpoints of the
  interface are resolved, and leaves the resolution on other interfaces as it was.
\<close>

theorem set_interface_switches_alt:
  assumes "is_set_interface setup" "control_transfer nb setup data (d, w) = (Inr r, d', w')"
    and n: "n = ucast (w_index setup AND 0xFF)" and a: "a = ucast (w_value setup AND 0xFF)"
  shows "r = [] \<and> n \<in> od_interfaces d' \<and>
     (\<forall>ep e. od_endpoints d' ep = Some e \<longleftrightarrow> od_endpoints d ep = Some e \<and> ee_iface_num e \<noteq> n) \<and>
     (\<forall>m. m \<noteq> n \<longrightarrow> active_alt d' cfg m = active_alt d cfg m) \<and>
     (\<forall>x \<in> set (cfg_alt_settings cfg). as_interface_number x = n \<and> as_alternate_setting x = a \<longrightarrow>
        (\<exists>y. active_alt d' cfg n = Some y \<and> as_interface_number y = n \<and> as_alternate_setting y = a))"
proof -
  obtain d2 w1 where
    i: "ensure_interface nb n (invalidate_interface_endpoints n d, w) = (Inr (), d2, w1)" and
    d': "d' = d2\<lparr>od_alt_settings := (od_alt_settings d2)(n \<mapsto> a)\<rparr>" and r: "r = []"
    by (rule control_transfer_set_interface [OF assms]) auto
  have frame: "od_endpoints d' = od_endpoints (invalidate_interface_endpoints n d)"
    "od_alt_settings d' = (od_alt_settings d)(n \<mapsto> a)"
    using ensure_interface_frame [OF i] d' by (auto simp: invalidate_interface_endpoints_def)
  have "\<exists>y. active_alt d' cfg n = Some y \<and> as_interface_number y = n \<and> as_alternate_setting y = a"
    if "x \<in> set (cfg_alt_settings cfg)" "as_interface_number x = n" "as_alternate_setting x = a" for x
    using active_alt_selected [OF _ that, of d'] frame by auto
  then show ?thesis
    using r frame ensure_interface_claimed [OF i] d'
    by (auto simp: invalidate_endpoints intro: active_alt_cong)
qed

theorem set_interface_switches_alt_witness:
  "\<exists>d w y. control_transfer sample_nusb sample_set_interface [] (sample_device, ()) = (Inr [], d, w) \<and>
     active_alt d sample_configuration 0 = Some y \<and> as_alternate_setting y = 1"
proof -
  note c = sample_set_interface_transfer and f = sample_set_interface_fields
  from set_interface_switches_alt [OF f(1) c refl refl, of sample_configuration] c f
  show ?thesis by (auto simp: sample_configuration_def)
qed

text \<open>
  \<^verbatim>\<open>SET_CONFIGURATION\<close> puts the caches back into their state right after opening, whether or not
  the stack accepts the configuration, and neither intercepted request is ever passed through to the
  device as a raw control transfer.
\<close>

theorem intercepted_requests:
  assumes "is_set_configuration setup \<or> is_set_interface setup"
  shows "control_transfer nb setup data s =
       control_transfer (nb\<lparr>nb_control_in := ci, nb_control_out := co\<rparr>) setup data s \<and>
     (is_set_configuration setup \<longrightarrow>
        fresh_caches (fst (snd (control_transfer nb setup data s))) \<and>
        snd (snd (control_transfer nb setup data s)) =
          snd (nb_set_configuration nb (ucast (w_value setup AND 0xFF)) (snd s)))"
proof (cases "is_set_configuration setup")
  case True
  then show ?thesis
    by (auto simp: control_transfer_def Let_def fresh_caches_def split: prod.splits sum.splits)
next
  case False
  with assms have "is_set_interface setup" by simp
  with False show ?thesis
    by (simp add: control_transfer_def ensure_interface_def Let_def split: prod.split)
qed

theorem intercepted_requests_witness:
  "fresh_caches (fst (snd (control_transfer sample_nusb
      (setup_from_bytes [0, 9, 1, 0, 0, 0, 0, 0]) [] (sample_device\<lparr>od_interfaces := {3}\<rparr>, ()))))"
  using intercepted_requests [of "setup_from_bytes [0, 9, 1, 0, 0, 0, 0, 0]" sample_nusb "[]"
      "(sample_device\<lparr>od_interfaces := {3}\<rparr>, ())"]
  by (simp add: is_set_configuration_def setup_from_bytes_def setup_is_in_def)

text \<open>
  Resolving an endpoint does not depend on the iteration order of the hash map that groups the
  alternate settings, as long as at most one interface has the endpoint in its active setting: two
  resolutions under one configuration agree whatever orders they draw.
\<close>

lemma endpoint_kind_order_independent:
  assumes "nb_active_configuration nb w = Some cfg" "nb_active_configuration nb w' = Some cfg"
    and "\<And>ns w. set (fst (nb_order nb ns w)) = set ns"
    and "\<And>m n. serves d cfg ep m \<Longrightarrow> serves d cfg ep n \<Longrightarrow> m = n"
  shows "fst (endpoint_kind nb d w' ep) = fst (endpoint_kind nb d w ep)"
  using assms by (auto simp: endpoint_kind_def split_beta intro!: find_endpoint_order)

text \<open>
  C21: An IN transfer is submitted with a length that is a non-zero multiple of the maximum packet
  size and at least what the client asked for; what comes back is never longer than the client asked
  for, and its reported length is the length of the data whenever the stack reports the length of
  the buffer it returns.
\<close>

theorem in_transfer_padding_hidden:
  assumes "data_transfer nb ep len data (d, w) = (Inr r, d', w')" "dir_in_of ep"
  shows "length (tr_data r) \<le> len \<and> tr_actual_length r \<le> len \<and>
     (\<exists>w1 c n. nb_transfer_in nb ep n w1 = (c, w') \<and> len \<le> n \<and>
        (0 < nb_max_packet_size nb ep w1 \<longrightarrow> 0 < n \<and> n mod nb_max_packet_size nb ep w1 = 0) \<and>
        (\<forall>b. into_result c = Inr b \<and> length b = actual_len c \<longrightarrow>
           tr_actual_length r = length (tr_data r) \<and> tr_data r = take len b))"
proof -
  obtain k w0 where k: "endpoint_kind nb d w ep = (Inr k, w0)"
    using assms by (cases "endpoint_kind nb d w ep" rule: resolved_cases) (auto simp: data_transfer_def)
  obtain e d1 w1 where e: "ensure_endpoint nb ep k (d, w0) = (Inr e, d1, w1)"
    using assms k by (auto simp: data_transfer_def split: sum.splits prod.splits)
  let ?mps = "nb_max_packet_size nb ep w1"
  let ?n = "padded_len True ?mps len"
  obtain c where c: "nb_transfer_in nb ep ?n w1 = (c, w')"
    using assms k e by (auto simp: data_transfer_def Let_def split: sum.splits prod.splits)
  obtain b where b: "into_result c = Inr b"
    and r: "r = \<lparr>tr_actual_length = min (actual_len c) len, tr_data = take (min (actual_len c) len) b\<rparr>"
    using assms k e c by (auto simp: data_transfer_def Let_def split: sum.splits)
  have n: "len \<le> ?n" "0 < ?mps \<longrightarrow> 0 < ?n \<and> ?n mod ?mps = 0"
    using padded_len_bounds [of ?mps len] by (auto simp: padded_len_def)
  from c n b r show ?thesis
    by (intro conjI exI [of _ w1] exI [of _ c] exI [of _ ?n]) (auto simp: min_def)
qed

theorem in_transfer_padding_hidden_witness:
  "\<exists>r d w. data_transfer sample_nusb 0x82 5 [] (sample_device, ()) = (Inr r, d, w) \<and>
     dir_in_of 0x82 \<and> length (tr_data r) \<le> 5 \<and> tr_actual_length r = 5"
proof -
  obtain r d w where t: "data_transfer sample_nusb 0x82 5 [] (sample_device, ()) = (Inr r, d, w)"
    and r: "tr_actual_length r = 5"
    by (auto simp: data_transfer_def endpoint_kind_def ensure_endpoint_def ensure_interface_def
        active_alt_def sample_nusb_def sample_device_def sample_configuration_def dir_in_of_def
        padded_len_def div_ceil_def Let_def)
  have "dir_in_of 0x82" by (simp add: dir_in_of_def)
  with in_transfer_padding_hidden [OF t] t r show ?thesis by blast
qed

end
