(* ===== verification/Device_Open.thy ===== *)
theory Device_Open
  imports Device_Cache
begin

text \<open>
  The life of a captured device: opening always returns, the poll after a re-enumeration finds the
  device if it comes back within the deadline, dropping releases the same physical device or
  nothing, after the nusb handle is closed; and an open that fails after the capture leaves the
  device captured.
\<close>

section \<open>The poll loop\<close>

text \<open>The first poll that decides: an error, the device, or the deadline.\<close>

definition poll_pending :: "host_env \<Rightarrow> device_info \<Rightarrow> nat \<Rightarrow> bool" where
  "poll_pending env info k \<longleftrightarrow>
     (\<exists>infos. he_polls env k = Inr infos \<and> find (same_device info) infos = None) \<and> he_clock env k < 5000"

lemma capture_poll_pending:
  "poll_pending env info k \<Longrightarrow> capture_poll env info k = capture_poll env info (Suc k)"
  by (subst capture_poll.simps) (auto simp: poll_pending_def)

lemma capture_poll_skip:
  "\<forall>i < n. poll_pending env info (k + i) \<Longrightarrow> capture_poll env info k = capture_poll env info (k + n)"
proof (induction n)
  case (Suc n)
  then have "capture_poll env info k = capture_poll env info (k + n)" by simp
  also have "\<dots> = capture_poll env info (Suc (k + n))"
    using Suc.prems by (intro capture_poll_pending) simp
  finally show ?case by simp
qed simp

lemma capture_poll_decides:
  "\<not> poll_pending env info k \<Longrightarrow> capture_poll env info k \<noteq> None"
  by (subst capture_poll.simps) (auto simp: poll_pending_def split: sum.split option.split)

lemma capture_poll_found:
  assumes "he_polls env k = Inr infos" "find (same_device info) infos = Some i"
  shows "capture_poll env info k = Some (Inr (i, Some (di_registry_entry_id i)))"
  using assms by (subst capture_poll.simps) simp

text \<open>
  Each try sleeps 50 ms, so the deadline of five seconds is reached by the 100th: one of the first
  hundred polls decides, and later ones are never made.
\<close>

definition same_polls :: "host_env \<Rightarrow> host_env \<Rightarrow> bool" where
  "same_polls env env' \<longleftrightarrow> (\<forall>k < 100. he_polls env' k = he_polls env k \<and> he_clock env' k = he_clock env k)"

lemma capture_poll_settled:
  assumes "50 * Suc 99 \<le> he_clock env 99"
  obtains n where "n < 100" "\<not> poll_pending env info n" "\<forall>i < n. poll_pending env info i"
    "capture_poll env info 0 = capture_poll env info n"
proof -
  have "\<not> poll_pending env info 99" using assms by (simp add: poll_pending_def)
  then obtain n where n: "\<not> poll_pending env info n" "\<forall>i < n. poll_pending env info i"
    using exists_least_iff [of "\<lambda>n. \<not> poll_pending env info n"] by blast
  with \<open>\<not> poll_pending env info 99\<close> have "\<not> 99 < n" by blast
  then have "n < 100" by simp
  then show thesis using that n capture_poll_skip [of n env info 0] by simp
qed

lemma capture_poll_total:
  assumes "50 * Suc 99 \<le> he_clock env 99"
  shows "capture_poll env info 0 \<noteq> None"
  using capture_poll_settled [OF assms, of info] capture_poll_decides by metis

lemma capture_poll_local:
  assumes "50 * Suc 99 \<le> he_clock env 99" "same_polls env env'"
  shows "capture_poll env' info 0 = capture_poll env info 0"
proof -
  obtain n where n: "n < 100" "\<not> poll_pending env info n" "\<forall>i < n. poll_pending env info i"
    "capture_poll env info 0 = capture_poll env info n"
    by (rule capture_poll_settled [OF assms(1)])
  have same: "poll_pending env' info i = poll_pending env info i" if "i < 100" for i
    using that assms(2) by (simp add: poll_pending_def same_polls_def)
  then have "capture_poll env' info 0 = capture_poll env' info n"
    using n(1,3) capture_poll_skip [of n env' info 0] by simp
  also have "\<dots> = capture_poll env info n"
    using n(1,2) assms(2)
    by (subst (1 2) capture_poll.simps) (auto simp: poll_pending_def same_polls_def split: sum.split option.split)
  finally show ?thesis using n(4) by simp
qed

lemma capture_poll_result:
  assumes "capture_poll env info k = Some r"
  shows "case r of Inl e \<Rightarrow> True | Inr (i, c) \<Rightarrow> same_device info i \<and> c = Some (di_registry_entry_id i)"
proof (rule capture_poll.raw_induct [OF _ assms])
  fix poll env info k r
  assume "\<And>env info k r. poll env info k = Some r \<Longrightarrow>
      case r of Inl e \<Rightarrow> True | Inr (i, c) \<Rightarrow> same_device info i \<and> c = Some (di_registry_entry_id i)"
    and "(case he_polls env k of
        Inl e \<Rightarrow> Some (Inl (Nusb e))
      | Inr infos \<Rightarrow>
          (case find (same_device info) infos of
             Some new_info \<Rightarrow> Some (Inr (new_info, Some (di_registry_entry_id new_info)))
           | None \<Rightarrow>
               if 5000 \<le> he_clock env k then Some (Inl ReenumerateTimeout)
               else poll env info (Suc k))) = Some r"
  then show "case r of Inl e \<Rightarrow> True | Inr (i, c) \<Rightarrow> same_device info i \<and> c = Some (di_registry_entry_id i)"
    by (cases "he_polls env k") (auto dest!: find_SomeD split: option.splits if_splits)
qed

section \<open>Opening\<close>

lemma maybe_capture_total:
  assumes "io_contract (he_iokit env)" "50 * Suc 99 \<le> he_clock env 99"
  shows "snd (maybe_capture env info) \<noteq> None"
  using capture_poll_total [OF assms(2)]
    reenumerate_total [OF assms(1), of "di_registry_entry_id info" kUSBReEnumerateCaptureDeviceMask]
  by (auto simp: maybe_capture_def reenumerate_with_capture_def split: prod.splits option.splits sum.splits)

lemma open_device_captured:
  assumes "snd (open_device env busid) = Some (Inr d)"
  shows "od_busid d = busid \<and> fresh_caches d \<and> od_device d \<and>
     (od_captured_registry_id d = None \<longleftrightarrow> od_captured_vid_pid d = None)"
  using assms
  by (auto simp: open_device_def fresh_caches_def split: sum.splits option.splits prod.splits)

text \<open>What a successful open has re-enumerated, and the device it then holds.\<close>

lemma open_device_devid:
  assumes "snd (open_device env busid) = Some (Inr d)"
  obtains info busnum devnum where
    "derive_bus_dev info = (busnum, devnum)" "od_devid d = devid_of busnum devnum"
  using assms by (auto simp: open_device_def split: sum.splits option.splits prod.splits)

text \<open>A captured device has the VID:PID of the device that was listed under its busid.\<close>

lemma maybe_capture_same:
  assumes "snd (maybe_capture env info) = Some (Inr (i, c))"
  shows "di_vendor_id i = di_vendor_id info \<and> di_product_id i = di_product_id info"
  using assms capture_poll_result [of env info 0]
  by (auto simp: maybe_capture_def same_device_def split: if_split_asm prod.split_asm option.split_asm sum.split_asm)

lemma open_device_vid_pid:
  assumes "snd (open_device env busid) = Some (Inr d)" "he_listing env = Inr infos"
    and "find (\<lambda>i. format_busid i = busid) infos = Some info" "od_captured_vid_pid d = Some (vid, pid)"
  shows "vid = di_vendor_id info \<and> pid = di_product_id info"
  using assms maybe_capture_same [of env info]
  by (auto simp: open_device_def split: prod.split_asm option.split_asm sum.split_asm)

section \<open>Dropping\<close>

lemma drop_target_Some:
  assumes "drop_target d listed = Some target" "od_captured_vid_pid d = Some (vid, pid)"
  obtains infos info where "listed = Inr infos" "info \<in> set infos" "format_busid info = od_busid d"
    "di_vendor_id info = vid" "di_product_id info = pid" "di_registry_entry_id info = target"
  using assms
  by (auto simp: drop_target_def split: sum.splits option.splits if_splits dest!: find_SomeD)

section \<open>Properties\<close>

text \<open>
  C29: Opening a device always returns, and after a bounded number of polls: with a monotonic clock
  that advances at least by the 50 ms each try sleeps, the poll for a captured device ends within its
  first hundred tries, with the device, an enumeration error or the timeout error. Whatever
  enumeration and clock would answer from the hundred and first try on, the open issues the same
  calls and has the same result.
\<close>

theorem open_device_returns:
  assumes "io_contract (he_iokit env)" "\<And>k. k < 100 \<Longrightarrow> 50 * Suc k \<le> he_clock env k"
  shows "snd (open_device env busid) \<noteq> None \<and>
    (\<forall>polls clock. (\<forall>k < 100. polls k = he_polls env k \<and> clock k = he_clock env k) \<longrightarrow>
       open_device (env\<lparr>he_polls := polls, he_clock := clock\<rparr>) busid = open_device env busid)"
proof (intro conjI allI impI)
  have d: "50 * Suc 99 \<le> he_clock env 99" using assms(2) [of 99] by simp
  have "maybe_capture env info \<noteq> (calls, None)" for info calls
    using maybe_capture_total [OF assms(1) d, of info] by auto
  then show "snd (open_device env busid) \<noteq> None"
    by (auto simp: open_device_def split: sum.splits option.splits prod.splits)
  fix polls clock
  assume "\<forall>k < 100. polls k = he_polls env k \<and> clock k = he_clock env k"
  then have "capture_poll (env\<lparr>he_polls := polls, he_clock := clock\<rparr>) info 0 = capture_poll env info 0" for info
    by (intro capture_poll_local [OF d]) (simp add: same_polls_def)
  then have "maybe_capture (env\<lparr>he_polls := polls, he_clock := clock\<rparr>) info = maybe_capture env info" for info
    by (simp add: maybe_capture_def)
  then show "open_device (env\<lparr>he_polls := polls, he_clock := clock\<rparr>) busid = open_device env busid"
    by (simp add: open_device_def split: sum.split option.split prod.split)
qed

theorem open_device_returns_witness:
  "snd (open_device (sample_env\<lparr>he_polls := (\<lambda>k. if k < 100 then he_polls sample_env k else Inl 5),
     he_clock := he_clock sample_env\<rparr>) (lit ''01-1'')) = Some (Inr sample_device)"
proof -
  have c: "io_contract (he_iokit sample_env)" by (simp add: io_contract_def witness_iokit_def)
  have "open_device (sample_env\<lparr>he_polls := (\<lambda>k. if k < 100 then he_polls sample_env k else Inl 5),
     he_clock := he_clock sample_env\<rparr>) (lit ''01-1'') = open_device sample_env (lit ''01-1'')"
    by (rule open_device_returns [OF c, THEN conjunct2, rule_format]) simp_all
  then show ?thesis by (simp only: sample_open)
qed

text \<open>
  A captured device that comes back at the same location with the same VID:PID before the
  deadline is the one that is opened, with its new registry id recorded for the release.
\<close>

theorem capture_finds_device:
  assumes "he_root env" "snd (reenumerate_with_capture (he_iokit env) (di_registry_entry_id info)) = Some (Inr ())"
    and "\<And>i. i < n \<Longrightarrow> he_polls env i = Inr [] \<and> he_clock env i < 5000"
    and "he_polls env n = Inr (info' # infos)" "same_device info info'"
  shows "snd (maybe_capture env info) = Some (Inr (info', Some (di_registry_entry_id info')))"
proof -
  have "\<forall>i < n. poll_pending env info (0 + i)" using assms(3) by (simp add: poll_pending_def)
  then have "capture_poll env info 0 = capture_poll env info (0 + n)" by (rule capture_poll_skip)
  with capture_poll_found [OF assms(4), of info info'] assms(5)
  have "capture_poll env info 0 = Some (Inr (info', Some (di_registry_entry_id info')))" by simp
  with assms(1,2) show ?thesis by (auto simp: maybe_capture_def split: prod.splits)
qed

theorem capture_finds_device_witness:
  "snd (maybe_capture sample_env keyboard_info) =
     Some (Inr (keyboard_info\<lparr>di_registry_entry_id := 101\<rparr>, Some 101))"
proof -
  have "snd (reenumerate_with_capture (he_iokit sample_env) (di_registry_entry_id keyboard_info)) = Some (Inr ())"
    by (simp add: reenumerate_with_capture_def reenumerate_with_options_def reenumerate_held_def
        witness_iokit_def)
  from capture_finds_device [OF _ this, of 3 "keyboard_info\<lparr>di_registry_entry_id := 101\<rparr>" "[]"]
  show ?thesis by simp
qed

text \<open>
  Dropping a device touches IOKit only if the device was captured, only after the interfaces, the
  endpoints and the nusb handle are closed, and only to release a device that is listed at the same
  busid with the VID:PID recorded when it was opened; and where such a device is listed it is
  released.
\<close>

theorem drop_releases_only_its_device:
  assumes "snd (open_device env busid) = Some (Inr d)" "identity d' = identity d"
  shows "case od_captured_vid_pid d of
     None \<Rightarrow> drop_device k listed d' = []
   | Some (vid, pid) \<Rightarrow>
       drop_device k listed d' = [ClearInterfaces, ClearEndpoints, CloseDevice] \<or>
       (\<exists>infos info. listed = Inr infos \<and> info \<in> set infos \<and> format_busid info = busid \<and>
          di_vendor_id info = vid \<and> di_product_id info = pid \<and>
          drop_device k listed d' = [ClearInterfaces, ClearEndpoints, CloseDevice] @
            map IoKit (fst (reenumerate_release k (di_registry_entry_id info))))"
proof -
  have d: "od_busid d = busid" "od_captured_registry_id d = None \<longleftrightarrow> od_captured_vid_pid d = None"
    using open_device_captured [OF assms(1)] by auto
  have i: "od_busid d' = od_busid d" "od_captured_registry_id d' = od_captured_registry_id d"
    "od_captured_vid_pid d' = od_captured_vid_pid d"
    using assms(2) by (simp_all add: identity_def)
  show ?thesis
  proof (cases "od_captured_vid_pid d")
    case None
    with d i show ?thesis by (simp add: drop_device_def)
  next
    case (Some vp)
    then obtain vid pid where vp: "od_captured_vid_pid d = Some (vid, pid)" by (cases vp) auto
    with d i obtain reg where reg: "od_captured_registry_id d' = Some reg" by auto
    show ?thesis
    proof (cases "drop_target d' listed")
      case None
      with reg vp show ?thesis by (simp add: drop_device_def)
    next
      case (Some target)
      obtain infos info where "listed = Inr infos" "info \<in> set infos" "format_busid info = busid"
        "di_vendor_id info = vid" "di_product_id info = pid" "di_registry_entry_id info = target"
        using drop_target_Some [OF Some, of vid pid] vp i d by auto
      with Some reg vp show ?thesis by (auto simp: drop_device_def)
    qed
  qed
qed

theorem drop_releases_only_its_device_witness:
  "drop_device witness_iokit (Inr [keyboard_info\<lparr>di_product_id := 0x0408\<rparr>]) sample_device =
     [ClearInterfaces, ClearEndpoints, CloseDevice]"
proof -
  have "di_product_id info = 0x0407 \<Longrightarrow> info \<in> set [keyboard_info\<lparr>di_product_id := 0x0408\<rparr>] \<Longrightarrow> False" for info
    by (auto simp: keyboard_info_def)
  with drop_releases_only_its_device [OF sample_open refl, of witness_iokit
      "Inr [keyboard_info\<lparr>di_product_id := 0x0408\<rparr>]"]
  show ?thesis by (fastforce simp: sample_device_def)
qed

text \<open>
  C36: An open that fails after a successful capture leaves the device captured: the only
  re-enumeration it issued is the capturing one, no handle is returned whose drop could release it,
  and the error alone is passed on. This happens when the reopened device cannot be opened and when
  it does not come back within the deadline.
\<close>

theorem failed_open_leaves_device_captured:
  assumes "he_root env" "he_listing env = Inr infos" "find (\<lambda>i. format_busid i = busid) infos = Some info"
    and cap: "snd (reenumerate_with_capture (he_iokit env) (di_registry_entry_id info)) = Some (Inr ())"
    and poll: "capture_poll env info 0 = Some r"
      "case r of Inl _ \<Rightarrow> True | Inr (i, _) \<Rightarrow> he_open env i = Inl e"
  shows "reenumerations (fst (open_device env busid)) = [0x40000000] \<and>
     snd (open_device env busid) = Some (Inl (case r of Inl e' \<Rightarrow> e' | Inr _ \<Rightarrow> Nusb e))"
proof -
  obtain calls where c:
    "reenumerate_with_capture (he_iokit env) (di_registry_entry_id info) = (calls, Some (Inr ()))"
    using cap by (cases "reenumerate_with_capture (he_iokit env) (di_registry_entry_id info)") auto
  have "reenumerations calls = [kUSBReEnumerateCaptureDeviceMask]"
    using reenumerate_ok_once cap c unfolding reenumerate_with_capture_def by (metis fst_conv)
  moreover have "maybe_capture env info = (calls, Some r)"
    using assms(1) c poll(1) by (simp add: maybe_capture_def)
  ultimately show ?thesis
    using assms(2,3) poll(2)
    by (auto simp: open_device_def kUSBReEnumerateCaptureDeviceMask_def split: sum.splits prod.splits)
qed

theorem failed_open_leaves_device_captured_witness:
  "reenumerations (fst (open_device (sample_env\<lparr>he_polls := \<lambda>_. Inl 5\<rparr>) (lit ''01-1''))) = [0x40000000] \<and>
   snd (open_device (sample_env\<lparr>he_polls := \<lambda>_. Inl 5\<rparr>) (lit ''01-1'')) = Some (Inl (Nusb 5))"
proof -
  let ?env = "sample_env\<lparr>he_polls := \<lambda>_. Inl 5\<rparr>"
  have "snd (reenumerate_with_capture (he_iokit ?env) (di_registry_entry_id keyboard_info)) = Some (Inr ())"
    by (simp add: reenumerate_with_capture_def reenumerate_with_options_def reenumerate_held_def
        witness_iokit_def)
  moreover have "capture_poll ?env keyboard_info 0 = Some (Inl (Nusb 5))"
    by (subst capture_poll.simps) simp
  ultimately show ?thesis
    using failed_open_leaves_device_captured [of ?env "[keyboard_info]" "lit ''01-1''" keyboard_info
        "Inl (Nusb 5)" 0]
    by simp
qed

end
