(* ===== verification/Daemon_Policy.thy ===== *)
theory Daemon_Policy
  imports Device_Open
begin

text \<open>
  The daemon's shared state and its front door (\<^verbatim>\<open>usbipd/src/daemon.rs\<close>, lines 40 to 355): the access
  policy, the table of attached devices with its guards, the bind-time checks of \<^verbatim>\<open>serve\<close>, the accept
  loops and the release on shutdown.

  Sockets, the file system and signals are parameters: what binding answers, what \<^verbatim>\<open>lstat\<close> finds at a
  socket path, and the sequence of events that the accept loop selects. \<open>serve\<close> returns the actions
  it takes, in order.
\<close>

section \<open>Access policy\<close>

datatype access_policy = DenyAll | AllowAll | AllowList "(u16 \<times> u16) set"

fun permits :: "access_policy \<Rightarrow> u16 \<Rightarrow> u16 \<Rightarrow> bool" where
  "permits DenyAll vendor_id product_id = False"
| "permits AllowAll vendor_id product_id = True"
| "permits (AllowList allowed) vendor_id product_id = ((vendor_id, product_id) \<in> allowed)"

definition policy_filter :: "access_policy \<Rightarrow> usb_device list \<Rightarrow> usb_device list" where
  "policy_filter p devices = filter (\<lambda>d. permits p (ud_vendor_id d) (ud_product_id d)) devices"

section \<open>Configuration\<close>

datatype ip_addr = V4 u8 u8 u8 u8 | V6 "u16 list"

record socket_addr =
  sa_ip :: ip_addr
  sa_port :: u16

datatype endpoint = Tcp socket_addr | Unix rstr

record daemon_config =
  dc_endpoint :: endpoint
  dc_policy :: access_policy
  dc_allow_public_bind :: bool

fun ip_is_loopback :: "ip_addr \<Rightarrow> bool" where
  "ip_is_loopback (V4 a b c d) = (a = 127)"
| "ip_is_loopback (V6 segments) = (segments = [0, 0, 0, 0, 0, 0, 0, 1])"

definition is_loopback :: "socket_addr \<Rightarrow> bool" where
  "is_loopback addr = ip_is_loopback (sa_ip addr)"

section \<open>Shared state\<close>

record daemon_state =
  ds_policy :: access_policy
  ds_attached :: "rstr \<rightharpoonup> rstr"

definition daemon_state_new :: "access_policy \<Rightarrow> daemon_state" where
  "daemon_state_new policy = \<lparr>ds_policy = policy, ds_attached = Map.empty\<rparr>"

datatype attach_guard = AttachGuard (guard_busid: rstr)

definition try_attach :: "rstr \<Rightarrow> rstr \<Rightarrow> daemon_state \<Rightarrow> attach_guard option \<times> daemon_state" where
  "try_attach busid peer st =
     (if ds_attached st busid \<noteq> None then (None, st)
      else (Some (AttachGuard busid), st\<lparr>ds_attached := (ds_attached st)(busid \<mapsto> peer)\<rparr>))"

definition attach_guard_drop :: "attach_guard \<Rightarrow> daemon_state \<Rightarrow> daemon_state" where
  "attach_guard_drop g st = st\<lparr>ds_attached := (ds_attached st)(guard_busid g := None)\<rparr>"

section \<open>Serving\<close>

datatype accept_event =
    Accepted rstr
  | AcceptFailed
  | Shutdown

datatype serve_action =
    RemoveFile rstr "bool option"
  | BindTcp socket_addr
  | BindUnix rstr
  | SetMode rstr nat bool
  | SpawnSession rstr
  | ReleaseCapture rstr

datatype serve_error =
    RefuseBind socket_addr
  | NotASocket rstr
  | BindFailed

text \<open>
  What \<^verbatim>\<open>serve\<close> meets: the entry at the socket path when it starts (absent, or present and a socket or
  not), whether the bind and the change of the mode succeed, the events of the accept loop, the entry
  at the socket path when the loop ends, which others may have replaced meanwhile, and the keys of
  the attach table then. An action records what it met: \<open>RemoveFile\<close> the entry that was there,
  \<open>SetMode\<close> whether it succeeded.
\<close>

record serve_env =
  sv_lstat :: "rstr \<Rightarrow> bool option"
  sv_bind_ok :: bool
  sv_chmod_ok :: bool
  sv_events :: "accept_event list"
  sv_at_exit :: "rstr \<Rightarrow> bool option"
  sv_attached :: "rstr list"

text \<open>The mode \<^verbatim>\<open>0o600\<close>: read and write for the owner only.\<close>

definition SOCKET_MODE :: nat where "SOCKET_MODE = 6 * 8 * 8"

text \<open>The accept loop; \<^const>\<open>None\<close> while the daemon has not been told to shut down.\<close>

fun accept_loop :: "accept_event list \<Rightarrow> serve_action list \<times> unit option" where
  "accept_loop [] = ([], None)"
| "accept_loop (Accepted peer # es) = (case accept_loop es of (acts, r) \<Rightarrow> (SpawnSession peer # acts, r))"
| "accept_loop (AcceptFailed # es) = accept_loop es"
| "accept_loop (Shutdown # es) = ([], Some ())"

definition accept_loop_unix ::
  "rstr \<Rightarrow> bool option \<Rightarrow> accept_event list \<Rightarrow> serve_action list \<times> unit option" where
  "accept_loop_unix path entry es =
     (case accept_loop es of
        (acts, None) \<Rightarrow> (acts, None)
      | (acts, Some _) \<Rightarrow> (acts @ [RemoveFile path entry], Some ()))"

text \<open>
  A mode that cannot be set is only warned about. Binding and accepting: the actions, and an error, the end of the loop, or \<^const>\<open>None\<close> while it runs.
\<close>

definition serve_endpoint ::
  "serve_env \<Rightarrow> endpoint \<Rightarrow> serve_action list \<times> (serve_error + unit) option" where
  "serve_endpoint env ep =
     (case ep of
        Tcp addr \<Rightarrow>
          if \<not> sv_bind_ok env then ([BindTcp addr], Some (Inl BindFailed))
          else (case accept_loop (sv_events env) of (acts, r) \<Rightarrow> (BindTcp addr # acts, map_option Inr r))
      | Unix path \<Rightarrow>
          if sv_lstat env path = Some False then ([], Some (Inl (NotASocket path)))
          else
            let stale = (if sv_lstat env path = Some True then [RemoveFile path (Some True)] else [])
            in if \<not> sv_bind_ok env then (stale @ [BindUnix path], Some (Inl BindFailed))
               else (case accept_loop_unix path (sv_at_exit env path) (sv_events env) of (acts, r) \<Rightarrow>
                       (stale @ [BindUnix path, SetMode path SOCKET_MODE (sv_chmod_ok env)] @ acts,
                        map_option Inr r)))"

definition refused_addr :: "daemon_config \<Rightarrow> socket_addr option" where
  "refused_addr config =
     (case dc_endpoint config of
        Tcp addr \<Rightarrow> if \<not> is_loopback addr \<and> \<not> dc_allow_public_bind config then Some addr else None
      | Unix _ \<Rightarrow> None)"

definition serve :: "serve_env \<Rightarrow> daemon_config \<Rightarrow> serve_action list \<times> (serve_error + unit) option" where
  "serve env config =
     (case refused_addr config of
        Some addr \<Rightarrow> ([], Some (Inl (RefuseBind addr)))
      | None \<Rightarrow>
          (case serve_endpoint env (dc_endpoint config) of
             (acts, Some (Inr _)) \<Rightarrow> (acts @ map ReleaseCapture (sv_attached env), Some (Inr ()))
           | (acts, r) \<Rightarrow> (acts, r)))"

definition show_i32 :: "i32 \<Rightarrow> rstr" where
  "show_i32 x = (if sint x < 0 then lit ''-'' @ show_dec (nat (- sint x)) else show_dec (nat (sint x)))"

definition unix_peer_label :: "(u32 \<times> i32 option) option \<Rightarrow> rstr" where
  "unix_peer_label cred =
     (case cred of
        Some (uid, pid) \<Rightarrow>
          lit ''unix:uid='' @ show_dec (unat uid) @ lit '',pid='' @
            show_i32 (case pid of Some p \<Rightarrow> p | None \<Rightarrow> 0)
      | None \<Rightarrow> lit ''unix:unknown'')"

section \<open>The attach table as an interface\<close>

text \<open>
  What sessions rely on: a slot can be claimed exactly when nobody holds it, a claim records its
  owner and changes no other slot, and a release frees exactly its slot.
\<close>

locale slot_table =
  fixes holder :: "'s \<Rightarrow> 'k \<Rightarrow> 'v option"
    and claim :: "'k \<Rightarrow> 'v \<Rightarrow> 's \<Rightarrow> 'g option \<times> 's"
    and key :: "'g \<Rightarrow> 'k"
    and release :: "'g \<Rightarrow> 's \<Rightarrow> 's"
  assumes claim_free: "holder s k = None \<Longrightarrow>
      \<exists>g t. claim k v s = (Some g, t) \<and> key g = k \<and> holder t = (holder s)(k \<mapsto> v)"
    and claim_taken: "holder s k \<noteq> None \<Longrightarrow> claim k v s = (None, s)"
    and release_holder: "holder (release g s) = (holder s)(key g := None)"
begin

lemma claim_granted:
  assumes "claim k v s = (Some g, t)"
  shows "holder s k = None \<and> key g = k \<and> holder t = (holder s)(k \<mapsto> v)"
  using assms claim_free [of s k v] claim_taken [of s k v] by (cases "holder s k") auto

lemma claim_refused:
  assumes "claim k v s = (None, t)"
  shows "holder s k \<noteq> None \<and> t = s"
  using assms claim_free [of s k v] claim_taken [of s k v] by (cases "holder s k") auto

lemma claim_twice_refused:
  assumes "claim k v s = (Some g, t)"
  shows "claim k v' t = (None, t)"
  using claim_granted [OF assms] by (intro claim_taken) simp

lemma claim_then_release:
  assumes "claim k v s = (Some g, t)"
  shows "holder (release g t) = holder s"
  using claim_granted [OF assms] release_holder [of g t] by (auto simp: fun_eq_iff)

lemma claims_commute:
  assumes "claim k v s = (Some g, t)" "claim k' v' s = (Some g', t')" "k \<noteq> k'"
  shows "\<exists>h u h' u'. claim k' v' t = (Some h, u) \<and> claim k v t' = (Some h', u') \<and> holder u = holder u'"
proof -
  have g: "holder t = (holder s)(k \<mapsto> v)" "holder t' = (holder s)(k' \<mapsto> v')"
    "holder s k = None" "holder s k' = None"
    using claim_granted [OF assms(1)] claim_granted [OF assms(2)] by auto
  with assms(3) have "holder t k' = None" "holder t' k = None" by auto
  then obtain h u h' u' where "claim k' v' t = (Some h, u)" "holder u = (holder t)(k' \<mapsto> v')"
    "claim k v t' = (Some h', u')" "holder u' = (holder t')(k \<mapsto> v)"
    using claim_free by metis
  with g assms(3) show ?thesis by (auto simp: fun_upd_twist)
qed

end

interpretation slots: slot_table ds_attached try_attach guard_busid attach_guard_drop
  by unfold_locales (auto simp: try_attach_def attach_guard_drop_def)

lemma try_attach_policy [simp]: "ds_policy (snd (try_attach busid peer st)) = ds_policy st"
  by (simp add: try_attach_def)

section \<open>Sessions that hold guards\<close>

text \<open>
  The interleaving of sessions on the table: session \<open>i\<close> holds the guard of one device, with its
  peer label, or none; the table is locked around each operation, so each is one step.
\<close>

record attach_world =
  aw_state :: daemon_state
  aw_guards :: "nat \<rightharpoonup> attach_guard \<times> rstr"

inductive attach_step :: "attach_world \<Rightarrow> attach_world \<Rightarrow> bool" where
  Attach: "aw_guards x i = None \<Longrightarrow> try_attach busid peer (aw_state x) = (Some g, st) \<Longrightarrow>
     attach_step x \<lparr>aw_state = st, aw_guards = (aw_guards x)(i \<mapsto> (g, peer))\<rparr>"
| Refuse: "try_attach busid peer (aw_state x) = (None, st) \<Longrightarrow>
     attach_step x (x\<lparr>aw_state := st\<rparr>)"
| Detach: "aw_guards x i = Some (g, peer) \<Longrightarrow>
     attach_step x \<lparr>aw_state = attach_guard_drop g (aw_state x), aw_guards = (aw_guards x)(i := None)\<rparr>"

inductive_cases attach_stepE: "attach_step x y"

definition attach_init :: "attach_world \<Rightarrow> bool" where
  "attach_init x \<longleftrightarrow> aw_guards x = Map.empty \<and> ds_attached (aw_state x) = Map.empty"

definition attach_invar :: "attach_world \<Rightarrow> bool" where
  "attach_invar x \<longleftrightarrow>
     (\<forall>b p. ds_attached (aw_state x) b = Some p \<longleftrightarrow> (\<exists>i. aw_guards x i = Some (AttachGuard b, p))) \<and>
     (\<forall>i j g p q. aw_guards x i = Some (g, p) \<longrightarrow> aw_guards x j = Some (g, q) \<longrightarrow> i = j)"

lemma guard_eq: "g = AttachGuard (guard_busid g)"
  by (cases g) simp

lemma ex_map_insert: "(m :: 'i \<rightharpoonup> 'v) i = None \<Longrightarrow> (\<exists>j. (m(i \<mapsto> v)) j = Some y) \<longleftrightarrow> y = v \<or> (\<exists>j. m j = Some y)"
  using ran_map_upd [of m i v] by (simp add: ran_def set_eq_iff)

lemma attach_invar_attach:
  assumes inv: "attach_invar x" and "aw_guards x i = None"
    and "try_attach busid peer (aw_state x) = (Some g, st)"
  shows "attach_invar \<lparr>aw_state = st, aw_guards = (aw_guards x)(i \<mapsto> (g, peer))\<rparr>"
proof -
  have free: "ds_attached (aw_state x) busid = None" and g: "g = AttachGuard busid"
    and st: "ds_attached st = (ds_attached (aw_state x))(busid \<mapsto> peer)"
    using slots.claim_granted [OF assms(3)] guard_eq [of g] by auto
  from inv free g have fresh: "aw_guards x j \<noteq> Some (g, p)" for j p
    by (force simp: attach_invar_def)
  show ?thesis
    unfolding attach_invar_def
  proof (intro conjI allI impI)
    fix b p
    have "(\<exists>j. aw_guards x j = Some (AttachGuard b, p)) \<longleftrightarrow> ds_attached (aw_state x) b = Some p"
      using inv unfolding attach_invar_def by blast
    then show "(ds_attached (aw_state \<lparr>aw_state = st, aw_guards = (aw_guards x)(i \<mapsto> (g, peer))\<rparr>) b = Some p) =
        (\<exists>j. aw_guards \<lparr>aw_state = st, aw_guards = (aw_guards x)(i \<mapsto> (g, peer))\<rparr> j = Some (AttachGuard b, p))"
      using ex_map_insert [of "aw_guards x" i "(g, peer)" "(AttachGuard b, p)"] assms(2) free g st
      by (cases "b = busid") auto
  next
    fix j k h p q
    assume "aw_guards \<lparr>aw_state = st, aw_guards = (aw_guards x)(i \<mapsto> (g, peer))\<rparr> j = Some (h, p)"
      and "aw_guards \<lparr>aw_state = st, aw_guards = (aw_guards x)(i \<mapsto> (g, peer))\<rparr> k = Some (h, q)"
    with inv fresh show "j = k"
      unfolding attach_invar_def by (cases "j = i"; cases "k = i") auto
  qed
qed

lemma attach_invar_detach:
  assumes inv: "attach_invar x" and held: "aw_guards x i = Some (g, peer)"
  shows "attach_invar \<lparr>aw_state = attach_guard_drop g (aw_state x), aw_guards = (aw_guards x)(i := None)\<rparr>"
proof -
  have uniq: "aw_guards x j = Some (g, p) \<Longrightarrow> j = i" for j p
    using inv held unfolding attach_invar_def by blast
  have gone: "(\<exists>j. ((aw_guards x)(i := None)) j = Some (AttachGuard b, p)) \<longleftrightarrow>
      b \<noteq> guard_busid g \<and> (\<exists>j. aw_guards x j = Some (AttachGuard b, p))" for b p
  proof
    assume "\<exists>j. ((aw_guards x)(i := None)) j = Some (AttachGuard b, p)"
    then obtain j where j: "j \<noteq> i" "aw_guards x j = Some (AttachGuard b, p)"
      by (auto split: if_split_asm)
    with uniq [of j p] guard_eq [of g] have "b \<noteq> guard_busid g" by auto
    with j show "b \<noteq> guard_busid g \<and> (\<exists>j. aw_guards x j = Some (AttachGuard b, p))" by blast
  next
    assume "b \<noteq> guard_busid g \<and> (\<exists>j. aw_guards x j = Some (AttachGuard b, p))"
    then obtain j where j: "b \<noteq> guard_busid g" "aw_guards x j = Some (AttachGuard b, p)" by blast
    with held have "j \<noteq> i" by auto
    with j show "\<exists>j. ((aw_guards x)(i := None)) j = Some (AttachGuard b, p)" by auto
  qed
  show ?thesis
    unfolding attach_invar_def
  proof (intro conjI allI impI)
    fix b p
    show "(ds_attached (aw_state \<lparr>aw_state = attach_guard_drop g (aw_state x), aw_guards = (aw_guards x)(i := None)\<rparr>) b = Some p) =
        (\<exists>j. aw_guards \<lparr>aw_state = attach_guard_drop g (aw_state x), aw_guards = (aw_guards x)(i := None)\<rparr> j = Some (AttachGuard b, p))"
      using inv gone [of b p] by (simp add: attach_invar_def slots.release_holder)
  next
    fix j k h p q
    assume "aw_guards \<lparr>aw_state = attach_guard_drop g (aw_state x), aw_guards = (aw_guards x)(i := None)\<rparr> j = Some (h, p)"
      and "aw_guards \<lparr>aw_state = attach_guard_drop g (aw_state x), aw_guards = (aw_guards x)(i := None)\<rparr> k = Some (h, q)"
    with inv show "j = k"
      unfolding attach_invar_def by (cases "j = i"; cases "k = i") auto
  qed
qed

interpretation att: safe_system attach_init attach_step attach_invar
proof unfold_locales
  fix x y assume inv: "attach_invar x" and step: "attach_step x y"
  from step show "attach_invar y"
  proof (cases rule: attach_step.cases)
    case (Refuse busid peer st)
    then have "st = aw_state x" using slots.claim_refused by blast
    with inv Refuse show ?thesis by simp
  qed (use inv in \<open>auto intro: attach_invar_attach attach_invar_detach\<close>)
qed (simp add: attach_init_def attach_invar_def)

section \<open>The actions of the server\<close>

lemma accept_loop_actions: "a \<in> set (fst (accept_loop es)) \<Longrightarrow> \<exists>peer. a = SpawnSession peer"
  by (induction es rule: accept_loop.induct) (auto split: prod.splits)

lemma accept_loop_end: "snd (accept_loop es) = (if Shutdown \<in> set es then Some () else None)"
  by (induction es rule: accept_loop.induct) (auto split: prod.splits)

lemma accept_loop_unix_actions:
  "a \<in> set (fst (accept_loop_unix path entry es)) \<Longrightarrow>
   a = RemoveFile path entry \<and> Shutdown \<in> set es \<or> (\<exists>peer. a = SpawnSession peer)"
  using accept_loop_actions [of a es] accept_loop_end [of es] by (auto simp: accept_loop_unix_def split: prod.splits option.splits)

definition spawned :: "serve_action list \<Rightarrow> rstr list" where
  "spawned acts = List.map_filter (\<lambda>a. case a of SpawnSession p \<Rightarrow> Some p | _ \<Rightarrow> None) acts"

definition accepted :: "accept_event list \<Rightarrow> rstr list" where
  "accepted es = List.map_filter (\<lambda>e. case e of Accepted p \<Rightarrow> Some p | _ \<Rightarrow> None) es"

lemma spawned_simps [simp]:
  "spawned [] = []" "spawned (xs @ ys) = spawned xs @ spawned ys"
  "spawned (a # acts) = (case a of SpawnSession p \<Rightarrow> [p] | _ \<Rightarrow> []) @ spawned acts"
  "spawned (map ReleaseCapture bs) = []"
  by (auto simp: spawned_def List.map_filter_def split: serve_action.split)

lemma accept_loop_spawned: "spawned (fst (accept_loop es)) = accepted (takeWhile (\<lambda>e. e \<noteq> Shutdown) es)"
  by (induction es rule: accept_loop.induct)
    (auto simp: accepted_def List.map_filter_def split: prod.splits)

lemma serve_prefix:
  "\<exists>rest. fst (serve env config) =
     (if refused_addr config = None then fst (serve_endpoint env (dc_endpoint config)) else []) @ rest \<and>
     (rest = [] \<or> rest = map ReleaseCapture (sv_attached env))"
  by (auto simp: serve_def split: option.split prod.split sum.split)

lemma serve_endpoint_actions:
  "a \<in> set (fst (serve_endpoint env ep)) \<Longrightarrow>
   case a of BindTcp addr \<Rightarrow> ep = Tcp addr
   | RemoveFile p entry \<Rightarrow> ep = Unix p \<and> sv_lstat env p \<noteq> Some False \<and>
       (entry = Some True \<and> sv_lstat env p = Some True \<or> entry = sv_at_exit env p \<and> Shutdown \<in> set (sv_events env))
   | ReleaseCapture _ \<Rightarrow> False | _ \<Rightarrow> True"
proof (cases ep)
  case (Tcp addr)
  assume "a \<in> set (fst (serve_endpoint env ep))"
  with Tcp accept_loop_actions [of a "sv_events env"] show ?thesis
    by (auto simp: serve_endpoint_def split: prod.splits if_splits)
next
  case (Unix path)
  assume "a \<in> set (fst (serve_endpoint env ep))"
  with Unix accept_loop_unix_actions [of a path "sv_at_exit env path" "sv_events env"] show ?thesis
    by (auto simp: serve_endpoint_def Let_def split: prod.splits if_splits)
qed

text \<open>Everything up to the change of the mode, in the order in which it happens.\<close>

lemma serve_endpoint_unix:
  "\<exists>stale rest. (stale = [] \<or> stale = [RemoveFile path (Some True)]) \<and>
     fst (serve_endpoint env (Unix path)) =
       (if sv_lstat env path = Some False then []
        else stale @ BindUnix path #
          (if sv_bind_ok env then SetMode path SOCKET_MODE (sv_chmod_ok env) # rest else []))"
proof -
  let ?stale = "if sv_lstat env path = Some True then [RemoveFile path (Some True)] else []"
  let ?loop = "fst (accept_loop_unix path (sv_at_exit env path) (sv_events env))"
  show ?thesis
    by (intro exI [of _ ?stale] exI [of _ ?loop]) (simp add: serve_endpoint_def Let_def split: prod.split)
qed

lemma serve_unix:
  assumes "dc_endpoint config = Unix path"
  shows "(sv_lstat env path = Some False \<longrightarrow> serve env config = ([], Some (Inl (NotASocket path)))) \<and>
    set (takeWhile (\<lambda>a. a \<noteq> BindUnix path) (fst (serve env config))) \<subseteq> {RemoveFile path (Some True)} \<and>
    (SpawnSession peer \<in> set (fst (serve env config)) \<longrightarrow>
       SetMode path SOCKET_MODE (sv_chmod_ok env) \<in>
         set (takeWhile (\<lambda>a. a \<noteq> SpawnSession peer) (fst (serve env config))))"
proof -
  have "refused_addr config = None" using assms by (simp add: refused_addr_def)
  with assms serve_prefix [of env config] obtain rest where
    acts: "fst (serve env config) = fst (serve_endpoint env (Unix path)) @ rest" and
    rest: "rest = [] \<or> rest = map ReleaseCapture (sv_attached env)" by auto
  have "serve env config = ([], Some (Inl (NotASocket path)))" if "sv_lstat env path = Some False"
    using that assms by (simp add: serve_def refused_addr_def serve_endpoint_def)
  moreover obtain stale more where "stale = [] \<or> stale = [RemoveFile path (Some True)]"
    "fst (serve_endpoint env (Unix path)) =
       (if sv_lstat env path = Some False then []
        else stale @ BindUnix path #
          (if sv_bind_ok env then SetMode path SOCKET_MODE (sv_chmod_ok env) # more else []))"
    using serve_endpoint_unix by blast
  ultimately show ?thesis using acts rest by auto
qed

lemma serve_spawned_chmod:
  "spawned (fst (serve (env\<lparr>sv_chmod_ok := ok\<rparr>) config)) = spawned (fst (serve env config))"
proof -
  have "snd (serve_endpoint (env\<lparr>sv_chmod_ok := ok\<rparr>) ep) = snd (serve_endpoint env ep) \<and>
      spawned (fst (serve_endpoint (env\<lparr>sv_chmod_ok := ok\<rparr>) ep)) = spawned (fst (serve_endpoint env ep))" for ep
    by (auto simp: serve_endpoint_def Let_def split: endpoint.split prod.split)
  moreover have "spawned (fst (serve e config)) =
      (if refused_addr config = None then spawned (fst (serve_endpoint e (dc_endpoint config))) else [])" for e
    using serve_prefix [of e config] by auto
  ultimately show ?thesis by simp
qed

text \<open>The removal at shutdown does not look at what it removes.\<close>

lemma shutdown_removal_unchecked:
  assumes "dc_endpoint config = Unix path" "sv_lstat env path \<noteq> Some False" "sv_bind_ok env" "Shutdown \<in> set (sv_events env)"
  shows "RemoveFile path (sv_at_exit env path) \<in> set (fst (serve env config))"
proof -
  obtain acts where "accept_loop (sv_events env) = (acts, Some ())"
    using assms(4) accept_loop_end [of "sv_events env"] by (cases "accept_loop (sv_events env)") auto
  with assms show ?thesis
    by (simp add: serve_def refused_addr_def serve_endpoint_def accept_loop_unix_def Let_def)
qed

section \<open>Properties\<close>

text \<open>
  However sessions attach and detach, no two of them ever hold the guard of the same device, and
  the table records exactly the devices that are held, each with the label of its holder.
\<close>

theorem one_session_per_device:
  assumes "attach_init x" "attach_step\<^sup>*\<^sup>* x y"
  shows "(aw_guards y i = Some (AttachGuard b, p) \<and> aw_guards y j = Some (AttachGuard b, q) \<longrightarrow> i = j) \<and>
     (ds_attached (aw_state y) b = Some p \<longleftrightarrow> (\<exists>i. aw_guards y i = Some (AttachGuard b, p)))"
proof -
  from att.invar_reachable [OF assms] have inv: "attach_invar y" .
  have "i = j" if "aw_guards y i = Some (AttachGuard b, p)" "aw_guards y j = Some (AttachGuard b, q)"
    using inv that unfolding attach_invar_def by blast
  moreover have "ds_attached (aw_state y) b = Some p \<longleftrightarrow> (\<exists>i. aw_guards y i = Some (AttachGuard b, p))"
    using inv unfolding attach_invar_def by blast
  ultimately show ?thesis by blast
qed

theorem one_session_per_device_witness:
  "\<exists>y. attach_step\<^sup>*\<^sup>* \<lparr>aw_state = daemon_state_new AllowAll, aw_guards = Map.empty\<rparr> y \<and>
     ds_attached (aw_state y) (lit ''01-1'') = Some (lit ''tcp:a'') \<and>
     (\<exists>i. aw_guards y i = Some (AttachGuard (lit ''01-1''), lit ''tcp:a''))"
proof -
  define b p where "b = lit ''01-1''" and "p = lit ''tcp:a''"
  let ?x = "\<lparr>aw_state = daemon_state_new AllowAll, aw_guards = Map.empty\<rparr>"
  let ?st = "(daemon_state_new AllowAll)\<lparr>ds_attached := [b \<mapsto> p]\<rparr>"
  let ?y = "\<lparr>aw_state = ?st, aw_guards = (aw_guards ?x)(0 \<mapsto> (AttachGuard b, p))\<rparr>"
  have init: "attach_init ?x" by (simp add: attach_init_def daemon_state_new_def)
  have "try_attach b p (aw_state ?x) = (Some (AttachGuard b), ?st)"
    by (simp add: try_attach_def daemon_state_new_def)
  then have "attach_step ?x ?y" by (intro Attach) simp
  then have run: "attach_step\<^sup>*\<^sup>* ?x ?y" by (rule r_into_rtranclp)
  have st: "ds_attached (aw_state ?y) b = Some p" by simp
  with one_session_per_device [OF init run] have "\<exists>i. aw_guards ?y i = Some (AttachGuard b, p)" by blast
  with run st show ?thesis unfolding b_def p_def by blast
qed

text \<open>
  C30: The front door of the daemon. A TCP address other than loopback is bound only with the explicit
  permission to do so. The only file ever removed is the socket path of the configuration: before the
  bind only if a socket lies there, and if something else lies there nothing is done at all; after
  that only by a shutdown, which takes whatever lies there then. On a unix socket no session
  starts before the daemon has tried to restrict the socket's mode to its owner; where that fails, it
  serves the same connections all the same.
\<close>

theorem serve_guards:
  "(BindTcp addr \<in> set (fst (serve env config)) \<longrightarrow>
      is_loopback addr \<or> dc_allow_public_bind config) \<and>
   (RemoveFile p entry \<in> set (fst (serve env config)) \<longrightarrow>
      dc_endpoint config = Unix p \<and>
      (entry = Some True \<and> sv_lstat env p = Some True \<or> entry = sv_at_exit env p \<and> Shutdown \<in> set (sv_events env))) \<and>
   (dc_endpoint config = Unix path \<longrightarrow>
      (sv_lstat env path = Some False \<longrightarrow> serve env config = ([], Some (Inl (NotASocket path)))) \<and>
      set (takeWhile (\<lambda>a. a \<noteq> BindUnix path) (fst (serve env config))) \<subseteq> {RemoveFile path (Some True)} \<and>
      (SpawnSession peer \<in> set (fst (serve env config)) \<longrightarrow>
         SetMode path SOCKET_MODE (sv_chmod_ok env) \<in>
           set (takeWhile (\<lambda>a. a \<noteq> SpawnSession peer) (fst (serve env config))))) \<and>
   spawned (fst (serve (env\<lparr>sv_chmod_ok := ok\<rparr>) config)) = spawned (fst (serve env config))"
proof -
  obtain rest where acts: "fst (serve env config) =
      (if refused_addr config = None then fst (serve_endpoint env (dc_endpoint config)) else []) @ rest"
    and rest: "rest = [] \<or> rest = map ReleaseCapture (sv_attached env)"
    using serve_prefix by blast
  have bound: "is_loopback addr \<or> dc_allow_public_bind config"
    if "BindTcp addr \<in> set (fst (serve env config))"
    using that acts rest serve_endpoint_actions [of "BindTcp addr" env "dc_endpoint config"]
    by (auto simp: refused_addr_def split: if_splits)
  have removed: "dc_endpoint config = Unix p \<and>
      (entry = Some True \<and> sv_lstat env p = Some True \<or> entry = sv_at_exit env p \<and> Shutdown \<in> set (sv_events env))"
    if "RemoveFile p entry \<in> set (fst (serve env config))"
    using that acts rest serve_endpoint_actions [of "RemoveFile p entry" env "dc_endpoint config"]
    by (auto split: if_splits)
  have unix: "(sv_lstat env path = Some False \<longrightarrow> serve env config = ([], Some (Inl (NotASocket path)))) \<and>
      set (takeWhile (\<lambda>a. a \<noteq> BindUnix path) (fst (serve env config))) \<subseteq> {RemoveFile path (Some True)} \<and>
      (SpawnSession peer \<in> set (fst (serve env config)) \<longrightarrow>
         SetMode path SOCKET_MODE (sv_chmod_ok env) \<in>
           set (takeWhile (\<lambda>a. a \<noteq> SpawnSession peer) (fst (serve env config))))"
    if "dc_endpoint config = Unix path"
    by (rule serve_unix [OF that])
  from bound removed unix serve_spawned_chmod [of ok env config] show ?thesis by blast
qed

theorem serve_guards_witness:
  "fst (serve \<lparr>sv_lstat = \<lambda>_. Some True, sv_bind_ok = True, sv_chmod_ok = True,
       sv_events = [Accepted (lit ''x''), Shutdown], sv_at_exit = \<lambda>_. Some False, sv_attached = [lit ''01-1'']\<rparr>
     \<lparr>dc_endpoint = Unix (lit ''/s''), dc_policy = DenyAll, dc_allow_public_bind = False\<rparr>) =
     [RemoveFile (lit ''/s'') (Some True), BindUnix (lit ''/s''), SetMode (lit ''/s'') SOCKET_MODE True,
      SpawnSession (lit ''x''), RemoveFile (lit ''/s'') (Some False), ReleaseCapture (lit ''01-1'')] \<and>
   SetMode (lit ''/s'') SOCKET_MODE True \<in> set (takeWhile (\<lambda>a. a \<noteq> SpawnSession (lit ''x''))
     (fst (serve \<lparr>sv_lstat = \<lambda>_. Some True, sv_bind_ok = True, sv_chmod_ok = True,
       sv_events = [Accepted (lit ''x''), Shutdown], sv_at_exit = \<lambda>_. Some False, sv_attached = [lit ''01-1'']\<rparr>
     \<lparr>dc_endpoint = Unix (lit ''/s''), dc_policy = DenyAll, dc_allow_public_bind = False\<rparr>)))"
proof -
  let ?env = "\<lparr>sv_lstat = \<lambda>_. Some True, sv_bind_ok = True, sv_chmod_ok = True,
       sv_events = [Accepted (lit ''x''), Shutdown], sv_at_exit = \<lambda>_. Some False, sv_attached = [lit ''01-1'']\<rparr>"
  let ?config = "\<lparr>dc_endpoint = Unix (lit ''/s''), dc_policy = DenyAll, dc_allow_public_bind = False\<rparr>"
  have run: "fst (serve ?env ?config) =
     [RemoveFile (lit ''/s'') (Some True), BindUnix (lit ''/s''), SetMode (lit ''/s'') SOCKET_MODE True,
      SpawnSession (lit ''x''), RemoveFile (lit ''/s'') (Some False), ReleaseCapture (lit ''01-1'')]"
    by (simp add: serve_def refused_addr_def serve_endpoint_def accept_loop_unix_def)
  have "SpawnSession (lit ''x'') \<in> set (fst (serve ?env ?config))" unfolding run by simp
  with run serve_guards [where env = ?env and config = ?config and path = "lit ''/s''" and peer = "lit ''x''"]
  show ?thesis by simp
qed

text \<open>
  Once bound, the daemon serves exactly the connections accepted before the first shutdown
  request, in order, and a shutdown request always ends it, after a release of every device that is
  still attached.
\<close>

theorem serve_until_shutdown:
  assumes "sv_bind_ok env" "refused_addr config = None"
    and "\<And>path. dc_endpoint config = Unix path \<Longrightarrow> sv_lstat env path \<noteq> Some False"
  shows "spawned (fst (serve env config)) = accepted (takeWhile (\<lambda>e. e \<noteq> Shutdown) (sv_events env)) \<and>
     (if Shutdown \<in> set (sv_events env)
      then snd (serve env config) = Some (Inr ()) \<and>
        (\<exists>acts. fst (serve env config) = acts @ map ReleaseCapture (sv_attached env))
      else snd (serve env config) = None)"
proof -
  obtain acts r where a: "accept_loop (sv_events env) = (acts, r)" by (cases "accept_loop (sv_events env)")
  have r: "r = (if Shutdown \<in> set (sv_events env) then Some () else None)"
    and sp: "spawned acts = accepted (takeWhile (\<lambda>e. e \<noteq> Shutdown) (sv_events env))"
    using accept_loop_end [of "sv_events env"] accept_loop_spawned [of "sv_events env"] a by simp_all
  show ?thesis
  proof (cases "dc_endpoint config")
    case (Tcp addr)
    with assms a r sp show ?thesis by (auto simp: serve_def serve_endpoint_def)
  next
    case (Unix path)
    with assms a r sp show ?thesis
      by (cases "sv_lstat env path")
        (auto simp: serve_def serve_endpoint_def accept_loop_unix_def Let_def)
  qed
qed

theorem serve_until_shutdown_witness:
  "spawned (fst (serve
     \<lparr>sv_lstat = \<lambda>_. Some True, sv_bind_ok = True, sv_chmod_ok = True,
      sv_events = [Accepted (lit ''a''), AcceptFailed, Shutdown, Accepted (lit ''b'')], sv_at_exit = \<lambda>_. Some True,
      sv_attached = [lit ''01-1'']\<rparr>
     \<lparr>dc_endpoint = Unix (lit ''/s''), dc_policy = DenyAll, dc_allow_public_bind = False\<rparr>)) = [lit ''a'']"
  by (subst serve_until_shutdown [THEN conjunct1])
    (simp_all add: refused_addr_def accepted_def List.map_filter_def)

end
