(* ===== verification/Wire_Codec.thy ===== *)
theory Wire_Codec
  imports Prelude
begin

text \<open>
  The interface of a fixed-size wire message: an encoder that appends a constant number of bytes
  and a decoder that reads them off the front of a buffer, answers \<open>ShortRead\<close> on a shorter
  one and never panics. Each message type of the protocol crate is an instance, interpreted where
  it is defined; what follows from the laws alone is proved once here.
\<close>

datatype proto_error =
    ShortRead (need: nat) (got: nat)
  | UnknownOp u16
  | UnsupportedVersion u16

type_synonym 'a decoder = "bytes \<Rightarrow> (proto_error + 'a) option"

locale fixed_encoder =
  fixes wf :: "'a \<Rightarrow> bool"
    and enc :: "'a \<Rightarrow> bytes"
    and sz :: nat
  assumes enc_length: "wf x \<Longrightarrow> length (enc x) = sz"
begin

lemma enc_all_length: "list_all wf xs \<Longrightarrow> length (concat (map enc xs)) = sz * length xs"
  by (induction xs) (auto simp: enc_length)

end

locale wire_codec = fixed_encoder +
  fixes dec :: "bytes \<Rightarrow> (proto_error + 'a) option"
  assumes dec_short: "length buf < sz \<Longrightarrow> dec buf = Some (Inl (ShortRead sz (length buf)))"
    and dec_enc: "wf x \<Longrightarrow> dec (enc x @ rest) = Some (Inr x)"
    and dec_total: "sz \<le> length buf \<Longrightarrow> \<exists>x. wf x \<and> dec buf = Some (Inr x)"
begin

lemma dec_no_panic: "dec buf \<noteq> None"
  using dec_short [of buf] dec_total [of buf] by (cases "length buf < sz") auto

lemma dec_error_iff:
  "dec buf = Some (Inl e) \<longleftrightarrow> length buf < sz \<and> e = ShortRead sz (length buf)"
  using dec_short [of buf] dec_total [of buf] by (cases "length buf < sz") auto

lemma dec_wf: "dec buf = Some (Inr x) \<Longrightarrow> wf x"
  using dec_short [of buf] dec_total [of buf] by (cases "length buf < sz") auto

lemma enc_prefix_inject:
  assumes "wf x" "wf y" and eq: "enc x @ r = enc y @ s"
  shows "x = y \<and> r = s"
proof -
  from dec_enc [OF \<open>wf x\<close>, of r] dec_enc [OF \<open>wf y\<close>, of s] eq have "x = y" by simp
  with eq show ?thesis by simp
qed

text \<open>A concatenation of messages determines the messages.\<close>

lemma enc_all_inject:
  "list_all wf xs \<Longrightarrow> list_all wf ys \<Longrightarrow> length xs = length ys \<Longrightarrow>
   concat (map enc xs) @ r = concat (map enc ys) @ s \<Longrightarrow> xs = ys \<and> r = s"
proof (induction xs arbitrary: ys)
  case (Cons x xs)
  then obtain y zs where ys: "ys = y # zs" by (cases ys) auto
  from Cons.prems ys have "x = y \<and> concat (map enc xs) @ r = concat (map enc zs) @ s"
    by (intro enc_prefix_inject) auto
  with Cons ys show ?case by auto
qed simp

end

text \<open>A codec without padding: the decoded value encodes back to the very bytes it was read from.\<close>

locale exact_codec = wire_codec +
  assumes enc_dec: "dec buf = Some (Inr x) \<Longrightarrow> enc x = take sz buf"
begin

lemma dec_depends_on_prefix:
  assumes "take sz a = take sz b" "dec a = Some (Inr x)" "dec b = Some (Inr y)"
  shows "x = y"
  using enc_prefix_inject [of x y "[]" "[]"] assms enc_dec dec_wf by simp

end

end
