(* ===== verification/Proto_Op.thy ===== *)
theory Proto_Op
  imports Wire_Codec Rust_Str
begin

text \<open>
  The op messages of the protocol crate (\<^verbatim>\<open>usbip-proto/src/op.rs\<close>): the 8-byte op header, the
  exported device and interface records of \<^verbatim>\<open>OP_REP_DEVLIST\<close>, and the import request and replies.
  An \<^verbatim>\<open>encode\<close> of the source appends to a vector; its model returns the appended bytes.
\<close>

section \<open>Op header\<close>

definition USBIP_VERSION :: u16 where "USBIP_VERSION = 0x0111"
definition OP_REQ_DEVLIST :: u16 where "OP_REQ_DEVLIST = 0x8005"
definition OP_REP_DEVLIST :: u16 where "OP_REP_DEVLIST = 0x0005"
definition OP_REQ_IMPORT :: u16 where "OP_REQ_IMPORT = 0x8003"
definition OP_REP_IMPORT :: u16 where "OP_REP_IMPORT = 0x0003"

lemmas op_codes =
  USBIP_VERSION_def OP_REQ_DEVLIST_def OP_REP_DEVLIST_def OP_REQ_IMPORT_def OP_REP_IMPORT_def

record op_header =
  op_version :: u16
  op_code :: u16
  op_status :: u32

definition op_header_new :: "u16 \<Rightarrow> op_header" where
  "op_header_new code = \<lparr>op_version = USBIP_VERSION, op_code = code, op_status = 0\<rparr>"

definition op_header_encode :: "op_header \<Rightarrow> bytes" where
  "op_header_encode h =
     to_be_bytes16 (op_version h) @ to_be_bytes16 (op_code h) @ to_be_bytes32 (op_status h)"

definition op_header_decode :: "op_header decoder" where
  "op_header_decode buf =
     (if length buf < 8 then Some (Inl (ShortRead 8 (length buf)))
      else do {
        version \<leftarrow> be16_at buf 0;
        code \<leftarrow> be16_at buf 2;
        status \<leftarrow> be32_at buf 4;
        Some (Inr \<lparr>op_version = version, op_code = code, op_status = status\<rparr>)
      })"

section \<open>Exported interfaces and devices\<close>

record exported_interface =
  ei_class :: u8
  ei_subclass :: u8
  ei_protocol :: u8

definition exported_interface_encode :: "exported_interface \<Rightarrow> bytes" where
  "exported_interface_encode i = [ei_class i, ei_subclass i, ei_protocol i, 0]"

definition exported_interface_decode :: "exported_interface decoder" where
  "exported_interface_decode buf =
     (if length buf < 4 then Some (Inl (ShortRead 4 (length buf)))
      else do {
        c \<leftarrow> idx buf 0;
        s \<leftarrow> idx buf 1;
        p \<leftarrow> idx buf 2;
        Some (Inr \<lparr>ei_class = c, ei_subclass = s, ei_protocol = p\<rparr>)
      })"

record exported_device =
  ed_path :: rstr
  ed_busid :: rstr
  ed_busnum :: u32
  ed_devnum :: u32
  ed_speed :: u32
  ed_id_vendor :: u16
  ed_id_product :: u16
  ed_bcd_device :: u16
  ed_device_class :: u8
  ed_device_subclass :: u8
  ed_device_protocol :: u8
  ed_configuration_value :: u8
  ed_num_configurations :: u8
  ed_interfaces :: "exported_interface list"

definition HEADER_SIZE :: nat where
  "HEADER_SIZE = 256 + 32 + 4 + 4 + 4 + 2 + 2 + 2 + 1 + 1 + 1 + 1 + 1 + 1"

definition write_fixed_str :: "rstr \<Rightarrow> nat \<Rightarrow> bytes" where
  "write_fixed_str s width =
     (let k = min (length s) width in take k s @ replicate (width - k) 0)"

definition read_fixed_str :: "bytes \<Rightarrow> rstr" where
  "read_fixed_str buf = from_utf8_lossy (takeWhile (\<lambda>b. b \<noteq> 0) buf)"

definition exported_device_encode :: "exported_device \<Rightarrow> bytes" where
  "exported_device_encode d =
     write_fixed_str (ed_path d) 256 @
     write_fixed_str (ed_busid d) 32 @
     to_be_bytes32 (ed_busnum d) @
     to_be_bytes32 (ed_devnum d) @
     to_be_bytes32 (ed_speed d) @
     to_be_bytes16 (ed_id_vendor d) @
     to_be_bytes16 (ed_id_product d) @
     to_be_bytes16 (ed_bcd_device d) @
     [ed_device_class d, ed_device_subclass d, ed_device_protocol d,
      ed_configuration_value d, ed_num_configurations d,
      u8_of_usize (length (ed_interfaces d))] @
     concat (map exported_interface_encode (ed_interfaces d))"

definition encode_header_only :: "exported_device \<Rightarrow> bytes" where
  "encode_header_only d =
     write_fixed_str (ed_path d) 256 @
     write_fixed_str (ed_busid d) 32 @
     to_be_bytes32 (ed_busnum d) @
     to_be_bytes32 (ed_devnum d) @
     to_be_bytes32 (ed_speed d) @
     to_be_bytes16 (ed_id_vendor d) @
     to_be_bytes16 (ed_id_product d) @
     to_be_bytes16 (ed_bcd_device d) @
     [ed_device_class d, ed_device_subclass d, ed_device_protocol d,
      ed_configuration_value d, ed_num_configurations d,
      u8_of_usize (length (ed_interfaces d))]"

text \<open>The offset-advancing readers of the source return the value and the new offset.\<close>

definition read_u16 :: "bytes \<Rightarrow> nat \<Rightarrow> (u16 \<times> nat) option" where
  "read_u16 buf off = do { v \<leftarrow> be16_at buf off; Some (v, off + 2) }"

definition read_u32 :: "bytes \<Rightarrow> nat \<Rightarrow> (u32 \<times> nat) option" where
  "read_u32 buf off = do { v \<leftarrow> be32_at buf off; Some (v, off + 4) }"

fun read_interfaces ::
  "nat \<Rightarrow> bytes \<Rightarrow> nat \<Rightarrow> (proto_error + exported_interface list \<times> nat) option" where
  "read_interfaces 0 buf off = Some (Inr ([], off))"
| "read_interfaces (Suc n) buf off = do {
     window \<leftarrow> slice buf off (off + 4);
     r \<leftarrow> exported_interface_decode window;
     (case r of
        Inl e \<Rightarrow> Some (Inl e)
      | Inr i \<Rightarrow> do {
          q \<leftarrow> read_interfaces n buf (off + 4);
          (case q of
             Inl e \<Rightarrow> Some (Inl e)
           | Inr (is, off') \<Rightarrow> Some (Inr (i # is, off'))) }) }"

definition exported_device_decode :: "bytes \<Rightarrow> (proto_error + exported_device \<times> nat) option" where
  "exported_device_decode buf =
     (if length buf < HEADER_SIZE then Some (Inl (ShortRead HEADER_SIZE (length buf)))
      else do {
        path \<leftarrow> map_option read_fixed_str (slice buf 0 256);
        busid \<leftarrow> map_option read_fixed_str (slice buf 256 288);
        (busnum, off) \<leftarrow> read_u32 buf 288;
        (devnum, off) \<leftarrow> read_u32 buf off;
        (speed, off) \<leftarrow> read_u32 buf off;
        (id_vendor, off) \<leftarrow> read_u16 buf off;
        (id_product, off) \<leftarrow> read_u16 buf off;
        (bcd_device, off) \<leftarrow> read_u16 buf off;
        cls \<leftarrow> idx buf off;
        subclass \<leftarrow> idx buf (off + 1);
        protocol \<leftarrow> idx buf (off + 2);
        configuration_value \<leftarrow> idx buf (off + 3);
        num_configurations \<leftarrow> idx buf (off + 4);
        n_ifaces \<leftarrow> map_option unat (idx buf (off + 5));
        let off = off + 6; need = n_ifaces * 4 in
        if length buf < off + need then Some (Inl (ShortRead (off + need) (length buf)))
        else do {
          r \<leftarrow> read_interfaces n_ifaces buf off;
          (case r of
             Inl e \<Rightarrow> Some (Inl e)
           | Inr (interfaces, off') \<Rightarrow>
               Some (Inr (\<lparr>ed_path = path, ed_busid = busid, ed_busnum = busnum,
                           ed_devnum = devnum, ed_speed = speed, ed_id_vendor = id_vendor,
                           ed_id_product = id_product, ed_bcd_device = bcd_device,
                           ed_device_class = cls, ed_device_subclass = subclass,
                           ed_device_protocol = protocol,
                           ed_configuration_value = configuration_value,
                           ed_num_configurations = num_configurations,
                           ed_interfaces = interfaces\<rparr>, off'))) }
      })"

section \<open>Import request and replies\<close>

definition decode_req_import_busid :: "rstr decoder" where
  "decode_req_import_busid buf =
     (if length buf < 32 then Some (Inl (ShortRead 32 (length buf)))
      else do { field \<leftarrow> slice buf 0 32; Some (Inr (read_fixed_str field)) })"

definition encode_rep_import_ok :: "exported_device \<Rightarrow> bytes" where
  "encode_rep_import_ok dev =
     op_header_encode (op_header_new OP_REP_IMPORT) @ encode_header_only dev"

definition encode_rep_import_err :: bytes where
  "encode_rep_import_err =
     op_header_encode \<lparr>op_version = USBIP_VERSION, op_code = OP_REP_IMPORT, op_status = 1\<rparr>"

section \<open>The fixed-size messages are codecs\<close>

lemma op_header_dec_enc: "op_header_decode (op_header_encode h @ rest) = Some (Inr h)"
  by (simp add: op_header_decode_def op_header_encode_def wire_simps)

interpretation op_hdr: exact_codec "\<lambda>_. True" op_header_encode 8 op_header_decode
proof unfold_locales
  fix buf x assume "op_header_decode buf = Some (Inr x)"
  then show "op_header_encode x = take 8 buf"
    by (auto simp: op_header_decode_def op_header_encode_def bind_eq_Some_conv field_bytes
        wire_simps split: if_splits)
next
  fix x rest
  show "op_header_decode (op_header_encode x @ rest) = Some (Inr x)" by (rule op_header_dec_enc)
qed (auto simp: op_header_encode_def op_header_decode_def be16_at_Some be32_at_Some)

interpretation exp_iface: wire_codec "\<lambda>_. True" exported_interface_encode 4 exported_interface_decode
  by unfold_locales
    (auto simp: exported_interface_encode_def exported_interface_decode_def idx_def)

section \<open>Fixed-width strings\<close>

definition clip_field :: "nat \<Rightarrow> rstr \<Rightarrow> rstr" where
  "clip_field width s = from_utf8_lossy (takeWhile (\<lambda>b. b \<noteq> 0) (take width s))"

definition fits_field :: "nat \<Rightarrow> rstr \<Rightarrow> bool" where
  "fits_field width s \<longleftrightarrow> length s \<le> width \<and> 0 \<notin> set s \<and> utf8_valid s"

lemma write_fixed_str_eq: "write_fixed_str s w = take w s @ replicate (w - length s) 0"
  by (simp add: write_fixed_str_def Let_def min_def)

lemma length_write_fixed_str [simp]: "length (write_fixed_str s w) = w"
  by (simp add: write_fixed_str_eq)

lemma takeWhile_replicate_pad:
  "takeWhile (\<lambda>b. b \<noteq> 0) (xs @ replicate n (0 :: u8)) = takeWhile (\<lambda>b. b \<noteq> 0) xs"
proof (induction xs)
  case Nil
  show ?case by (cases n) simp_all
qed simp

lemma read_write_fixed_str: "read_fixed_str (write_fixed_str s w) = clip_field w s"
  by (simp add: read_fixed_str_def write_fixed_str_eq clip_field_def takeWhile_replicate_pad)

lemma clip_field_fits: "fits_field w s \<Longrightarrow> clip_field w s = s"
proof -
  assume s: "fits_field w s"
  then have "takeWhile (\<lambda>b. b \<noteq> 0) s = s" by (auto simp: fits_field_def takeWhile_eq_all_conv)
  with s show ?thesis 
    by (simp add: clip_field_def fits_field_def from_utf8_lossy_id del: takeWhile_eq_all_conv)
qed

lemma read_fixed_str_clean: "utf8_valid (read_fixed_str b)" "0 \<notin> set (read_fixed_str b)"
  unfolding read_fixed_str_def
  by (auto simp: from_utf8_lossy_valid dest!: from_utf8_lossy_zero set_takeWhileD)

lemma clip_field_valid: "utf8_valid (clip_field w s)"
  by (simp add: clip_field_def from_utf8_lossy_valid)

section \<open>Device records\<close>

lemma HEADER_SIZE_eq [simp]: "HEADER_SIZE = 312"
  by (simp add: HEADER_SIZE_def)

lemma length_encode_header_only [simp]: "length (encode_header_only d) = 312"
  by (simp add: encode_header_only_def)

lemma exported_device_encode_split:
  "exported_device_encode d =
     encode_header_only d @ concat (map exported_interface_encode (ed_interfaces d))"
  by (simp add: exported_device_encode_def encode_header_only_def)

lemma length_exported_device_encode:
  "length (exported_device_encode d) = 312 + 4 * length (ed_interfaces d)"
  by (simp add: exported_device_encode_split exp_iface.enc_all_length list_all_iff)

lemma read_interfaces_enc:
  "length xs = off \<Longrightarrow>
   read_interfaces (length is) (xs @ concat (map exported_interface_encode is) @ rest) off =
     Some (Inr (is, off + 4 * length is))"
proof (induction "is" arbitrary: xs off)
  case (Cons i "is")
  let ?e = exported_interface_encode
  have len: "length (?e i) = 4" by (simp add: exp_iface.enc_length)
  have win: "slice (xs @ ?e i @ concat (map ?e is) @ rest) off (off + 4) = Some (?e i)"
    using Cons.prems len by (intro slice_skip) auto
  have "length (xs @ ?e i) = off + 4" using Cons.prems len by simp
  from Cons.IH [OF this] have
    "read_interfaces (length is) (xs @ ?e i @ concat (map ?e is) @ rest) (off + 4) =
       Some (Inr (is, off + 4 + 4 * length is))"
    by simp
  with win exp_iface.dec_enc [of i "[]"] show ?case by simp
qed simp

lemma read_interfaces_total:
  "off + 4 * n \<le> length buf \<Longrightarrow>
   \<exists>is. length is = n \<and> read_interfaces n buf off = Some (Inr (is, off + 4 * n))"
proof (induction n arbitrary: off)
  case (Suc n)
  then have win: "slice buf off (off + 4) = Some (take 4 (drop off buf))"
    and len: "4 \<le> length (take 4 (drop off buf))"
    by (auto simp: slice_def)
  from exp_iface.dec_total [OF len] obtain i where
    i: "exported_interface_decode (take 4 (drop off buf)) = Some (Inr i)" by auto
  from Suc obtain "is" where "length is = n"
    "read_interfaces n buf (off + 4) = Some (Inr (is, off + 4 + 4 * n))"
    by (metis (no_types, lifting) add.assoc mult_Suc_right)
  with win i show ?case by (auto intro!: exI [of _ "i # is"])
qed simp

text \<open>
  What a client reads back from an encoded record: the two string fields as the fixed widths clip
  them and the interfaces that the one-byte count covers.
\<close>

definition clip_device :: "exported_device \<Rightarrow> exported_device" where
  "clip_device d =
     d\<lparr>ed_path := clip_field 256 (ed_path d), ed_busid := clip_field 32 (ed_busid d),
       ed_interfaces := take 255 (ed_interfaces d)\<rparr>"

definition fits_device :: "exported_device \<Rightarrow> bool" where
  "fits_device d \<longleftrightarrow>
     fits_field 256 (ed_path d) \<and> fits_field 32 (ed_busid d) \<and> length (ed_interfaces d) \<le> 255"

lemma clip_device_fits: "fits_device d \<Longrightarrow> clip_device d = d"
  by (simp add: clip_device_def fits_device_def clip_field_fits)

lemma exported_device_decode_encode:
  "exported_device_decode (exported_device_encode d @ rest) =
     Some (Inr (clip_device d, 312 + 4 * min (length (ed_interfaces d)) 255))"
proof -
  let ?n = "min (length (ed_interfaces d)) 255"
  let ?enc = "\<lambda>is. concat (map exported_interface_encode is)"
  let ?ifs = "?enc (ed_interfaces d)" and ?front = "take 255 (ed_interfaces d)"
  let ?buf = "encode_header_only d @ ?ifs @ rest"
  have len: "length ?ifs = 4 * length (ed_interfaces d)"
    by (simp add: exp_iface.enc_all_length list_all_iff)
  have "?ifs = ?enc ?front @ ?enc (drop 255 (ed_interfaces d))"
    by (simp flip: concat_append map_append)
  then have split: "?buf = encode_header_only d @ ?enc ?front @ (?enc (drop 255 (ed_interfaces d)) @ rest)"
    by simp
  have ifs: "read_interfaces ?n ?buf 312 = Some (Inr (?front, 312 + 4 * ?n))"
    using read_interfaces_enc [of "encode_header_only d" 312 ?front] by (simp add: split)
  have path: "slice ?buf 0 256 = Some (write_fixed_str (ed_path d) 256)"
    by (simp add: slice_def encode_header_only_def)
  have busid: "slice ?buf 256 288 = Some (write_fixed_str (ed_busid d) 32)"
    by (simp add: slice_def encode_header_only_def)
  have fields:
    "be32_at ?buf 288 = Some (ed_busnum d)" "be32_at ?buf 292 = Some (ed_devnum d)"
    "be32_at ?buf 296 = Some (ed_speed d)" "be16_at ?buf 300 = Some (ed_id_vendor d)"
    "be16_at ?buf 302 = Some (ed_id_product d)" "be16_at ?buf 304 = Some (ed_bcd_device d)"
    "idx ?buf 306 = Some (ed_device_class d)" "idx ?buf 307 = Some (ed_device_subclass d)"
    "idx ?buf 308 = Some (ed_device_protocol d)" "idx ?buf 309 = Some (ed_configuration_value d)"
    "idx ?buf 310 = Some (ed_num_configurations d)"
    "idx ?buf 311 = Some (u8_of_usize (length (ed_interfaces d)))"
    by (simp_all add: encode_header_only_def wire_simps)
  have "exported_device_decode ?buf = Some (Inr (clip_device d, 312 + 4 * ?n))"
    using ifs
    by (simp add: exported_device_decode_def read_u32_def read_u16_def path busid fields len
        unat_u8_of_usize read_write_fixed_str Let_def clip_device_def)
  then show ?thesis by (simp add: exported_device_encode_split)
qed

text \<open>
  On an arbitrary buffer the decoder returns a record that lies inside the buffer or a short read
  that says how many bytes are missing; it never indexes out of range.
\<close>

lemma exported_device_decode_cases:
  "(\<exists>d. length (ed_interfaces d) \<le> 255 \<and> 312 + 4 * length (ed_interfaces d) \<le> length buf \<and>
       exported_device_decode buf = Some (Inr (d, 312 + 4 * length (ed_interfaces d)))) \<or>
   (\<exists>k. length buf < k \<and> exported_device_decode buf = Some (Inl (ShortRead k (length buf))))"
proof (cases "length buf < 312")
  case True
  then show ?thesis by (auto simp: exported_device_decode_def)
next
  case False
  then have len: "312 \<le> length buf" by simp
  let ?n = "unat (buf ! 311)"
  have n: "?n \<le> 255" using unsigned_less [of "buf ! 311", where ?'a = nat] by simp
  have eval: "be32_at buf i \<noteq> None" "be16_at buf i \<noteq> None" if "i \<le> 308" for i
    using that len by (auto simp: be32_at_Some be16_at_Some)
  show ?thesis
  proof (cases "length buf < 312 + 4 * ?n")
    case True
    with len show ?thesis
      by (auto simp: exported_device_decode_def read_u32_def read_u16_def slice_Some be32_at_Some
          be16_at_Some idx_Some Let_def mult.commute)
  next
    case False
    then obtain "is" where "length is = ?n"
      "read_interfaces ?n buf 312 = Some (Inr (is, 312 + 4 * ?n))"
      using read_interfaces_total [of 312 ?n buf] by auto
    with len False n show ?thesis
      by (auto simp: exported_device_decode_def read_u32_def read_u16_def slice_Some be32_at_Some
          be16_at_Some idx_Some Let_def mult.commute intro!: exI)
  qed
qed

section \<open>Properties\<close>

text \<open>
  C26: Encoding a device whose strings fit their fields and whose interfaces fit the one-byte count,
  and decoding it from the front of any longer buffer, gives the same device back and consumes
  exactly the bytes that were written.
\<close>

theorem exported_device_roundtrip:
  assumes "fits_device d"
  shows "exported_device_decode (exported_device_encode d @ rest) =
     Some (Inr (d, length (exported_device_encode d)))"
  using assms exported_device_decode_encode [of d rest]
  by (simp add: clip_device_fits length_exported_device_encode fits_device_def min_def)

definition sandisk :: exported_device where
  "sandisk =
     \<lparr>ed_path = lit ''/usbipd-darwin/01-1'', ed_busid = lit ''01-1'', ed_busnum = 1, ed_devnum = 1,
      ed_speed = 3, ed_id_vendor = 0x0781, ed_id_product = 0x5530, ed_bcd_device = 1,
      ed_device_class = 0, ed_device_subclass = 0, ed_device_protocol = 0,
      ed_configuration_value = 1, ed_num_configurations = 1,
      ed_interfaces = [\<lparr>ei_class = 8, ei_subclass = 6, ei_protocol = 0x50\<rparr>]\<rparr>"

theorem exported_device_roundtrip_witness:
  "fits_device sandisk \<and>
   exported_device_decode (exported_device_encode sandisk @ [1, 2]) =
     Some (Inr (sandisk, length (exported_device_encode sandisk)))"
proof -
  have f: "fits_device sandisk"
    by (simp add: fits_device_def fits_field_def sandisk_def)
  from f exported_device_roundtrip [OF f, of "[1, 2]"] show ?thesis by simp
qed

text \<open>
  With more than 255 interfaces the count byte saturates while every interface is still written:
  a reader stops early and the remaining bytes of the record run into the next one.
\<close>

theorem interface_count_saturation:
  assumes "255 < length (ed_interfaces d)"
  shows "\<exists>n. exported_device_decode (exported_device_encode d @ rest) = Some (Inr (clip_device d, n)) \<and>
     n + 4 \<le> length (exported_device_encode d)"
  using assms exported_device_decode_encode [of d rest]
  by (auto simp: length_exported_device_encode)

theorem interface_count_saturation_witness:
  "\<exists>n. exported_device_decode (exported_device_encode
       (sandisk\<lparr>ed_interfaces := replicate 256 \<lparr>ei_class = 8, ei_subclass = 6, ei_protocol = 0x50\<rparr>\<rparr>)) =
     Some (Inr (clip_device
       (sandisk\<lparr>ed_interfaces := replicate 256 \<lparr>ei_class = 8, ei_subclass = 6, ei_protocol = 0x50\<rparr>\<rparr>), n)) \<and>
     n = 1332"
proof -
  let ?d = "sandisk\<lparr>ed_interfaces := replicate 256 \<lparr>ei_class = 8, ei_subclass = 6, ei_protocol = 0x50\<rparr>\<rparr>"
  have "255 < length (ed_interfaces ?d)" by simp
  from interface_count_saturation [OF this, of "[]"] exported_device_decode_encode [of ?d "[]"]
  show ?thesis by auto
qed

text \<open>
  The import request carries any busid that fits its 32-byte field unchanged, and what the daemon
  extracts from an arbitrary field is always well-formed UTF-8 without a NUL byte.
\<close>

theorem import_busid_roundtrip:
  "(fits_field 32 s \<longrightarrow> decode_req_import_busid (write_fixed_str s 32 @ rest) = Some (Inr s)) \<and>
   (\<forall>busid. decode_req_import_busid buf = Some (Inr busid) \<longrightarrow>
      utf8_valid busid \<and> 0 \<notin> set busid)"
  using read_fixed_str_clean
  by (auto simp: decode_req_import_busid_def slice_def read_write_fixed_str clip_field_fits
      split: if_splits)

theorem import_busid_roundtrip_witness:
  "fits_field 32 (lit ''1-2.3'') \<and>
   decode_req_import_busid (write_fixed_str (lit ''1-2.3'') 32) = Some (Inr (lit ''1-2.3''))"
proof -
  have f: "fits_field 32 (lit ''1-2.3'')" by (simp add: fits_field_def)
  with import_busid_roundtrip [of "lit ''1-2.3''" "[]" "[]"] show ?thesis by simp
qed

text \<open>
  The two hand-written encoders of a device record agree: the header-only encoding of the import
  reply is the first 312 bytes of the full record, and a successful import reply is 320 bytes whose
  op header carries the current version, the import reply code and status 0, a failed one 8 bytes
  with status 1.
\<close>

theorem import_replies:
  "encode_header_only d = take 312 (exported_device_encode d) \<and>
   length (encode_rep_import_ok d) = 320 \<and>
   op_header_decode (encode_rep_import_ok d) =
     Some (Inr \<lparr>op_version = USBIP_VERSION, op_code = OP_REP_IMPORT, op_status = 0\<rparr>) \<and>
   drop 8 (encode_rep_import_ok d) = encode_header_only d \<and>
   length encode_rep_import_err = 8 \<and>
   op_header_decode encode_rep_import_err =
     Some (Inr \<lparr>op_version = USBIP_VERSION, op_code = OP_REP_IMPORT, op_status = 1\<rparr>)"
  using op_header_dec_enc [of "op_header_new OP_REP_IMPORT" "encode_header_only d"]
    op_header_dec_enc [of "\<lparr>op_version = USBIP_VERSION, op_code = OP_REP_IMPORT, op_status = 1\<rparr>" "[]"]
  by (simp add: exported_device_encode_split encode_rep_import_ok_def encode_rep_import_err_def
      op_hdr.enc_length op_header_new_def)

end
