(* ===== verification/Daemon_Session.thy ===== *)
theory Daemon_Session
  imports Daemon_Policy Proto_Op
begin

text \<open>
  One client connection up to the URB loop (\<^verbatim>\<open>usbipd/src/daemon.rs\<close>, lines 357 to 498 and 817 to 867):
  the op header, the device list, and the import with its checks, its attach guard and its reply.

  The read half is the bytes the client sends before it closes or breaks the connection; the write
  half records the bytes sent and may fail once the peer is gone. Enumeration and the host
  environment of \<^verbatim>\<open>OpenedDevice::open\<close> are parameters; the listing that the policy is checked against
  and the listing that \<^verbatim>\<open>open\<close> makes are two different ones.
\<close>

section \<open>Connections\<close>

datatype io_kind = UnexpectedEof | OtherIo

record reader =
  rd_bytes :: bytes
  rd_broken :: bool

record writer =
  wr_sent :: bytes
  wr_room :: "nat option"

definition read_exact :: "nat \<Rightarrow> reader \<Rightarrow> (io_kind + bytes) \<times> reader" where
  "read_exact n r =
     (if n \<le> length (rd_bytes r)
      then (Inr (take n (rd_bytes r)), r\<lparr>rd_bytes := drop n (rd_bytes r)\<rparr>)
      else (Inl (if rd_broken r then OtherIo else UnexpectedEof), r\<lparr>rd_bytes := []\<rparr>))"

definition write_all :: "bytes \<Rightarrow> writer \<Rightarrow> (io_kind + unit) \<times> writer" where
  "write_all bs w =
     (case wr_room w of
        None \<Rightarrow> (Inr (), w\<lparr>wr_sent := wr_sent w @ bs\<rparr>)
      | Some n \<Rightarrow>
          if length bs \<le> n then (Inr (), w\<lparr>wr_sent := wr_sent w @ bs, wr_room := Some (n - length bs)\<rparr>)
          else (Inl OtherIo, w\<lparr>wr_sent := wr_sent w @ take n bs, wr_room := Some 0\<rparr>))"

datatype session_error =
    ReadFailed io_kind
  | DecodeFailed proto_error
  | EnumerateFailed host_error
  | WriteFailed io_kind
  | JoinOpenFailed
  | DevidMismatch u32 u32
  | UnknownUrbCommand u32
  | Panicked

section \<open>Records on the wire\<close>

definition to_exported :: "usb_device \<Rightarrow> exported_device" where
  "to_exported d =
     \<lparr>ed_path = lit ''/usbipd-darwin/'' @ ud_busid d, ed_busid = ud_busid d, ed_busnum = ud_busnum d,
      ed_devnum = ud_devnum d, ed_speed = ud_speed d, ed_id_vendor = ud_vendor_id d,
      ed_id_product = ud_product_id d, ed_bcd_device = ud_bcd_device d,
      ed_device_class = ud_class d, ed_device_subclass = ud_subclass d,
      ed_device_protocol = ud_protocol d, ed_configuration_value = ud_configuration_value d,
      ed_num_configurations = ud_num_configurations d,
      ed_interfaces = map (\<lambda>i. \<lparr>ei_class = ui_class i, ei_subclass = ui_subclass i,
                                ei_protocol = ui_protocol i\<rparr>) (ud_interfaces d)\<rparr>"

definition encode_rep_devlist :: "usb_device list \<Rightarrow> bytes" where
  "encode_rep_devlist devices =
     (let exported = filter (\<lambda>d. ud_class d \<noteq> 0x09) devices;
          n = u32_of_usize (length exported)
      in op_header_encode (op_header_new OP_REP_DEVLIST) @ to_be_bytes32 n @
         concat (map (\<lambda>d. exported_device_encode (to_exported d)) exported))"

section \<open>Handlers\<close>

record 'w session_env =
  se_listing :: listing
  se_host :: host_env
  se_nusb :: "'w nusb"
  se_world :: 'w

record conn =
  cn_reader :: reader
  cn_writer :: writer
  cn_state :: daemon_state

datatype outcome =
    Done "session_error + unit"
  | EnterUrb usb_device opened_device attach_guard

definition handle_devlist :: "'w session_env \<Rightarrow> conn \<Rightarrow> outcome \<times> conn" where
  "handle_devlist env c =
     (case list_devices (se_listing env) of
        Inl e \<Rightarrow> (Done (Inl (EnumerateFailed e)), c)
      | Inr devices \<Rightarrow>
          let filtered = policy_filter (ds_policy (cn_state c)) devices;
              bytes = encode_rep_devlist filtered
          in (case write_all bytes (cn_writer c) of
                (Inl k, w) \<Rightarrow> (Done (Inl (WriteFailed k)), c\<lparr>cn_writer := w\<rparr>)
              | (Inr _, w) \<Rightarrow> (Done (Inr ()), c\<lparr>cn_writer := w\<rparr>)))"

definition send_import_err :: "conn \<Rightarrow> outcome \<times> conn" where
  "send_import_err c =
     (Done (Inr ()), c\<lparr>cn_writer := snd (write_all encode_rep_import_err (cn_writer c))\<rparr>)"

text \<open>The descriptor of the import reply: the listed one, updated from the opened device.\<close>

definition import_desc :: "usb_device \<Rightarrow> usb_device \<Rightarrow> usb_device" where
  "import_desc desc snap =
     desc\<lparr>ud_busid := ud_busid snap, ud_busnum := ud_busnum snap, ud_devnum := ud_devnum snap,
          ud_configuration_value := ud_configuration_value snap,
          ud_num_configurations := ud_num_configurations snap,
          ud_interfaces := if ud_interfaces snap = [] then ud_interfaces desc else ud_interfaces snap\<rparr>"

text \<open>
  The end of \<^verbatim>\<open>handle_import\<close>, from the attach on. A guard that is not handed on to the URB loop is
  dropped when the function returns.
\<close>

definition import_attached :: "'w session_env \<Rightarrow> rstr \<Rightarrow> usb_device \<Rightarrow> attach_guard \<Rightarrow> conn \<Rightarrow> outcome \<times> conn" where
  "import_attached env busid desc guard c =
     (let drop_guard = (\<lambda>c. c\<lparr>cn_state := attach_guard_drop guard (cn_state c)\<rparr>)
      in case snd (open_device (se_host env) busid) of
           None \<Rightarrow> (Done (Inl JoinOpenFailed), drop_guard c)
         | Some (Inl e) \<Rightarrow> (case send_import_err c of (r, c1) \<Rightarrow> (r, drop_guard c1))
         | Some (Inr opened) \<Rightarrow>
             let snap = descriptor_snapshot (se_nusb env) opened (se_world env);
                 desc' = import_desc desc snap
             in (case write_all (encode_rep_import_ok (to_exported desc')) (cn_writer c) of
                   (Inl k, w) \<Rightarrow> (Done (Inl (WriteFailed k)), drop_guard (c\<lparr>cn_writer := w\<rparr>))
                 | (Inr _, w) \<Rightarrow> (EnterUrb desc' opened guard, c\<lparr>cn_writer := w\<rparr>)))"

definition import_device :: "'w session_env \<Rightarrow> rstr \<Rightarrow> rstr \<Rightarrow> conn \<Rightarrow> outcome \<times> conn" where
  "import_device env peer busid c =
     (case list_devices (se_listing env) of
        Inl e \<Rightarrow> (Done (Inl (EnumerateFailed e)), c)
      | Inr devices \<Rightarrow>
          (case find (\<lambda>d. ud_busid d = busid) devices of
             None \<Rightarrow> send_import_err c
           | Some desc \<Rightarrow>
               if \<not> permits (ds_policy (cn_state c)) (ud_vendor_id desc) (ud_product_id desc)
               then send_import_err c
               else
                 (case try_attach busid peer (cn_state c) of
                    (None, st) \<Rightarrow> send_import_err (c\<lparr>cn_state := st\<rparr>)
                  | (Some guard, st) \<Rightarrow> import_attached env busid desc guard (c\<lparr>cn_state := st\<rparr>))))"

definition handle_import :: "'w session_env \<Rightarrow> rstr \<Rightarrow> conn \<Rightarrow> outcome \<times> conn" where
  "handle_import env peer c =
     (case read_exact 32 (cn_reader c) of
        (Inl k, r) \<Rightarrow> (Done (Inl (ReadFailed k)), c\<lparr>cn_reader := r\<rparr>)
      | (Inr busid_buf, r) \<Rightarrow>
          (case decode_req_import_busid busid_buf of
             None \<Rightarrow> (Done (Inl Panicked), c\<lparr>cn_reader := r\<rparr>)
           | Some (Inl e) \<Rightarrow> (Done (Inl (DecodeFailed e)), c\<lparr>cn_reader := r\<rparr>)
           | Some (Inr busid) \<Rightarrow> import_device env peer busid (c\<lparr>cn_reader := r\<rparr>)))"

definition handle_session :: "'w session_env \<Rightarrow> rstr \<Rightarrow> conn \<Rightarrow> outcome \<times> conn" where
  "handle_session env peer c =
     (case read_exact 8 (cn_reader c) of
        (Inl k, r) \<Rightarrow> (Done (Inl (ReadFailed k)), c\<lparr>cn_reader := r\<rparr>)
      | (Inr header_buf, r) \<Rightarrow>
          (case op_header_decode header_buf of
             None \<Rightarrow> (Done (Inl Panicked), c\<lparr>cn_reader := r\<rparr>)
           | Some (Inl e) \<Rightarrow> (Done (Inl (DecodeFailed e)), c\<lparr>cn_reader := r\<rparr>)
           | Some (Inr header) \<Rightarrow>
               if op_version header \<noteq> USBIP_VERSION then (Done (Inr ()), c\<lparr>cn_reader := r\<rparr>)
               else if op_code header = OP_REQ_DEVLIST then handle_devlist env (c\<lparr>cn_reader := r\<rparr>)
               else if op_code header = OP_REQ_IMPORT then handle_import env peer (c\<lparr>cn_reader := r\<rparr>)
               else (Done (Inr ()), c\<lparr>cn_reader := r\<rparr>)))"

section \<open>Connections\<close>

lemma read_exact_Inr:
  "read_exact n r = (Inr bs, r') \<Longrightarrow>
   n \<le> length (rd_bytes r) \<and> bs = take n (rd_bytes r) \<and> length bs = n \<and>
   rd_bytes r' = drop n (rd_bytes r) \<and> rd_broken r' = rd_broken r"
  by (auto simp: read_exact_def split: if_split_asm)

lemma read_exact_append:
  "rd_bytes r = bs @ rest \<Longrightarrow> length bs = n \<Longrightarrow> read_exact n r = (Inr bs, r\<lparr>rd_bytes := rest\<rparr>)"
  by (simp add: read_exact_def)

lemma write_all_open [simp]: "wr_room w = None \<Longrightarrow> write_all bs w = (Inr (), w\<lparr>wr_sent := wr_sent w @ bs\<rparr>)"
  by (simp add: write_all_def)

lemma write_all_Inr: "write_all bs w = (Inr u, w') \<Longrightarrow> wr_sent w' = wr_sent w @ bs"
  by (auto simp: write_all_def split: option.split_asm if_split_asm)

section \<open>The device list as a client reads it\<close>

fun client_devices :: "nat \<Rightarrow> bytes \<Rightarrow> (exported_device list \<times> bytes) option" where
  "client_devices 0 buf = Some ([], buf)"
| "client_devices (Suc n) buf =
     (case exported_device_decode buf of
        Some (Inr (d, used)) \<Rightarrow>
          (case client_devices n (drop used buf) of
             Some (ds, rest) \<Rightarrow> Some (d # ds, rest)
           | None \<Rightarrow> None)
      | _ \<Rightarrow> None)"

definition client_devlist :: "bytes \<Rightarrow> (exported_device list \<times> bytes) option" where
  "client_devlist buf =
     (case op_header_decode buf of
        Some (Inr h) \<Rightarrow>
          if h = op_header_new OP_REP_DEVLIST
          then (case be32_at buf 8 of Some n \<Rightarrow> client_devices (unat n) (drop 12 buf) | None \<Rightarrow> None)
          else None
      | _ \<Rightarrow> None)"

lemma client_devices_encoded:
  "\<forall>d \<in> set ds. length (ed_interfaces d) \<le> 255 \<Longrightarrow>
   client_devices (length ds) (concat (map exported_device_encode ds) @ rest) = Some (map clip_device ds, rest)"
proof (induction ds)
  case (Cons d ds)
  let ?more = "concat (map exported_device_encode ds) @ rest"
  from Cons.prems have "exported_device_decode (exported_device_encode d @ ?more) =
      Some (Inr (clip_device d, length (exported_device_encode d)))"
    using exported_device_decode_encode [of d ?more]
    by (simp add: length_exported_device_encode min_def)
  with Cons show ?case by simp
qed simp

lemma client_devlist_encoded:
  assumes "length devices < 2 ^ 32" "\<forall>d \<in> set devices. length (ud_interfaces d) \<le> 255"
  shows "client_devlist (encode_rep_devlist devices) =
     Some (map (\<lambda>d. clip_device (to_exported d)) (filter (\<lambda>d. ud_class d \<noteq> 9) devices), [])"
proof -
  let ?ds = "filter (\<lambda>d. ud_class d \<noteq> 9) devices"
  let ?body = "concat (map exported_device_encode (map to_exported ?ds))"
  let ?n = "u32_of_usize (length ?ds)"
  have enc: "encode_rep_devlist devices = op_header_encode (op_header_new OP_REP_DEVLIST) @ to_be_bytes32 ?n @ ?body"
    by (simp add: encode_rep_devlist_def comp_def Let_def)
  have "length ?ds < 2 ^ 32" by (rule le_less_trans [OF length_filter_le assms(1)])
  then have n: "unat ?n = length (map to_exported ?ds)"
    by (simp add: unat_u32_of_usize)
  have hdr: "length (op_header_encode (op_header_new OP_REP_DEVLIST)) = 8"
    by (rule op_hdr.enc_length) simp
  have "be32_at (encode_rep_devlist devices) 8 = Some ?n"
    unfolding enc using hdr by (simp add: be_at_skip be_at_field)
  moreover have "drop 12 (encode_rep_devlist devices) = ?body @ []"
    unfolding enc using hdr by simp
  moreover have "client_devices (unat ?n) (?body @ []) = Some (map clip_device (map to_exported ?ds), [])"
    unfolding n using assms(2) by (intro client_devices_encoded) (auto simp: to_exported_def)
  ultimately show ?thesis
    using op_header_dec_enc [of "op_header_new OP_REP_DEVLIST" "to_be_bytes32 ?n @ ?body"]
    by (simp add: client_devlist_def enc comp_def)
qed

section \<open>Importing\<close>

lemma devid_repack: "devid_of (drop_bit 16 x) (x AND 0xFFFF) = x"
proof -
  have mask: "(0xFFFF :: u32) = mask 16" by (simp add: mask_numeral)
  show ?thesis
    unfolding mask devid_of_def
  proof (rule bit_word_eqI)
    fix n :: nat
    assume "n < LENGTH(32)"
    then show "bit (push_bit 16 (drop_bit 16 x) OR x AND mask 16) n = bit x n"
      by (cases "n < 16") (auto simp: bit_simps)
  qed
qed

lemma send_import_err_state [simp]:
  "cn_state (snd (send_import_err c)) = cn_state c" "fst (send_import_err c) = Done (Inr ())"
  "wr_room (cn_writer c) = None \<Longrightarrow>
     wr_sent (cn_writer (snd (send_import_err c))) = wr_sent (cn_writer c) @ encode_rep_import_err"
  by (simp_all add: send_import_err_def)

lemma from_info_fields [simp]:
  "ud_busid (from_info i) = format_busid i" "ud_vendor_id (from_info i) = di_vendor_id i"
  "ud_product_id (from_info i) = di_product_id i" "ud_class (from_info i) = di_class i"
  "ud_interfaces (from_info i) = di_interfaces i"
  by (simp_all add: from_info_def from_nusb_def split: prod.split)

lemma find_map_from_info:
  "find (\<lambda>d. ud_busid d = busid) (map from_info infos) =
     map_option from_info (find (\<lambda>i. format_busid i = busid) infos)"
  by (induction infos) auto

lemma import_attached_enter:
  assumes "import_attached env busid desc guard c = (EnterUrb desc' opened g, c')"
  shows "g = guard \<and> cn_state c' = cn_state c \<and>
     snd (open_device (se_host env) busid) = Some (Inr opened) \<and>
     desc' = import_desc desc (descriptor_snapshot (se_nusb env) opened (se_world env)) \<and>
     wr_sent (cn_writer c') = wr_sent (cn_writer c) @ encode_rep_import_ok (to_exported desc')"
  using assms
  by (auto simp: import_attached_def send_import_err_def Let_def write_all_Inr
      split: option.split_asm sum.split_asm prod.split_asm)

lemma import_attached_done:
  assumes "import_attached env busid desc guard c = (Done r, c')"
  shows "cn_state c' = attach_guard_drop guard (cn_state c) \<and> r \<noteq> Inl Panicked \<and>
     (r = Inr () \<longrightarrow> wr_room (cn_writer c) = None \<longrightarrow>
        wr_sent (cn_writer c') = wr_sent (cn_writer c) @ encode_rep_import_err)"
  using assms
  by (auto simp: import_attached_def send_import_err_def Let_def
      split: option.split_asm sum.split_asm prod.split_asm)

lemma import_device_enter:
  assumes "import_device env peer busid c = (EnterUrb desc' opened g, c')"
  obtains infos info st where "se_listing env = Inr infos" "find (\<lambda>i. format_busid i = busid) infos = Some info"
    "permits (ds_policy (cn_state c)) (di_vendor_id info) (di_product_id info)"
    "try_attach busid peer (cn_state c) = (Some g, st)"
    "import_attached env busid (from_info info) g (c\<lparr>cn_state := st\<rparr>) = (EnterUrb desc' opened g, c')"
proof -
  obtain infos where l: "se_listing env = Inr infos"
    using assms by (auto simp: import_device_def list_devices_def split: sum.split_asm)
  obtain info where i: "find (\<lambda>i. format_busid i = busid) infos = Some info"
    and d: "find (\<lambda>d. ud_busid d = busid) (map from_info infos) = Some (from_info info)"
    using assms l find_map_from_info [of busid infos]
    by (cases "find (\<lambda>i. format_busid i = busid) infos")
      (auto simp: import_device_def list_devices_def send_import_err_def)
  have p: "permits (ds_policy (cn_state c)) (di_vendor_id info) (di_product_id info)"
    using assms l d by (auto simp: import_device_def list_devices_def send_import_err_def split: if_split_asm)
  obtain g' st where t: "try_attach busid peer (cn_state c) = (Some g', st)"
    using assms l d p
    by (auto simp: import_device_def list_devices_def send_import_err_def split: option.split_asm prod.split_asm)
  have a: "import_attached env busid (from_info info) g' (c\<lparr>cn_state := st\<rparr>) = (EnterUrb desc' opened g, c')"
    using assms l d p t by (simp add: import_device_def list_devices_def)
  with import_attached_enter [OF a] l i p t that show thesis by auto
qed

lemma import_device_done:
  assumes "import_device env peer busid c = (Done r, c')"
  shows "ds_attached (cn_state c') = ds_attached (cn_state c) \<and> ds_policy (cn_state c') = ds_policy (cn_state c) \<and>
     r \<noteq> Inl Panicked \<and>
     (r = Inr () \<longrightarrow> wr_room (cn_writer c) = None \<longrightarrow>
        wr_sent (cn_writer c') = wr_sent (cn_writer c) @ encode_rep_import_err)"
proof (cases "\<exists>devices desc g st. list_devices (se_listing env) = Inr devices \<and>
    find (\<lambda>d. ud_busid d = busid) devices = Some desc \<and>
    permits (ds_policy (cn_state c)) (ud_vendor_id desc) (ud_product_id desc) \<and>
    try_attach busid peer (cn_state c) = (Some g, st)")
  case True
  then obtain desc g st where t: "try_attach busid peer (cn_state c) = (Some g, st)"
    and a: "import_attached env busid desc g (c\<lparr>cn_state := st\<rparr>) = (Done r, c')"
    using assms by (auto simp: import_device_def)
  have "ds_policy st = ds_policy (cn_state c)" using try_attach_policy [of busid peer "cn_state c"] t by simp
  with import_attached_done [OF a] slots.claim_then_release [OF t] show ?thesis
    by (auto simp: attach_guard_drop_def)
next
  case False
  with assms show ?thesis
    by (auto simp: import_device_def send_import_err_def dest: slots.claim_refused
        split: sum.split_asm option.split_asm if_split_asm prod.split_asm)
qed

text \<open>The two decoders of a session always get as many bytes as they need.\<close>

lemma handle_import_cases:
  obtains k r where "handle_import env peer c = (Done (Inl (ReadFailed k)), c\<lparr>cn_reader := r\<rparr>)"
  | busid r where "handle_import env peer c = import_device env peer busid (c\<lparr>cn_reader := r\<rparr>)"
proof (cases "read_exact 32 (cn_reader c)")
  case (Pair res r)
  show thesis
  proof (cases res)
    case (Inl k)
    with Pair that(1) show thesis by (simp add: handle_import_def)
  next
    case (Inr buf)
    with Pair have "length buf = 32" using read_exact_Inr by blast
    then have "decode_req_import_busid buf = Some (Inr (read_fixed_str buf))"
      by (simp add: decode_req_import_busid_def slice_def)
    with Pair Inr that(2) show thesis by (simp add: handle_import_def)
  qed
qed

lemma handle_session_cases:
  obtains k r where "handle_session env peer c = (Done (Inl (ReadFailed k)), c\<lparr>cn_reader := r\<rparr>)"
  | r where "handle_session env peer c = (Done (Inr ()), c\<lparr>cn_reader := r\<rparr>)"
  | r where "handle_session env peer c = handle_devlist env (c\<lparr>cn_reader := r\<rparr>)"
  | r where "handle_session env peer c = handle_import env peer (c\<lparr>cn_reader := r\<rparr>)"
proof (cases "read_exact 8 (cn_reader c)")
  case (Pair res r)
  show thesis
  proof (cases res)
    case (Inl k)
    with Pair that(1) show thesis by (simp add: handle_session_def)
  next
    case (Inr buf)
    with Pair have "8 \<le> length buf" using read_exact_Inr [of 8 "cn_reader c" buf r] by simp
    then obtain h where h: "op_header_decode buf = Some (Inr h)" using op_hdr.dec_total by blast
    consider "op_version h \<noteq> USBIP_VERSION" | "op_version h = USBIP_VERSION" "op_code h = OP_REQ_DEVLIST"
      | "op_version h = USBIP_VERSION" "op_code h \<noteq> OP_REQ_DEVLIST" "op_code h = OP_REQ_IMPORT"
      | "op_version h = USBIP_VERSION" "op_code h \<noteq> OP_REQ_DEVLIST" "op_code h \<noteq> OP_REQ_IMPORT" by blast
    then show thesis
      using Pair Inr h that by cases (simp_all add: handle_session_def)
  qed
qed

lemma import_request:
  assumes "rd_bytes (cn_reader c) = op_header_encode (op_header_new OP_REQ_IMPORT) @ write_fixed_str busid 32 @ rest"
    and "fits_field 32 busid"
  shows "handle_session env peer c = import_device env peer busid (c\<lparr>cn_reader := (cn_reader c)\<lparr>rd_bytes := rest\<rparr>\<rparr>)"
proof -
  let ?h = "op_header_new OP_REQ_IMPORT"
  let ?r = "(cn_reader c)\<lparr>rd_bytes := write_fixed_str busid 32 @ rest\<rparr>"
  have "read_exact 8 (cn_reader c) = (Inr (op_header_encode ?h), ?r)"
    by (rule read_exact_append [OF assms(1)]) (rule op_hdr.enc_length, simp)
  moreover have "op_header_decode (op_header_encode ?h) = Some (Inr ?h)"
    using op_header_dec_enc [of ?h "[]"] by simp
  moreover have "read_exact 32 ?r = (Inr (write_fixed_str busid 32), ?r\<lparr>rd_bytes := rest\<rparr>)"
    by (rule read_exact_append) simp_all
  moreover have "decode_req_import_busid (write_fixed_str busid 32) = Some (Inr busid)"
    using assms(2) by (simp add: decode_req_import_busid_def slice_def read_write_fixed_str clip_field_fits)
  ultimately show ?thesis
    by (simp add: handle_session_def handle_import_def op_header_new_def op_codes)
qed

lemma import_device_granted:
  assumes "se_listing env = Inr infos" "find (\<lambda>i. format_busid i = busid) infos = Some info"
    and "permits (ds_policy (cn_state c)) (di_vendor_id info) (di_product_id info)"
    and "ds_attached (cn_state c) busid = None"
    and "snd (open_device (se_host env) busid) = Some (Inr opened)" "wr_room (cn_writer c) = None"
  shows "\<exists>desc c'. import_device env peer busid c = (EnterUrb desc opened (AttachGuard busid), c')"
proof -
  obtain st where "try_attach busid peer (cn_state c) = (Some (AttachGuard busid), st)"
    using assms(4) by (simp add: try_attach_def)
  with assms find_map_from_info [of busid infos] show ?thesis
    by (simp add: import_device_def list_devices_def import_attached_def Let_def)
qed

lemma handle_devlist_done:
  "\<exists>r. handle_devlist env c = (Done r, snd (handle_devlist env c)) \<and> r \<noteq> Inl Panicked \<and>
     cn_state (snd (handle_devlist env c)) = cn_state c"
  by (auto simp: handle_devlist_def Let_def split: sum.split prod.split)

section \<open>A sample connection\<close>

definition sample_session_env :: "unit session_env" where
  "sample_session_env =
     \<lparr>se_listing = Inr [keyboard_info], se_host = sample_env, se_nusb = sample_nusb, se_world = ()\<rparr>"

definition sample_busid :: rstr where
  "sample_busid = lit ''01-1''"

definition keyboard_policy :: access_policy where
  "keyboard_policy = AllowList {(0x1050, 0x0407)}"

definition sample_conn :: "bytes \<Rightarrow> conn" where
  "sample_conn bs =
     \<lparr>cn_reader = \<lparr>rd_bytes = bs, rd_broken = False\<rparr>, cn_writer = \<lparr>wr_sent = [], wr_room = None\<rparr>,
      cn_state = daemon_state_new keyboard_policy\<rparr>"

definition sample_import :: bytes where
  "sample_import = op_header_encode (op_header_new OP_REQ_IMPORT) @ write_fixed_str sample_busid 32"

lemma sample_conn_sel [simp]:
  "rd_bytes (cn_reader (sample_conn bs)) = bs" "cn_writer (sample_conn bs) = \<lparr>wr_sent = [], wr_room = None\<rparr>"
  "ds_policy (cn_state (sample_conn bs)) = keyboard_policy" "ds_attached (cn_state (sample_conn bs)) = Map.empty"
  by (simp_all add: sample_conn_def daemon_state_new_def)

lemma sample_busid_fits: "fits_field 32 sample_busid"
  by (simp add: sample_busid_def fits_field_def)

lemma sample_busid_device:
  "format_busid keyboard_info = sample_busid"
  "snd (open_device sample_env sample_busid) = Some (Inr sample_device)"
  unfolding sample_busid_def by (rule keyboard_busid, rule sample_open)

lemma keyboard_permitted [simp]: "permits keyboard_policy 0x1050 0x0407"
  by (simp add: keyboard_policy_def)

lemma sample_session_enters:
  "\<exists>desc c'. handle_session sample_session_env peer (sample_conn sample_import) =
     (EnterUrb desc sample_device (AttachGuard sample_busid), c')"
proof -
  have req: "rd_bytes (cn_reader (sample_conn sample_import)) =
      op_header_encode (op_header_new OP_REQ_IMPORT) @ write_fixed_str sample_busid 32 @ []"
    by (simp add: sample_import_def)
  show ?thesis
    unfolding import_request [OF req sample_busid_fits]
    by (rule import_device_granted [where infos = "[keyboard_info]" and info = keyboard_info])
      (simp_all add: sample_session_env_def sample_busid_device del: keyboard_busid)
qed

section \<open>Properties\<close>

text \<open>
  C14: A client that asks for the device list gets exactly the devices it may import: decoding the
  reply the way a client does yields, in enumeration order and with nothing left over, the records of
  the devices that the policy permits and that are not hubs, strings clipped to their fields; the
  attach table is not touched.
\<close>

theorem devlist_session:
  assumes "rd_bytes (cn_reader c) =
      op_header_encode \<lparr>op_version = USBIP_VERSION, op_code = OP_REQ_DEVLIST, op_status = status\<rparr> @ rest"
    and "wr_room (cn_writer c) = None"
    and "se_listing env = Inr infos" "length infos < 2 ^ 32" "\<forall>i \<in> set infos. length (di_interfaces i) \<le> 255"
  shows "\<exists>bytes c'. handle_session env peer c = (Done (Inr ()), c') \<and> cn_state c' = cn_state c \<and>
     wr_sent (cn_writer c') = wr_sent (cn_writer c) @ bytes \<and>
     client_devlist bytes =
       Some (map (\<lambda>i. clip_device (to_exported (from_info i)))
         (filter (\<lambda>i. permits (ds_policy (cn_state c)) (di_vendor_id i) (di_product_id i) \<and> di_class i \<noteq> 9) infos), [])"
proof -
  let ?h = "\<lparr>op_version = USBIP_VERSION, op_code = OP_REQ_DEVLIST, op_status = status\<rparr>"
  let ?ds = "policy_filter (ds_policy (cn_state c)) (map from_info infos)"
  have hdr: "read_exact 8 (cn_reader c) = (Inr (op_header_encode ?h), (cn_reader c)\<lparr>rd_bytes := rest\<rparr>)"
    by (rule read_exact_append [OF assms(1)]) (rule op_hdr.enc_length, simp)
  have dec: "op_header_decode (op_header_encode ?h) = Some (Inr ?h)"
    using op_header_dec_enc [of ?h "[]"] by simp
  have "length ?ds < 2 ^ 32"
    unfolding policy_filter_def using assms(4) by (intro le_less_trans [OF length_filter_le]) simp
  then have "client_devlist (encode_rep_devlist ?ds) =
      Some (map (\<lambda>d. clip_device (to_exported d)) (filter (\<lambda>d. ud_class d \<noteq> 9) ?ds), [])"
    using assms(5) by (intro client_devlist_encoded) (auto simp: policy_filter_def)
  moreover have "map (\<lambda>d. clip_device (to_exported d)) (filter (\<lambda>d. ud_class d \<noteq> 9) ?ds) =
      map (\<lambda>i. clip_device (to_exported (from_info i)))
        (filter (\<lambda>i. permits (ds_policy (cn_state c)) (di_vendor_id i) (di_product_id i) \<and> di_class i \<noteq> 9) infos)"
    by (simp add: policy_filter_def filter_map comp_def conj_commute)
  ultimately show ?thesis
    using hdr dec assms(2,3)
    by (simp add: handle_session_def handle_devlist_def list_devices_def Let_def)
qed

theorem devlist_session_witness:
  "\<exists>bytes c'. handle_session sample_session_env (lit ''p'')
       (sample_conn (op_header_encode \<lparr>op_version = USBIP_VERSION, op_code = OP_REQ_DEVLIST, op_status = 0\<rparr>)) =
       (Done (Inr ()), c') \<and>
     wr_sent (cn_writer c') = bytes \<and>
     client_devlist bytes = Some ([clip_device (to_exported (from_info keyboard_info))], [])"
  using devlist_session [of "sample_conn (op_header_encode
        \<lparr>op_version = USBIP_VERSION, op_code = OP_REQ_DEVLIST, op_status = 0\<rparr>)" 0 "[]"
      sample_session_env "[keyboard_info]" "lit ''p''"]
  by (auto simp: sample_session_env_def keyboard_info_def keyboard_policy_def)

text \<open>
  C1: A session enters the URB loop only for a device that was listed under the requested busid and
  permitted by the policy, that nobody else held, and that is now recorded as held by this peer; the
  client has been sent the success reply, whose bus and device number are the halves of the device
  id that the URB loop will demand. If the listing did not change before the open, a captured device
  is of a permitted VID:PID.
\<close>

theorem import_authorised:
  assumes "handle_session env peer c = (EnterUrb desc opened guard, c')"
  shows "\<exists>infos info. se_listing env = Inr infos \<and> info \<in> set infos \<and>
     format_busid info = guard_busid guard \<and> od_busid opened = guard_busid guard \<and>
     permits (ds_policy (cn_state c)) (di_vendor_id info) (di_product_id info) \<and>
     ds_attached (cn_state c) (guard_busid guard) = None \<and>
     ds_attached (cn_state c') = (ds_attached (cn_state c))(guard_busid guard \<mapsto> peer) \<and>
     ud_vendor_id desc = di_vendor_id info \<and> ud_product_id desc = di_product_id info \<and>
     devid_of (ud_busnum desc) (ud_devnum desc) = od_devid opened \<and>
     wr_sent (cn_writer c') = wr_sent (cn_writer c) @ encode_rep_import_ok (to_exported desc) \<and>
     (he_listing (se_host env) = se_listing env \<longrightarrow>
        (case od_captured_vid_pid opened of None \<Rightarrow> True
         | Some (vid, pid) \<Rightarrow> permits (ds_policy (cn_state c)) vid pid))"
proof -
  obtain r where s: "handle_session env peer c = handle_import env peer (c\<lparr>cn_reader := r\<rparr>)"
  proof (cases env peer c rule: handle_session_cases)
    case (3 r)
    with assms handle_devlist_done [of env "c\<lparr>cn_reader := r\<rparr>"] show thesis by auto
  qed (use assms that in auto)
  then obtain busid r' where
    i: "import_device env peer busid (c\<lparr>cn_reader := r'\<rparr>) = (EnterUrb desc opened guard, c')"
    using assms by (cases env peer "c\<lparr>cn_reader := r\<rparr>" rule: handle_import_cases) auto
  obtain infos info st where l: "se_listing env = Inr infos"
    and f: "find (\<lambda>i. format_busid i = busid) infos = Some info"
    and p: "permits (ds_policy (cn_state c)) (di_vendor_id info) (di_product_id info)"
    and t: "try_attach busid peer (cn_state c) = (Some guard, st)"
    and a: "import_attached env busid (from_info info) guard (c\<lparr>cn_reader := r', cn_state := st\<rparr>) =
        (EnterUrb desc opened guard, c')"
    using import_device_enter [OF i] by auto
  have b: "guard_busid guard = busid" "ds_attached (cn_state c) busid = None"
    "ds_attached st = (ds_attached (cn_state c))(busid \<mapsto> peer)"
    using slots.claim_granted [OF t] by auto
  note e = import_attached_enter [OF a]
  then have "od_busid opened = busid" using open_device_captured by blast
  moreover have "devid_of (ud_busnum desc) (ud_devnum desc) = od_devid opened"
    using e by (simp add: import_desc_def descriptor_snapshot_def Let_def devid_repack)
  moreover have "case od_captured_vid_pid opened of None \<Rightarrow> True
      | Some (vid, pid) \<Rightarrow> permits (ds_policy (cn_state c)) vid pid"
    if "he_listing (se_host env) = se_listing env"
    using open_device_vid_pid [of "se_host env" busid opened infos info] e that l f p
    by (auto split: option.split)
  ultimately show ?thesis
    using l find_SomeD [OF f] p b e by (auto simp: import_desc_def)
qed

text \<open>
  Conversely an import that the checks allow succeeds: a client that requests a busid which fits
  its field, of a listed and permitted device that nobody holds and that can be opened, gets the
  device, and the session enters the URB loop with it.
\<close>

theorem import_granted:
  assumes "rd_bytes (cn_reader c) =
      op_header_encode (op_header_new OP_REQ_IMPORT) @ write_fixed_str busid 32 @ rest" "fits_field 32 busid"
    and "se_listing env = Inr infos" "find (\<lambda>i. format_busid i = busid) infos = Some info"
    and "permits (ds_policy (cn_state c)) (di_vendor_id info) (di_product_id info)"
    and "ds_attached (cn_state c) busid = None"
    and "snd (open_device (se_host env) busid) = Some (Inr opened)" "wr_room (cn_writer c) = None"
  shows "\<exists>desc c'. handle_session env peer c = (EnterUrb desc opened (AttachGuard busid), c')"
  unfolding import_request [OF assms(1,2)] using assms(3-8) by (intro import_device_granted) simp_all

theorem import_granted_witness:
  "\<exists>desc c'. handle_session sample_session_env (lit ''p'') (sample_conn sample_import) =
     (EnterUrb desc sample_device (AttachGuard sample_busid), c')"
  by (rule import_granted [where info = keyboard_info and infos = "[keyboard_info]" and rest = "[]"])
    (simp_all add: sample_import_def sample_busid_fits sample_session_env_def sample_busid_device
      del: keyboard_busid)

theorem import_authorised_witness:
  "\<exists>desc c'. handle_session sample_session_env (lit ''p'') (sample_conn sample_import) =
       (EnterUrb desc sample_device (AttachGuard sample_busid), c') \<and>
     devid_of (ud_busnum desc) (ud_devnum desc) = od_devid sample_device"
proof -
  obtain desc c' where s: "handle_session sample_session_env (lit ''p'') (sample_conn sample_import) =
      (EnterUrb desc sample_device (AttachGuard sample_busid), c')"
    using sample_session_enters by blast
  from import_authorised [OF s] s show ?thesis by blast
qed

text \<open>
  C15: A session that ends before the URB loop leaves the attach table and the policy as it found
  them, so a refused or failed import never blocks a device, and it never ends by a panic; an import
  that is refused is answered with the error reply.
\<close>

theorem unsuccessful_session_releases:
  assumes "handle_session env peer c = (Done r, c')"
  shows "ds_attached (cn_state c') = ds_attached (cn_state c) \<and>
     ds_policy (cn_state c') = ds_policy (cn_state c) \<and> r \<noteq> Inl Panicked"
proof (cases env peer c rule: handle_session_cases)
  case (3 rd)
  with assms handle_devlist_done [of env "c\<lparr>cn_reader := rd\<rparr>"] show ?thesis by auto
next
  case (4 rd)
  with assms import_device_done [of env peer _ _ r c'] show ?thesis
    by (cases env peer "c\<lparr>cn_reader := rd\<rparr>" rule: handle_import_cases) auto
qed (use assms in auto)

theorem refused_import_answered:
  assumes "handle_import env peer c = (Done (Inr ()), c')" "wr_room (cn_writer c) = None"
  shows "wr_sent (cn_writer c') = wr_sent (cn_writer c) @ encode_rep_import_err"
proof (cases env peer c rule: handle_import_cases)
  case (2 busid rd)
  with assms import_device_done [of env peer busid "c\<lparr>cn_reader := rd\<rparr>" "Inr ()" c'] show ?thesis by simp
qed (use assms in auto)


theorem unsuccessful_session_releases_witness:
  "\<exists>c'. handle_session sample_session_env (lit ''p'') (sample_conn [1, 2]) =
       (Done (Inl (ReadFailed UnexpectedEof)), c') \<and> ds_attached (cn_state c') = Map.empty"
proof -
  obtain c' where s: "handle_session sample_session_env (lit ''p'') (sample_conn [1, 2]) =
      (Done (Inl (ReadFailed UnexpectedEof)), c')"
    by (simp add: handle_session_def read_exact_def sample_conn_def)
  from unsuccessful_session_releases [OF s] s show ?thesis by simp
qed

text \<open>
  An import that ends without an error and without entering the URB loop was refused, and the
  client has been told so with the error reply.
\<close>

theorem refused_import_answered_witness:
  "\<exists>c'. handle_import (sample_session_env\<lparr>se_listing := Inr []\<rparr>) (lit ''p'')
       (sample_conn (write_fixed_str sample_busid 32)) = (Done (Inr ()), c') \<and>
     wr_sent (cn_writer c') = encode_rep_import_err"
proof -
  let ?env = "sample_session_env\<lparr>se_listing := Inr []\<rparr>"
  let ?c = "sample_conn (write_fixed_str sample_busid 32)"
  obtain c' where h: "handle_import ?env (lit ''p'') ?c = (Done (Inr ()), c')"
  proof (cases ?env "lit ''p''" ?c rule: handle_import_cases)
    case (1 k r)
    then have False by (simp add: handle_import_def read_exact_def decode_req_import_busid_def slice_def
        import_device_def list_devices_def send_import_err_def)
    then show thesis ..
  next
    case (2 busid r)
    with that show thesis by (simp add: import_device_def list_devices_def send_import_err_def)
  qed
  from refused_import_answered [OF h] h show ?thesis by simp
qed

definition flash_info :: device_info where
  "flash_info = keyboard_info\<lparr>di_vendor_id := 0x0781, di_product_id := 0x5530\<rparr>"

definition swapped_env :: host_env where
  "swapped_env = sample_env\<lparr>he_listing := Inr [flash_info], he_polls := \<lambda>_. Inr [flash_info]\<rparr>"

lemma flash_busid: "format_busid flash_info = sample_busid"
proof -
  have "format_busid flash_info = format_busid keyboard_info"
    by (simp add: flash_info_def format_busid_def Let_def del: keyboard_busid)
  then show ?thesis unfolding sample_busid_device .
qed

lemma swapped_open:
  "\<exists>d. snd (open_device swapped_env sample_busid) = Some (Inr d) \<and> od_captured_vid_pid d = Some (0x0781, 0x5530)"
proof -
  have "capture_poll swapped_env flash_info 0 = Some (Inr (flash_info, Some (di_registry_entry_id flash_info)))"
    by (rule capture_poll_found [where infos = "[flash_info]"]) (simp_all add: swapped_env_def same_device_def)
  moreover have "snd (reenumerate_with_capture witness_iokit (di_registry_entry_id flash_info)) = Some (Inr ())"
    by (simp add: reenumerate_with_capture_def reenumerate_with_options_def reenumerate_held_def
        witness_iokit_def)
  moreover have "he_root swapped_env" "he_iokit swapped_env = witness_iokit"
    "he_listing swapped_env = Inr [flash_info]" "he_open swapped_env flash_info = Inr ()"
    by (simp_all add: swapped_env_def)
  ultimately show ?thesis
    by (cases "reenumerate_with_capture witness_iokit (di_registry_entry_id flash_info)")
      (simp add: open_device_def maybe_capture_def flash_busid split: prod.split, simp add: flash_info_def)
qed

text \<open>
  C38: The policy binds the listing of the import request, not the device that is opened: the open
  makes a listing of its own and searches it by busid alone, so that a device swapped on the port in
  between is captured and served to the client although its VID:PID is not permitted.
\<close>

theorem policy_not_rechecked_at_open:
  "\<exists>(env :: unit session_env) desc opened c' vid pid.
     handle_session env peer (sample_conn sample_import) = (EnterUrb desc opened (AttachGuard sample_busid), c') \<and>
     od_captured_vid_pid opened = Some (vid, pid) \<and>
     \<not> permits (ds_policy (cn_state (sample_conn sample_import))) vid pid"
proof -
  let ?env = "sample_session_env\<lparr>se_host := swapped_env\<rparr>"
  have req: "rd_bytes (cn_reader (sample_conn sample_import)) =
      op_header_encode (op_header_new OP_REQ_IMPORT) @ write_fixed_str sample_busid 32 @ []"
    by (simp add: sample_import_def)
  obtain d where d: "snd (open_device swapped_env sample_busid) = Some (Inr d)"
    "od_captured_vid_pid d = Some (0x0781, 0x5530)"
    using swapped_open by blast
  have "\<exists>desc c'. handle_session ?env peer (sample_conn sample_import) =
      (EnterUrb desc d (AttachGuard sample_busid), c')"
    unfolding import_request [OF req sample_busid_fits]
    by (rule import_device_granted [where infos = "[keyboard_info]" and info = keyboard_info])
      (simp_all add: sample_session_env_def sample_busid_device d del: keyboard_busid)
  moreover have "\<not> permits keyboard_policy 0x0781 0x5530"
    by (simp add: keyboard_policy_def)
  ultimately show ?thesis using d(2) unfolding sample_conn_sel by blast
qed

end
