(* ===== verification/Proto_Urb.thy ===== *)
theory Proto_Urb
  imports Wire_Codec
begin

text \<open>
  The URB messages of the protocol crate (\<^verbatim>\<open>usbip-proto/src/urb.rs\<close>): the 20-byte basic header and
  the 28-byte tails of \<^verbatim>\<open>CMD_SUBMIT\<close>, \<^verbatim>\<open>RET_SUBMIT\<close>, \<^verbatim>\<open>CMD_UNLINK\<close> and \<^verbatim>\<open>RET_UNLINK\<close>. A Rust array
  \<^verbatim>\<open>[u8; N]\<close> is a list whose length the \<open>_wf\<close> predicates fix to \<open>N\<close>.
\<close>

definition USBIP_CMD_SUBMIT :: u32 where "USBIP_CMD_SUBMIT = 1"
definition USBIP_RET_SUBMIT :: u32 where "USBIP_RET_SUBMIT = 3"
definition USBIP_CMD_UNLINK :: u32 where "USBIP_CMD_UNLINK = 2"
definition USBIP_RET_UNLINK :: u32 where "USBIP_RET_UNLINK = 4"
definition URB_HEADER_SIZE :: nat where "URB_HEADER_SIZE = 48"
definition USBIP_DIR_IN :: u32 where "USBIP_DIR_IN = 1"

lemmas urb_codes =
  USBIP_CMD_SUBMIT_def USBIP_RET_SUBMIT_def USBIP_CMD_UNLINK_def USBIP_RET_UNLINK_def
  USBIP_DIR_IN_def

section \<open>Basic header\<close>

record urb_header =
  uh_command :: u32
  uh_seqnum :: u32
  uh_devid :: u32
  uh_direction :: u32
  uh_ep :: u32

definition urb_header_encode :: "urb_header \<Rightarrow> bytes" where
  "urb_header_encode h =
     to_be_bytes32 (uh_command h) @
     to_be_bytes32 (uh_seqnum h) @
     to_be_bytes32 (uh_devid h) @
     to_be_bytes32 (uh_direction h) @
     to_be_bytes32 (uh_ep h)"

definition urb_header_decode :: "urb_header decoder" where
  "urb_header_decode buf =
     (if length buf < 20 then Some (Inl (ShortRead 20 (length buf)))
      else do {
        command \<leftarrow> be32_at buf 0;
        seqnum \<leftarrow> be32_at buf 4;
        devid \<leftarrow> be32_at buf 8;
        direction \<leftarrow> be32_at buf 12;
        ep \<leftarrow> be32_at buf 16;
        Some (Inr \<lparr>uh_command = command, uh_seqnum = seqnum, uh_devid = devid,
                   uh_direction = direction, uh_ep = ep\<rparr>)
      })"

section \<open>Tails\<close>

record cmd_submit =
  cs_transfer_flags :: u32
  cs_transfer_buffer_length :: i32
  cs_start_frame :: i32
  cs_number_of_packets :: i32
  cs_interval :: i32
  cs_setup :: bytes

definition cmd_submit_wf :: "cmd_submit \<Rightarrow> bool" where
  "cmd_submit_wf c \<longleftrightarrow> length (cs_setup c) = 8"

definition cmd_submit_encode :: "cmd_submit \<Rightarrow> bytes" where
  "cmd_submit_encode c =
     to_be_bytes32 (cs_transfer_flags c) @
     to_be_bytes32 (cs_transfer_buffer_length c) @
     to_be_bytes32 (cs_start_frame c) @
     to_be_bytes32 (cs_number_of_packets c) @
     to_be_bytes32 (cs_interval c) @
     cs_setup c"

definition cmd_submit_decode :: "cmd_submit decoder" where
  "cmd_submit_decode buf =
     (if length buf < 28 then Some (Inl (ShortRead 28 (length buf)))
      else do {
        setup \<leftarrow> slice buf 20 28;
        transfer_flags \<leftarrow> be32_at buf 0;
        transfer_buffer_length \<leftarrow> be32_at buf 4;
        start_frame \<leftarrow> be32_at buf 8;
        number_of_packets \<leftarrow> be32_at buf 12;
        interval \<leftarrow> be32_at buf 16;
        Some (Inr \<lparr>cs_transfer_flags = transfer_flags,
                   cs_transfer_buffer_length = transfer_buffer_length,
                   cs_start_frame = start_frame, cs_number_of_packets = number_of_packets,
                   cs_interval = interval, cs_setup = setup\<rparr>)
      })"

record ret_submit =
  rs_status :: i32
  rs_actual_length :: i32
  rs_start_frame :: i32
  rs_number_of_packets :: i32
  rs_error_count :: i32
  rs_padding :: bytes

definition ret_submit_wf :: "ret_submit \<Rightarrow> bool" where
  "ret_submit_wf r \<longleftrightarrow> length (rs_padding r) = 8"

definition ret_submit_encode :: "ret_submit \<Rightarrow> bytes" where
  "ret_submit_encode r =
     to_be_bytes32 (rs_status r) @
     to_be_bytes32 (rs_actual_length r) @
     to_be_bytes32 (rs_start_frame r) @
     to_be_bytes32 (rs_number_of_packets r) @
     to_be_bytes32 (rs_error_count r) @
     rs_padding r"

record cmd_unlink =
  cu_unlink_seqnum :: u32
  cu_padding :: bytes

definition cmd_unlink_decode :: "cmd_unlink decoder" where
  "cmd_unlink_decode buf =
     (if length buf < 28 then Some (Inl (ShortRead 28 (length buf)))
      else do {
        pad \<leftarrow> slice buf 4 28;
        unlink_seqnum \<leftarrow> be32_at buf 0;
        Some (Inr \<lparr>cu_unlink_seqnum = unlink_seqnum, cu_padding = pad\<rparr>)
      })"

record ret_unlink =
  ru_status :: i32
  ru_padding :: bytes

definition ret_unlink_wf :: "ret_unlink \<Rightarrow> bool" where
  "ret_unlink_wf r \<longleftrightarrow> length (ru_padding r) = 24"

definition ret_unlink_encode :: "ret_unlink \<Rightarrow> bytes" where
  "ret_unlink_encode r = to_be_bytes32 (ru_status r) @ ru_padding r"

section \<open>Complete replies\<close>

definition write_ret_submit :: "u32 \<Rightarrow> ret_submit \<Rightarrow> bytes \<Rightarrow> bytes" where
  "write_ret_submit seqnum ret payload =
     urb_header_encode \<lparr>uh_command = USBIP_RET_SUBMIT, uh_seqnum = seqnum, uh_devid = 0,
                        uh_direction = 0, uh_ep = 0\<rparr> @
     ret_submit_encode ret @
     payload"

definition write_ret_unlink :: "u32 \<Rightarrow> i32 \<Rightarrow> bytes" where
  "write_ret_unlink seqnum status =
     urb_header_encode \<lparr>uh_command = USBIP_RET_UNLINK, uh_seqnum = seqnum, uh_devid = 0,
                        uh_direction = 0, uh_ep = 0\<rparr> @
     ret_unlink_encode \<lparr>ru_status = status, ru_padding = replicate 24 0\<rparr>"

section \<open>The messages are codecs\<close>

lemma urb_header_dec_enc: "urb_header_decode (urb_header_encode h @ rest) = Some (Inr h)"
  by (simp add: urb_header_decode_def urb_header_encode_def wire_simps)

interpretation urb_hdr: exact_codec "\<lambda>_. True" urb_header_encode 20 urb_header_decode
proof unfold_locales
  fix buf x assume "urb_header_decode buf = Some (Inr x)"
  then show "urb_header_encode x = take 20 buf"
    by (auto simp: urb_header_decode_def urb_header_encode_def bind_eq_Some_conv field_bytes
        wire_simps split: if_splits)
next
  fix x rest
  show "urb_header_decode (urb_header_encode x @ rest) = Some (Inr x)"
    by (rule urb_header_dec_enc)
qed (auto simp: urb_header_encode_def urb_header_decode_def be32_at_Some)

lemma cmd_submit_dec_enc:
  "cmd_submit_wf c \<Longrightarrow> cmd_submit_decode (cmd_submit_encode c @ rest) = Some (Inr c)"
  by (simp add: cmd_submit_decode_def cmd_submit_encode_def cmd_submit_wf_def slice_def wire_simps)

interpretation sub_tail: exact_codec cmd_submit_wf cmd_submit_encode 28 cmd_submit_decode
proof unfold_locales
  fix buf x assume "cmd_submit_decode buf = Some (Inr x)"
  then show "cmd_submit_encode x = take 28 buf"
    by (auto simp: cmd_submit_decode_def cmd_submit_encode_def bind_eq_Some_conv field_bytes
        slice_def wire_simps split: if_splits)
next
  fix x rest assume "cmd_submit_wf x"
  then show "cmd_submit_decode (cmd_submit_encode x @ rest) = Some (Inr x)"
    by (rule cmd_submit_dec_enc)
qed (auto simp: cmd_submit_encode_def cmd_submit_decode_def cmd_submit_wf_def be32_at_Some slice_Some)

interpretation ret_tail: fixed_encoder ret_submit_wf ret_submit_encode 28
  by unfold_locales (simp add: ret_submit_wf_def ret_submit_encode_def)

interpretation unl_tail: fixed_encoder ret_unlink_wf ret_unlink_encode 28
  by unfold_locales (simp add: ret_unlink_wf_def ret_unlink_encode_def)

lemma cmd_unlink_decode_cases:
  "cmd_unlink_decode buf =
     (if length buf < 28 then Some (Inl (ShortRead 28 (length buf)))
      else Some (Inr \<lparr>cu_unlink_seqnum = from_be_bytes32 (buf ! 0) (buf ! 1) (buf ! 2) (buf ! 3),
                      cu_padding = take 24 (drop 4 buf)\<rparr>))"
  by (simp add: cmd_unlink_decode_def slice_Some be32_at_Some numeral_2_eq_2)

text \<open>The unlink tail is exact too, although the sources have no encoder for it.\<close>

lemma cmd_unlink_exact:
  assumes "length buf = 28"
  shows "\<exists>u. cmd_unlink_decode buf = Some (Inr u) \<and> length (cu_padding u) = 24 \<and>
     to_be_bytes32 (cu_unlink_seqnum u) @ cu_padding u = buf"
proof -
  obtain v where v: "be32_at buf 0 = Some v" using assms by (simp add: be32_at_Some)
  then have "to_be_bytes32 v = take 4 buf" using field_bytes(2) [of buf 0 v] by simp
  with v assms show ?thesis by (simp add: cmd_unlink_decode_def slice_def)
qed

lemma length_write_ret_submit:
  "ret_submit_wf ret \<Longrightarrow> length (write_ret_submit seqnum ret payload) = 48 + length payload"
  by (simp add: write_ret_submit_def urb_hdr.enc_length ret_tail.enc_length)

lemma length_write_ret_unlink: "length (write_ret_unlink seqnum status) = 48"
  by (simp add: write_ret_unlink_def urb_hdr.enc_length unl_tail.enc_length ret_unlink_wf_def)

section \<open>Properties\<close>

text \<open>
  C27: The URB headers are an exact binary format: decoding what was encoded gives the value back, and
  encoding what was decoded gives back the very bytes that were read, for the basic header and for
  the submit tail.
\<close>

theorem urb_codec_exact:
  "urb_header_decode (urb_header_encode h @ rest) = Some (Inr h) \<and>
   (urb_header_decode buf = Some (Inr h') \<longrightarrow> urb_header_encode h' = take 20 buf) \<and>
   (cmd_submit_wf c \<longrightarrow> cmd_submit_decode (cmd_submit_encode c @ rest) = Some (Inr c)) \<and>
   (cmd_submit_decode buf = Some (Inr c') \<longrightarrow> cmd_submit_wf c' \<and> cmd_submit_encode c' = take 28 buf)"
  using urb_hdr.dec_enc urb_hdr.enc_dec sub_tail.dec_enc sub_tail.enc_dec sub_tail.dec_wf by auto

theorem urb_codec_exact_witness:
  "cmd_submit_wf \<lparr>cs_transfer_flags = 0, cs_transfer_buffer_length = 18, cs_start_frame = 0,
      cs_number_of_packets = - 1, cs_interval = 0, cs_setup = [0x80, 6, 0, 1, 0, 0, 0x12, 0]\<rparr> \<and>
   cmd_submit_decode (cmd_submit_encode \<lparr>cs_transfer_flags = 0, cs_transfer_buffer_length = 18,
      cs_start_frame = 0, cs_number_of_packets = - 1, cs_interval = 0,
      cs_setup = [0x80, 6, 0, 1, 0, 0, 0x12, 0]\<rparr>) =
     Some (Inr \<lparr>cs_transfer_flags = 0, cs_transfer_buffer_length = 18, cs_start_frame = 0,
      cs_number_of_packets = - 1, cs_interval = 0, cs_setup = [0x80, 6, 0, 1, 0, 0, 0x12, 0]\<rparr>)"
  using urb_codec_exact [of _ "[]" "[]" _ "\<lparr>cs_transfer_flags = 0, cs_transfer_buffer_length = 18,
      cs_start_frame = 0, cs_number_of_packets = - 1, cs_interval = 0,
      cs_setup = [0x80, 6, 0, 1, 0, 0, 0x12, 0]\<rparr>"]
  by (simp add: cmd_submit_wf_def)

end
