(* ===== verification/Daemon_Urb.thy ===== *)
theory Daemon_Urb
  imports Daemon_Session Proto_Urb
begin

text \<open>
  The URB session as functions (\<^verbatim>\<open>usbipd/src/daemon.rs\<close>, lines 500 to 815): reading one command off the
  connection, the transfer that a \<^verbatim>\<open>CMD_SUBMIT\<close> runs on the device, and the reply it produces. How
  these interleave is the subject of the session machine.
\<close>

definition MAX_INFLIGHT_URBS :: nat where "MAX_INFLIGHT_URBS = 256"
definition EPIPE :: i32 where "EPIPE = - 32"
definition EOVERFLOW :: i32 where "EOVERFLOW = - 75"

section \<open>Reading commands\<close>

record urb_job =
  jb_basic :: urb_header
  jb_cmd :: cmd_submit
  jb_out :: bytes

datatype urb_command =
    EndSession "session_error + unit"
  | Submit urb_job
  | Unlink urb_header cmd_unlink

definition dir_in :: "urb_header \<Rightarrow> bool" where
  "dir_in basic \<longleftrightarrow> uh_direction basic = USBIP_DIR_IN"

definition tbl :: "cmd_submit \<Rightarrow> nat" where
  "tbl cmd = usize_of_i32 (cs_transfer_buffer_length cmd)"

definition ep_addr_of :: "urb_header \<Rightarrow> u8" where
  "ep_addr_of basic =
     (if uh_ep basic = 0 then 0
      else ucast (uh_ep basic AND 0xF) OR (if dir_in basic then 0x80 else 0x00))"

text \<open>The decoding half of \<^verbatim>\<open>handle_cmd_submit\<close>: the tail and, for OUT transfers, the payload.\<close>

definition read_submit :: "urb_header \<Rightarrow> bytes \<Rightarrow> reader \<Rightarrow> urb_command \<times> reader" where
  "read_submit basic tail r =
     (case cmd_submit_decode tail of
        None \<Rightarrow> (EndSession (Inl Panicked), r)
      | Some (Inl e) \<Rightarrow> (EndSession (Inl (DecodeFailed e)), r)
      | Some (Inr cmd) \<Rightarrow>
          if \<not> dir_in basic \<and> tbl cmd > 0 then
            (case read_exact (tbl cmd) r of
               (Inl k, r1) \<Rightarrow> (EndSession (Inl (ReadFailed k)), r1)
             | (Inr out_payload, r1) \<Rightarrow>
                 (Submit \<lparr>jb_basic = basic, jb_cmd = cmd, jb_out = out_payload\<rparr>, r1))
          else (Submit \<lparr>jb_basic = basic, jb_cmd = cmd, jb_out = []\<rparr>, r))"

definition read_unlink :: "urb_header \<Rightarrow> bytes \<Rightarrow> reader \<Rightarrow> urb_command \<times> reader" where
  "read_unlink basic tail r =
     (case cmd_unlink_decode tail of
        None \<Rightarrow> (EndSession (Inl Panicked), r)
      | Some (Inl e) \<Rightarrow> (EndSession (Inl (DecodeFailed e)), r)
      | Some (Inr u) \<Rightarrow> (Unlink basic u, r))"

text \<open>One turn of the loop of \<^verbatim>\<open>urb_loop\<close> up to the dispatch.\<close>

definition next_command :: "u32 \<Rightarrow> reader \<Rightarrow> urb_command \<times> reader" where
  "next_command devid r =
     (case read_exact URB_HEADER_SIZE r of
        (Inl UnexpectedEof, r1) \<Rightarrow> (EndSession (Inr ()), r1)
      | (Inl k, r1) \<Rightarrow> (EndSession (Inl (ReadFailed k)), r1)
      | (Inr header_buf, r1) \<Rightarrow>
          (case urb_header_decode (take 20 header_buf) of
             None \<Rightarrow> (EndSession (Inl Panicked), r1)
           | Some (Inl e) \<Rightarrow> (EndSession (Inl (DecodeFailed e)), r1)
           | Some (Inr basic) \<Rightarrow>
               if uh_devid basic \<noteq> devid
               then (EndSession (Inl (DevidMismatch (uh_devid basic) devid)), r1)
               else if uh_command basic = USBIP_CMD_SUBMIT then read_submit basic (drop 20 header_buf) r1
               else if uh_command basic = USBIP_CMD_UNLINK then read_unlink basic (drop 20 header_buf) r1
               else (EndSession (Inl (UnknownUrbCommand (uh_command basic))), r1)))"

section \<open>Running a submit\<close>

text \<open>The closure that \<^verbatim>\<open>run_submit\<close> gives to the blocking thread.\<close>

definition run_transfer :: "'w nusb \<Rightarrow> urb_job \<Rightarrow> ('w, nat \<times> bytes) device_op" where
  "run_transfer nb job s =
     (if uh_ep (jb_basic job) = 0 then
        (case control_transfer nb (setup_from_bytes (cs_setup (jb_cmd job))) (jb_out job) s of
           (Inl e, t) \<Rightarrow> (Inl e, t)
         | (Inr data, t) \<Rightarrow>
             (Inr (if dir_in (jb_basic job) then length data else length (jb_out job), data), t))
      else
        (case data_transfer nb (ep_addr_of (jb_basic job)) (tbl (jb_cmd job)) (jb_out job) s of
           (Inl e, t) \<Rightarrow> (Inl e, t)
         | (Inr r, t) \<Rightarrow> (Inr (tr_actual_length r, tr_data r), t)))"

text \<open>Status, actual length and payload of the reply.\<close>

definition submit_status :: "urb_job \<Rightarrow> (host_error + nat \<times> bytes) \<Rightarrow> i32 \<times> i32 \<times> bytes" where
  "submit_status job result =
     (case result of
        Inr (actual, data) \<Rightarrow>
          if dir_in (jb_basic job) then
            if length data > tbl (jb_cmd job) then (EOVERFLOW, 0, [])
            else (0, i32_of_usize actual, data)
          else (0, i32_of_usize actual, [])
      | Inl e \<Rightarrow> (EPIPE, 0, []))"

definition submit_reply :: "urb_job \<Rightarrow> (host_error + nat \<times> bytes) \<Rightarrow> bytes" where
  "submit_reply job result =
     (case submit_status job result of (status, actual_length, payload) \<Rightarrow>
        write_ret_submit (uh_seqnum (jb_basic job))
          \<lparr>rs_status = status, rs_actual_length = actual_length, rs_start_frame = 0,
           rs_number_of_packets = 0, rs_error_count = 0, rs_padding = replicate 8 0\<rparr> payload)"

definition unlink_reply :: "urb_header \<Rightarrow> bytes" where
  "unlink_reply basic = write_ret_unlink (uh_seqnum basic) 0"

section \<open>The command stream\<close>

text \<open>What a client sends, and the commands it may send.\<close>

fun command_encode :: "urb_command \<Rightarrow> bytes" where
  "command_encode (Submit job) =
     urb_header_encode (jb_basic job) @ cmd_submit_encode (jb_cmd job) @ jb_out job"
| "command_encode (Unlink basic u) =
     urb_header_encode basic @ to_be_bytes32 (cu_unlink_seqnum u) @ cu_padding u"
| "command_encode (EndSession _) = []"

fun command_wf :: "u32 \<Rightarrow> urb_command \<Rightarrow> bool" where
  "command_wf devid (Submit job) \<longleftrightarrow>
     uh_devid (jb_basic job) = devid \<and> uh_command (jb_basic job) = USBIP_CMD_SUBMIT \<and>
     cmd_submit_wf (jb_cmd job) \<and>
     length (jb_out job) = (if dir_in (jb_basic job) then 0 else tbl (jb_cmd job))"
| "command_wf devid (Unlink basic u) \<longleftrightarrow>
     uh_devid basic = devid \<and> uh_command basic = USBIP_CMD_UNLINK \<and> length (cu_padding u) = 24"
| "command_wf devid (EndSession _) \<longleftrightarrow> False"

fun read_commands :: "nat \<Rightarrow> u32 \<Rightarrow> reader \<Rightarrow> urb_command list \<times> reader" where
  "read_commands 0 devid r = ([], r)"
| "read_commands (Suc n) devid r =
     (case next_command devid r of (c, r1) \<Rightarrow>
        case read_commands n devid r1 of (cs, r2) \<Rightarrow> (c # cs, r2))"

lemma next_command_header:
  assumes "rd_bytes r = urb_header_encode basic @ tail @ rest" "length tail = 28" "uh_devid basic = devid"
  shows "next_command devid r =
     (if uh_command basic = USBIP_CMD_SUBMIT then read_submit basic tail (r\<lparr>rd_bytes := rest\<rparr>)
      else if uh_command basic = USBIP_CMD_UNLINK then read_unlink basic tail (r\<lparr>rd_bytes := rest\<rparr>)
      else (EndSession (Inl (UnknownUrbCommand (uh_command basic))), r\<lparr>rd_bytes := rest\<rparr>))"
proof -
  have len: "length (urb_header_encode basic) = 20" by (rule urb_hdr.enc_length) simp
  have "read_exact URB_HEADER_SIZE r = (Inr (urb_header_encode basic @ tail), r\<lparr>rd_bytes := rest\<rparr>)"
    using assms len by (intro read_exact_append) (simp_all add: URB_HEADER_SIZE_def)
  moreover have "urb_header_decode (urb_header_encode basic) = Some (Inr basic)"
    using urb_header_dec_enc [of basic "[]"] by simp
  ultimately show ?thesis
    using assms len by (simp add: next_command_def)
qed

lemma next_command_encoded:
  assumes "command_wf devid c" "rd_bytes r = command_encode c @ rest"
  shows "next_command devid r = (c, r\<lparr>rd_bytes := rest\<rparr>)"
proof (cases c)
  case (EndSession e)
  with assms show ?thesis by simp
next
  case (Submit job)
  have "length (cmd_submit_encode (jb_cmd job)) = 28"
    using assms Submit by (intro sub_tail.enc_length) simp
  moreover have "cmd_submit_decode (cmd_submit_encode (jb_cmd job)) = Some (Inr (jb_cmd job))"
    using cmd_submit_dec_enc [of "jb_cmd job" "[]"] assms Submit by simp
  moreover have "read_exact (tbl (jb_cmd job)) (r\<lparr>rd_bytes := jb_out job @ rest\<rparr>) = (Inr (jb_out job), r\<lparr>rd_bytes := rest\<rparr>)"
    if "\<not> dir_in (jb_basic job)"
    using assms Submit that by (subst read_exact_append [of _ "jb_out job" rest]) auto
  ultimately show ?thesis
    using next_command_header [of r "jb_basic job" "cmd_submit_encode (jb_cmd job)" "jb_out job @ rest" devid]
      assms Submit
    by (cases "dir_in (jb_basic job)") (auto simp: read_submit_def)
next
  case (Unlink basic u)
  let ?tail = "to_be_bytes32 (cu_unlink_seqnum u) @ cu_padding u"
  have "cmd_unlink_decode ?tail = Some (Inr u)"
    using assms Unlink by (simp add: cmd_unlink_decode_def slice_def be_at_field)
  with next_command_header [of r basic ?tail rest devid] assms Unlink show ?thesis
    by (simp add: read_unlink_def urb_codes)
qed

lemma read_submit_exact:
  assumes "cmd_submit_decode tail = Some (Inr cmd)" "cmd_submit_wf cmd"
  shows "(\<exists>k r'. read_submit basic tail r = (EndSession (Inl (ReadFailed k)), r')) \<or>
     (\<exists>out r'. read_submit basic tail r = (Submit \<lparr>jb_basic = basic, jb_cmd = cmd, jb_out = out\<rparr>, r') \<and>
        length out = (if dir_in basic then 0 else tbl cmd) \<and> cmd_submit_wf cmd \<and>
        rd_bytes r = out @ rd_bytes r')"
proof (cases "\<not> dir_in basic \<and> tbl cmd > 0")
  case True
  obtain res r1 where rd: "read_exact (tbl cmd) r = (res, r1)" by (cases "read_exact (tbl cmd) r")
  show ?thesis
  proof (cases res)
    case (Inl k)
    with True rd assms show ?thesis by (simp add: read_submit_def)
  next
    case (Inr out)
    with rd have "out @ rd_bytes r1 = rd_bytes r" "length out = tbl cmd"
      using read_exact_Inr [of "tbl cmd" r out r1] by auto
    with True rd Inr assms show ?thesis by (simp add: read_submit_def)
  qed
next
  case False
  with assms show ?thesis by (auto simp: read_submit_def)
qed

section \<open>Replies\<close>

lemma submit_status_bounds:
  assumes "submit_status job result = (status, actual, payload)"
  shows "length payload \<le> tbl (jb_cmd job)" "\<not> dir_in (jb_basic job) \<Longrightarrow> payload = []"
    "status \<noteq> 0 \<Longrightarrow> actual = 0 \<and> payload = []"
  using assms by (auto simp: submit_status_def EPIPE_def EOVERFLOW_def split: sum.splits if_splits prod.splits)

lemma ep_addr_dir: "uh_ep basic \<noteq> 0 \<Longrightarrow> dir_in_of (ep_addr_of basic) \<longleftrightarrow> dir_in basic"
proof -
  assume ep: "uh_ep basic \<noteq> 0"
  let ?n = "ucast (uh_ep basic AND 0xF) :: u8"
  have mask: "(0xF :: u32) = mask 4" by (simp add: mask_numeral)
  have high: "\<not> bit (0x80 :: u8) n" if "n < 4" for n
    using that by (auto simp: less_Suc_eq numeral_eq_Suc)
  have low: "?n AND 0x80 = 0"
    unfolding mask by (rule bit_word_eqI) (auto simp: bit_simps dest: high)
  have "(?n OR 0x80) AND 0x80 = (0x80 :: u8)"
    by (simp add: bit.conj_disj_distrib2 low)
  with ep low show ?thesis by (simp add: dir_in_of_def ep_addr_of_def)
qed

text \<open>The stack reports, with an IN completion, the length of the buffer it returns.\<close>

definition honest_completions :: "'w nusb \<Rightarrow> bool" where
  "honest_completions nb \<longleftrightarrow>
     (\<forall>ep n w b. into_result (fst (nb_transfer_in nb ep n w)) = Inr b \<longrightarrow>
        actual_len (fst (nb_transfer_in nb ep n w)) = length b)"

lemma data_transfer_in_length:
  assumes "honest_completions nb" "dir_in_of ep" "data_transfer nb ep len data s = (Inr r, t)"
  shows "tr_actual_length r = length (tr_data r)"
proof -
  obtain k w0 where k: "endpoint_kind nb (fst s) (snd s) ep = (Inr k, w0)"
    using assms(3) by (cases "endpoint_kind nb (fst s) (snd s) ep" rule: resolved_cases)
      (auto simp: data_transfer_def split: prod.splits)
  obtain e d1 w1 where e: "ensure_endpoint nb ep k (fst s, w0) = (Inr e, d1, w1)"
    using assms(3) k by (auto simp: data_transfer_def split: sum.splits prod.splits)
  let ?c = "fst (nb_transfer_in nb ep (padded_len True (nb_max_packet_size nb ep w1) len) w1)"
  obtain b where b: "into_result ?c = Inr b"
    and r: "r = \<lparr>tr_actual_length = min (actual_len ?c) len, tr_data = take (min (actual_len ?c) len) b\<rparr>"
    using assms(2,3) k e by (auto simp: data_transfer_def Let_def split: sum.splits prod.splits)
  from b assms(1) have "actual_len ?c = length b" by (simp add: honest_completions_def)
  with r show ?thesis by simp
qed

lemma run_transfer_in_length:
  assumes "honest_completions nb" "dir_in (jb_basic job)" "run_transfer nb job s = (Inr (actual, data), t)"
  shows "actual = length data"
proof (cases "uh_ep (jb_basic job) = 0")
  case True
  with assms(2,3) show ?thesis by (auto simp: run_transfer_def split: prod.splits sum.splits)
next
  case False
  with assms(2) have "dir_in_of (ep_addr_of (jb_basic job))" by (simp add: ep_addr_dir)
  moreover obtain r where
    "data_transfer nb (ep_addr_of (jb_basic job)) (tbl (jb_cmd job)) (jb_out job) s = (Inr r, t)"
    "actual = tr_actual_length r" "data = tr_data r"
    using False assms(3) by (auto simp: run_transfer_def split: prod.splits sum.splits)
  ultimately show ?thesis using data_transfer_in_length [OF assms(1)] by blast
qed

text \<open>What a turn of the loop consumes, for arbitrary input.\<close>

lemma next_command_cases:
  "case next_command devid r of
     (EndSession e, r') \<Rightarrow> e \<noteq> Inl Panicked \<and> (\<forall>p. e \<noteq> Inl (DecodeFailed p))
   | (c, r') \<Rightarrow> command_wf devid c \<and> rd_bytes r = command_encode c @ rd_bytes r'"
proof (cases "read_exact URB_HEADER_SIZE r")
  case (Pair res r1)
  show ?thesis
  proof (cases res)
    case (Inl k)
    with Pair show ?thesis by (cases k) (simp_all add: next_command_def)
  next
    case (Inr buf)
    have buf: "length buf = 48" "rd_bytes r = buf @ rd_bytes r1"
      using read_exact_Inr [OF Pair [unfolded Inr]] by (simp_all add: URB_HEADER_SIZE_def)
    obtain basic where h: "urb_header_decode (take 20 buf) = Some (Inr basic)"
      using urb_hdr.dec_total [of "take 20 buf"] buf(1) by auto
    have hb: "urb_header_encode basic = take 20 buf" using urb_hdr.enc_dec [OF h] by simp
    obtain cmd where c: "cmd_submit_decode (drop 20 buf) = Some (Inr cmd)" "cmd_submit_wf cmd"
      using sub_tail.dec_total [of "drop 20 buf"] buf(1) by auto
    have cb: "cmd_submit_encode cmd = drop 20 buf" using sub_tail.enc_dec [OF c(1)] buf(1) by simp
    obtain u where u: "cmd_unlink_decode (drop 20 buf) = Some (Inr u)"
      and ub: "to_be_bytes32 (cu_unlink_seqnum u) @ cu_padding u = drop 20 buf" "length (cu_padding u) = 24"
      using cmd_unlink_exact [of "drop 20 buf"] buf(1) by auto
    have whole: "rd_bytes r = take 20 buf @ drop 20 buf @ rd_bytes r1" using buf(2) by simp
    have step: "next_command devid r =
        (if uh_devid basic \<noteq> devid then (EndSession (Inl (DevidMismatch (uh_devid basic) devid)), r1)
         else if uh_command basic = USBIP_CMD_SUBMIT then read_submit basic (drop 20 buf) r1
         else if uh_command basic = USBIP_CMD_UNLINK then read_unlink basic (drop 20 buf) r1
         else (EndSession (Inl (UnknownUrbCommand (uh_command basic))), r1))"
      using Pair Inr h by (simp add: next_command_def)
    consider "uh_devid basic \<noteq> devid" | "uh_devid basic = devid" "uh_command basic = USBIP_CMD_SUBMIT"
      | "uh_devid basic = devid" "uh_command basic = USBIP_CMD_UNLINK"
      | "uh_devid basic = devid" "uh_command basic \<noteq> USBIP_CMD_SUBMIT" "uh_command basic \<noteq> USBIP_CMD_UNLINK"
      by blast
    then show ?thesis
    proof cases
      case 2
      with step have "next_command devid r = read_submit basic (drop 20 buf) r1" by simp
      with read_submit_exact [OF c, of basic r1] 2 whole hb cb show ?thesis
        by (auto split: prod.split urb_command.split)
    next
      case 3
      with step u have "next_command devid r = (Unlink basic u, r1)" by (simp add: read_unlink_def urb_codes)
      with 3 whole hb ub show ?thesis by simp
    qed (simp_all add: step)
  qed
qed

lemma next_command_consumed:
  assumes "next_command devid r = (c, r')" "\<And>e. c \<noteq> EndSession e"
  shows "command_wf devid c" "rd_bytes r = command_encode c @ rd_bytes r'"
  using next_command_cases [of devid r] assms by (auto split: urb_command.splits)

section \<open>Properties\<close>

text \<open>
  The server reads the client's command stream in sync: any sequence of well-formed commands for
  the attached device, OUT payloads included, is read back command by command with nothing lost and
  nothing left over.
\<close>

theorem command_stream_roundtrip:
  assumes "list_all (command_wf devid) cs" "rd_bytes r = concat (map command_encode cs) @ rest"
  shows "read_commands (length cs) devid r = (cs, r\<lparr>rd_bytes := rest\<rparr>)"
  using assms
proof (induction cs arbitrary: r)
  case (Cons c cs)
  from Cons.prems have "next_command devid r = (c, r\<lparr>rd_bytes := concat (map command_encode cs) @ rest\<rparr>)"
    by (intro next_command_encoded) simp_all
  with Cons show ?case by simp
qed simp

definition sample_urbs :: "urb_command list" where
  "sample_urbs =
     [Submit \<lparr>jb_basic = \<lparr>uh_command = 1, uh_seqnum = 7, uh_devid = 0x10002, uh_direction = 0, uh_ep = 2\<rparr>,
        jb_cmd = \<lparr>cs_transfer_flags = 0, cs_transfer_buffer_length = 3, cs_start_frame = 0,
          cs_number_of_packets = 0, cs_interval = 0, cs_setup = replicate 8 0\<rparr>,
        jb_out = [1, 2, 3]\<rparr>,
      Unlink \<lparr>uh_command = 2, uh_seqnum = 8, uh_devid = 0x10002, uh_direction = 0, uh_ep = 0\<rparr>
        \<lparr>cu_unlink_seqnum = 7, cu_padding = replicate 24 0\<rparr>]"

theorem command_stream_roundtrip_witness:
  "read_commands 2 0x10002 \<lparr>rd_bytes = concat (map command_encode sample_urbs), rd_broken = False\<rparr> =
     (sample_urbs, \<lparr>rd_bytes = [], rd_broken = False\<rparr>)"
proof -
  have "list_all (command_wf 0x10002) sample_urbs"
    by (simp add: sample_urbs_def urb_codes cmd_submit_wf_def dir_in_def tbl_def usize_of_i32_def)
  from command_stream_roundtrip [OF this, of "\<lparr>rd_bytes = concat (map command_encode sample_urbs), rd_broken = False\<rparr>" "[]"]
  show ?thesis by (simp add: sample_urbs_def numeral_2_eq_2)
qed

text \<open>
  C12: Whatever bytes arrive, the loop never panics and never fails to decode; a command that it
  dispatches is well formed and addressed to the attached device, and the bytes consumed are exactly
  the encoding of that command.
\<close>

theorem next_command_exact:
  "case next_command devid r of
     (EndSession e, r') \<Rightarrow> e \<noteq> Inl Panicked \<and> (\<forall>p. e \<noteq> Inl (DecodeFailed p))
   | (c, r') \<Rightarrow> command_wf devid c \<and> rd_bytes r = command_encode c @ rd_bytes r'"
  by (rule next_command_cases)

text \<open>
  C13: A reply is framed so that the client can find the next one: it carries the sequence number of
  the request, it is 48 bytes and the payload, the payload is never longer than the buffer the client
  announced, an OUT reply has none, and for an IN transfer the length field says exactly how many
  payload bytes follow, on every error path too.
\<close>

theorem submit_reply_framed:
  assumes "honest_completions nb" "run_transfer nb job s = (result, t)"
  shows "\<exists>status actual.
     urb_header_decode (submit_reply job result) =
       Some (Inr \<lparr>uh_command = USBIP_RET_SUBMIT, uh_seqnum = uh_seqnum (jb_basic job), uh_devid = 0,
                  uh_direction = 0, uh_ep = 0\<rparr>) \<and>
     be32_at (submit_reply job result) 20 = Some status \<and>
     be32_at (submit_reply job result) 24 = Some actual \<and>
     48 \<le> length (submit_reply job result) \<and>
     length (submit_reply job result) - 48 \<le> tbl (jb_cmd job) \<and>
     (if dir_in (jb_basic job) then sint actual = int (length (submit_reply job result) - 48)
      else length (submit_reply job result) = 48) \<and>
     (status = 0 \<longleftrightarrow> (\<exists>x. result = Inr x \<and> (dir_in (jb_basic job) \<longrightarrow> length (snd x) \<le> tbl (jb_cmd job))))"
proof -
  obtain status actual payload where st: "submit_status job result = (status, actual, payload)"
    by (cases "submit_status job result") auto
  let ?h = "\<lparr>uh_command = USBIP_RET_SUBMIT, uh_seqnum = uh_seqnum (jb_basic job), uh_devid = 0,
      uh_direction = 0, uh_ep = 0\<rparr>"
  let ?t = "\<lparr>rs_status = status, rs_actual_length = actual, rs_start_frame = 0,
      rs_number_of_packets = 0, rs_error_count = 0, rs_padding = replicate 8 0\<rparr>"
  have f: "submit_reply job result = urb_header_encode ?h @ ret_submit_encode ?t @ payload"
    by (simp add: submit_reply_def st write_ret_submit_def)
  have len: "length (urb_header_encode ?h) = 20" "length (ret_submit_encode ?t) = 28"
    by (simp_all add: urb_hdr.enc_length ret_tail.enc_length ret_submit_wf_def)
  have fields: "be32_at (submit_reply job result) 20 = Some status" "be32_at (submit_reply job result) 24 = Some actual"
    unfolding f using len(1) by (simp_all add: be_at_skip ret_submit_encode_def be_at_field)
  have exact: "sint actual = int (length payload)" if "dir_in (jb_basic job)"
  proof -
    have "length payload \<le> 2 ^ 31 - 1"
      using submit_status_bounds(1) [OF st] usize_of_i32_bound [of "cs_transfer_buffer_length (jb_cmd job)"]
      by (simp add: tbl_def)
    then show ?thesis
      using that st run_transfer_in_length [OF assms(1) that] assms(2) sint_i32_of_usize
      by (auto simp: submit_status_def split: sum.splits if_splits prod.splits)
  qed
  have ok: "status = 0 \<longleftrightarrow> (\<exists>x. result = Inr x \<and> (dir_in (jb_basic job) \<longrightarrow> length (snd x) \<le> tbl (jb_cmd job)))"
    using st by (auto simp: submit_status_def EPIPE_def EOVERFLOW_def split: sum.splits if_splits prod.splits)
  have "urb_header_decode (submit_reply job result) = Some (Inr ?h)"
    unfolding f by (rule urb_header_dec_enc)
  with fields exact ok len submit_status_bounds [OF st] f show ?thesis by auto
qed

lemma sample_honest: "honest_completions sample_nusb"
  by (simp add: honest_completions_def sample_nusb_def)

definition sample_job :: urb_job where
  "sample_job =
     \<lparr>jb_basic = \<lparr>uh_command = 1, uh_seqnum = 9, uh_devid = 0x10002, uh_direction = 1, uh_ep = 2\<rparr>,
      jb_cmd = \<lparr>cs_transfer_flags = 0, cs_transfer_buffer_length = 5, cs_start_frame = 0,
        cs_number_of_packets = 0, cs_interval = 0, cs_setup = replicate 8 0\<rparr>, jb_out = []\<rparr>"

theorem submit_reply_framed_witness:
  "\<exists>actual. be32_at (submit_reply sample_job (fst (run_transfer sample_nusb sample_job (sample_device, ())))) 24 =
       Some actual \<and>
     sint actual = int (length (submit_reply sample_job
       (fst (run_transfer sample_nusb sample_job (sample_device, ())))) - 48)"
proof -
  have "run_transfer sample_nusb sample_job (sample_device, ()) =
      (fst (run_transfer sample_nusb sample_job (sample_device, ())),
       snd (run_transfer sample_nusb sample_job (sample_device, ())))" by simp
  from submit_reply_framed [OF sample_honest this] show ?thesis
    by (auto simp: sample_job_def dir_in_def USBIP_DIR_IN_def)
qed

end
