(* ===== verification/Urb_Machine.thy ===== *)
theory Urb_Machine
  imports Daemon_Urb
begin

text \<open>
  The URB session as a state machine (\<^verbatim>\<open>usbipd/src/daemon.rs\<close>, lines 508 to 815): the read loop, one
  asynchronous task per \<^verbatim>\<open>CMD_SUBMIT\<close>, the closures on the blocking pool, the map of in-flight
  requests, the semaphore and the writer lock, interleaved at the await points of the sources.

  A task is identified by its position in the list of jobs spawned so far. The output is the list of
  writes that got the writer lock, each with the bytes written so far, so that a write which is
  abandoned half way shows. Aborting a task only requests it: tokio drops the task when it next waits,
  until then it runs on; a closure on the blocking pool is never stopped. \<open>us_torn\<close> records that a
  write was abandoned; no step depends on it. \<open>us_refs\<close> is the strong count of the \<^verbatim>\<open>Arc\<close> that holds the
  opened device: the read loop has one reference until it returns, a submit task gets a clone when it
  is spawned and moves it into its closure when it starts, a task that is dropped before drops its
  clone, and a closure drops its own when it ends. Waiting for the mutex of an endpoint in
  \<^verbatim>\<open>cancel_endpoint\<close> only delays a step and is not modelled.
\<close>

section \<open>State\<close>

datatype task_phase =
    Spawned
  | Blocking
  | Transferred "host_error + nat \<times> bytes"
  | WaitWriter bytes
  | Writing
  | Finishing

record urb_task =
  tk_job :: urb_job
  tk_cancelled :: bool
  tk_aborted :: bool
  tk_phase :: task_phase

record inflight =
  inf_task :: nat
  inf_ep_addr :: u8

datatype owner = ByTask nat | ByMain

record log_entry =
  lg_owner :: owner
  lg_frame :: bytes
  lg_done :: nat

datatype main_phase =
    Reading
  | WaitPermit urb_job
  | Recording nat
  | UnlinkReply bytes
  | UnlinkWriting
  | Ended "session_error + unit"

record 'w urb_state =
  us_reader :: reader
  us_main :: main_phase
  us_jobs :: "urb_job list"
  us_tasks :: "nat \<rightharpoonup> urb_task"
  us_blocking :: "nat set"
  us_inflight :: "u32 \<rightharpoonup> inflight"
  us_permits :: nat
  us_lock :: "owner option"
  us_log :: "log_entry list"
  us_torn :: bool
  us_device :: opened_device
  us_refs :: nat
  us_world :: 'w

definition urb_start :: "opened_device \<Rightarrow> 'w \<Rightarrow> reader \<Rightarrow> 'w urb_state" where
  "urb_start opened w r =
     \<lparr>us_reader = r, us_main = Reading, us_jobs = [], us_tasks = Map.empty, us_blocking = {},
      us_inflight = Map.empty, us_permits = MAX_INFLIGHT_URBS, us_lock = None, us_log = [],
      us_torn = False, us_device = opened, us_refs = 1, us_world = w\<rparr>"

section \<open>Operations\<close>

definition set_phase :: "nat \<Rightarrow> task_phase \<Rightarrow> 'w urb_state \<Rightarrow> 'w urb_state" where
  "set_phase i p s =
     s\<lparr>us_tasks := (us_tasks s)(i := map_option (\<lambda>t. t\<lparr>tk_phase := p\<rparr>) (us_tasks s i))\<rparr>"

definition spawn_task :: "urb_job \<Rightarrow> 'w urb_state \<Rightarrow> 'w urb_state" where
  "spawn_task job s =
     (let i = length (us_jobs s)
      in s\<lparr>us_permits := us_permits s - 1, us_jobs := us_jobs s @ [job],
           us_tasks := (us_tasks s)(i \<mapsto>
             \<lparr>tk_job = job, tk_cancelled = False, tk_aborted = False, tk_phase = Spawned\<rparr>),
           us_refs := us_refs s + 1, us_main := Recording i\<rparr>)"

definition record_inflight :: "nat \<Rightarrow> 'w urb_state \<Rightarrow> 'w urb_state" where
  "record_inflight i s =
     (let basic = jb_basic (us_jobs s ! i)
      in s\<lparr>us_inflight := (us_inflight s)(uh_seqnum basic \<mapsto>
             \<lparr>inf_task = i, inf_ep_addr = ep_addr_of basic\<rparr>),
           us_main := Reading\<rparr>)"

text \<open>Setting the shared flag and calling \<^verbatim>\<open>abort\<close>: without effect on a task that has ended.\<close>

definition request_abort :: "nat set \<Rightarrow> 'w urb_state \<Rightarrow> 'w urb_state" where
  "request_abort is s =
     s\<lparr>us_tasks := \<lambda>i. map_option (\<lambda>t. if i \<in> is then t\<lparr>tk_cancelled := True, tk_aborted := True\<rparr> else t)
         (us_tasks s i)\<rparr>"

definition unlink_entry :: "'w nusb \<Rightarrow> u32 \<Rightarrow> 'w urb_state \<Rightarrow> 'w urb_state" where
  "unlink_entry nb seqnum s =
     (case us_inflight s seqnum of
        None \<Rightarrow> s
      | Some info \<Rightarrow>
          let s1 = s\<lparr>us_inflight := (us_inflight s)(seqnum := None)\<rparr>;
              s2 = (if inf_ep_addr info \<noteq> 0
                    then s1\<lparr>us_world := snd (cancel_endpoint nb (inf_ep_addr info) (us_device s1, us_world s1))\<rparr>
                    else s1)
          in request_abort {inf_task info} s2)"

definition drain_inflight :: "'w urb_state \<Rightarrow> 'w urb_state" where
  "drain_inflight s =
     (request_abort (inf_task ` ran (us_inflight s)) s)\<lparr>us_inflight := Map.empty\<rparr>"

definition begin_write :: "owner \<Rightarrow> bytes \<Rightarrow> 'w urb_state \<Rightarrow> 'w urb_state" where
  "begin_write who f s =
     s\<lparr>us_lock := Some who, us_log := us_log s @ [\<lparr>lg_owner = who, lg_frame = f, lg_done = 0\<rparr>]\<rparr>"

definition can_write :: "nat \<Rightarrow> 'w urb_state \<Rightarrow> bool" where
  "can_write n s \<longleftrightarrow>
     us_log s \<noteq> [] \<and> lg_done (last (us_log s)) < n \<and> n \<le> length (lg_frame (last (us_log s)))"

definition write_more :: "nat \<Rightarrow> 'w urb_state \<Rightarrow> 'w urb_state" where
  "write_more n s = s\<lparr>us_log := butlast (us_log s) @ [(last (us_log s))\<lparr>lg_done := n\<rparr>]\<rparr>"

definition end_task :: "nat \<Rightarrow> 'w urb_state \<Rightarrow> 'w urb_state" where
  "end_task i s = s\<lparr>us_tasks := (us_tasks s)(i := None), us_permits := us_permits s + 1\<rparr>"

text \<open>Dropping one reference to the device.\<close>

definition drop_ref :: "'w urb_state \<Rightarrow> 'w urb_state" where
  "drop_ref s = s\<lparr>us_refs := us_refs s - 1\<rparr>"

text \<open>Joining a closure of the blocking pool; \<^const>\<open>None\<close> if it panicked.\<close>

definition finish_blocking :: "nat \<Rightarrow> (host_error + nat \<times> bytes) option \<Rightarrow> 'w urb_state \<Rightarrow> 'w urb_state" where
  "finish_blocking i joined s =
     (if us_tasks s i = None then s
      else set_phase i (case joined of Some res \<Rightarrow> Transferred res | None \<Rightarrow> Finishing) s)"

section \<open>Steps\<close>

inductive urb_step :: "'w nusb \<Rightarrow> u32 \<Rightarrow> 'w urb_state \<Rightarrow> 'w urb_state \<Rightarrow> bool" for nb devid where
  ReadSubmit: "us_main s = Reading \<Longrightarrow> next_command devid (us_reader s) = (Submit job, r) \<Longrightarrow>
     urb_step nb devid s (s\<lparr>us_reader := r, us_main := WaitPermit job\<rparr>)"
| ReadUnlink: "us_main s = Reading \<Longrightarrow> next_command devid (us_reader s) = (Unlink basic u, r) \<Longrightarrow>
     urb_step nb devid s ((unlink_entry nb (cu_unlink_seqnum u) s)
       \<lparr>us_reader := r, us_main := UnlinkReply (unlink_reply basic)\<rparr>)"
| ReadEnd: "us_main s = Reading \<Longrightarrow> next_command devid (us_reader s) = (EndSession e, r) \<Longrightarrow>
     urb_step nb devid s ((drop_ref (drain_inflight s))\<lparr>us_reader := r, us_main := Ended e\<rparr>)"
| Spawn: "us_main s = WaitPermit job \<Longrightarrow> 0 < us_permits s \<Longrightarrow>
     urb_step nb devid s (spawn_task job s)"
| Record: "us_main s = Recording i \<Longrightarrow> urb_step nb devid s (record_inflight i s)"
| MainLock: "us_main s = UnlinkReply f \<Longrightarrow> us_lock s = None \<Longrightarrow>
     urb_step nb devid s ((begin_write ByMain f s)\<lparr>us_main := UnlinkWriting\<rparr>)"
| MainWrite: "us_main s = UnlinkWriting \<Longrightarrow> can_write n s \<Longrightarrow> n < length (lg_frame (last (us_log s))) \<Longrightarrow>
     urb_step nb devid s (write_more n s)"
| MainWritten: "us_main s = UnlinkWriting \<Longrightarrow> can_write n s \<Longrightarrow> n = length (lg_frame (last (us_log s))) \<Longrightarrow>
     urb_step nb devid s ((write_more n s)\<lparr>us_lock := None, us_main := Reading\<rparr>)"
| MainFail: "us_main s = UnlinkWriting \<Longrightarrow>
     urb_step nb devid s ((drop_ref (drain_inflight s))\<lparr>us_lock := None, us_torn := True,
       us_main := Ended (Inl (WriteFailed OtherIo))\<rparr>)"
| TaskStart: "us_tasks s i = Some t \<Longrightarrow> tk_phase t = Spawned \<Longrightarrow>
     urb_step nb devid s ((set_phase i Blocking s)\<lparr>us_blocking := insert i (us_blocking s)\<rparr>)"
| BlockingDone: "i \<in> us_blocking s \<Longrightarrow>
     run_transfer nb (us_jobs s ! i) (us_device s, us_world s) = (res, d, w) \<Longrightarrow>
     urb_step nb devid s ((drop_ref (finish_blocking i (Some res) s))
       \<lparr>us_blocking := us_blocking s - {i}, us_device := d, us_world := w\<rparr>)"
| BlockingPanicked: "i \<in> us_blocking s \<Longrightarrow> identity d = identity (us_device s) \<Longrightarrow>
     urb_step nb devid s ((drop_ref (finish_blocking i None s))
       \<lparr>us_blocking := us_blocking s - {i}, us_device := d, us_world := w\<rparr>)"
| TaskSkip: "us_tasks s i = Some t \<Longrightarrow> tk_phase t = Transferred res \<Longrightarrow> tk_cancelled t \<Longrightarrow>
     urb_step nb devid s (set_phase i Finishing s)"
| TaskReply: "us_tasks s i = Some t \<Longrightarrow> tk_phase t = Transferred res \<Longrightarrow> \<not> tk_cancelled t \<Longrightarrow>
     urb_step nb devid s (set_phase i (WaitWriter (submit_reply (tk_job t) res)) s)"
| TaskLock: "us_tasks s i = Some t \<Longrightarrow> tk_phase t = WaitWriter f \<Longrightarrow> us_lock s = None \<Longrightarrow>
     urb_step nb devid s (set_phase i Writing (begin_write (ByTask i) f s))"
| TaskWrite: "us_tasks s i = Some t \<Longrightarrow> tk_phase t = Writing \<Longrightarrow> can_write n s \<Longrightarrow>
     n < length (lg_frame (last (us_log s))) \<Longrightarrow> urb_step nb devid s (write_more n s)"
| TaskWritten: "us_tasks s i = Some t \<Longrightarrow> tk_phase t = Writing \<Longrightarrow> can_write n s \<Longrightarrow>
     n = length (lg_frame (last (us_log s))) \<Longrightarrow>
     urb_step nb devid s ((set_phase i Finishing (write_more n s))\<lparr>us_lock := None\<rparr>)"
| TaskFail: "us_tasks s i = Some t \<Longrightarrow> tk_phase t = Writing \<Longrightarrow>
     urb_step nb devid s ((set_phase i Finishing s)\<lparr>us_lock := None, us_torn := True\<rparr>)"
| TaskFinish: "us_tasks s i = Some t \<Longrightarrow> tk_phase t = Finishing \<Longrightarrow>
     urb_step nb devid s ((end_task i s)
       \<lparr>us_inflight := (us_inflight s)(uh_seqnum (jb_basic (tk_job t)) := None)\<rparr>)"
| TaskKill: "us_tasks s i = Some t \<Longrightarrow> tk_aborted t \<Longrightarrow> tk_phase t \<in> {Blocking} \<union> range WaitWriter \<Longrightarrow>
     urb_step nb devid s (end_task i s)"
| TaskKillSpawned: "us_tasks s i = Some t \<Longrightarrow> tk_aborted t \<Longrightarrow> tk_phase t = Spawned \<Longrightarrow>
     urb_step nb devid s (drop_ref (end_task i s))"
| TaskKillWriting: "us_tasks s i = Some t \<Longrightarrow> tk_aborted t \<Longrightarrow> tk_phase t = Writing \<Longrightarrow>
     urb_step nb devid s ((end_task i s)\<lparr>us_lock := None, us_torn := True\<rparr>)"

inductive_cases urb_stepE: "urb_step nb devid s t"

declare set_phase_def [trans_defs] spawn_task_def [trans_defs] record_inflight_def [trans_defs]
  request_abort_def [trans_defs] unlink_entry_def [trans_defs] drain_inflight_def [trans_defs]
  begin_write_def [trans_defs] write_more_def [trans_defs] end_task_def [trans_defs]
  finish_blocking_def [trans_defs] drop_ref_def [trans_defs]

section \<open>Permits\<close>

definition permits_balanced :: "'w urb_state \<Rightarrow> bool" where
  "permits_balanced s \<longleftrightarrow>
     finite (dom (us_tasks s)) \<and> us_permits s + card (dom (us_tasks s)) = MAX_INFLIGHT_URBS \<and>
     dom (us_tasks s) \<subseteq> {..< length (us_jobs s)}"

lemma ops_dom [simp]:
  "dom (us_tasks (set_phase i p s)) = dom (us_tasks s)"
  "dom (us_tasks (request_abort is s)) = dom (us_tasks s)"
  "dom (us_tasks (unlink_entry nb q s)) = dom (us_tasks s)"
  "dom (us_tasks (drain_inflight s)) = dom (us_tasks s)"
  "dom (us_tasks (finish_blocking i res s)) = dom (us_tasks s)"
  "dom (us_tasks (drop_ref s)) = dom (us_tasks s)"
proof -
  show set_phase: "dom (us_tasks (set_phase i p s)) = dom (us_tasks s)" for i p and s :: "'b urb_state"
    by (cases "us_tasks s i") (auto simp: set_phase_def dom_def)
  show abort: "dom (us_tasks (request_abort is s)) = dom (us_tasks s)" for "is" and s :: "'b urb_state"
    unfolding request_abort_def by (rule set_eqI) (simp add: domIff)
  show "dom (us_tasks (unlink_entry nb q s)) = dom (us_tasks s)"
    by (simp add: unlink_entry_def Let_def abort split: option.split)
  show "dom (us_tasks (drain_inflight s)) = dom (us_tasks s)"
    by (simp add: drain_inflight_def abort)
  show "dom (us_tasks (finish_blocking i res s)) = dom (us_tasks s)"
    by (simp add: finish_blocking_def set_phase)
  show "dom (us_tasks (drop_ref s)) = dom (us_tasks s)"
    by (simp add: drop_ref_def)
qed

text \<open>The fields that an operation leaves alone.\<close>

lemma ops_tasks [simp]:
  "us_tasks (begin_write who f s) = us_tasks s" "us_tasks (write_more n s) = us_tasks s"
  "us_tasks (record_inflight i s) = us_tasks s" "us_tasks (drop_ref s) = us_tasks s"
  by (simp_all add: trans_defs Let_def split: option.split)

lemma ops_permits [simp]:
  "us_permits (set_phase i p s) = us_permits s" "us_permits (request_abort is s) = us_permits s"
  "us_permits (unlink_entry nb q s) = us_permits s" "us_permits (drain_inflight s) = us_permits s"
  "us_permits (finish_blocking i res s) = us_permits s"
  "us_permits (begin_write who f s) = us_permits s" "us_permits (write_more n s) = us_permits s"
  "us_permits (record_inflight i s) = us_permits s" "us_permits (drop_ref s) = us_permits s"
  by (simp_all add: trans_defs Let_def split: option.split)

lemma ops_jobs [simp]:
  "us_jobs (set_phase i p s) = us_jobs s" "us_jobs (request_abort is s) = us_jobs s"
  "us_jobs (unlink_entry nb q s) = us_jobs s" "us_jobs (drain_inflight s) = us_jobs s"
  "us_jobs (finish_blocking i res s) = us_jobs s" "us_jobs (begin_write who f s) = us_jobs s"
  "us_jobs (write_more n s) = us_jobs s" "us_jobs (record_inflight i s) = us_jobs s"
  "us_jobs (end_task i s) = us_jobs s" "us_jobs (drop_ref s) = us_jobs s"
  by (simp_all add: trans_defs Let_def split: option.split)

lemma ops_lock [simp]:
  "us_lock (set_phase i p s) = us_lock s" "us_lock (request_abort is s) = us_lock s"
  "us_lock (unlink_entry nb q s) = us_lock s" "us_lock (drain_inflight s) = us_lock s"
  "us_lock (finish_blocking i res s) = us_lock s" "us_lock (write_more n s) = us_lock s"
  "us_lock (record_inflight i s) = us_lock s" "us_lock (end_task i s) = us_lock s"
  "us_lock (drop_ref s) = us_lock s"
  by (simp_all add: trans_defs Let_def split: option.split)

lemma ops_main [simp]:
  "us_main (set_phase i p s) = us_main s" "us_main (request_abort is s) = us_main s"
  "us_main (unlink_entry nb q s) = us_main s" "us_main (drain_inflight s) = us_main s"
  "us_main (finish_blocking i res s) = us_main s" "us_main (begin_write who f s) = us_main s"
  "us_main (write_more n s) = us_main s" "us_main (end_task i s) = us_main s"
  "us_main (drop_ref s) = us_main s"
  by (simp_all add: trans_defs Let_def split: option.split)

lemma ops_blocking [simp]:
  "us_blocking (set_phase i p s) = us_blocking s"
  "us_blocking (request_abort is s) = us_blocking s"
  "us_blocking (unlink_entry nb q s) = us_blocking s"
  "us_blocking (drain_inflight s) = us_blocking s"
  "us_blocking (finish_blocking i res s) = us_blocking s"
  "us_blocking (begin_write who f s) = us_blocking s"
  "us_blocking (write_more n s) = us_blocking s"
  "us_blocking (record_inflight i s) = us_blocking s" "us_blocking (end_task i s) = us_blocking s"
  "us_blocking (drop_ref s) = us_blocking s"
  by (simp_all add: trans_defs Let_def split: option.split)

lemma ops_device [simp]:
  "us_device (set_phase i p s) = us_device s" "us_device (spawn_task job s) = us_device s"
  "us_device (record_inflight i s) = us_device s" "us_device (request_abort is s) = us_device s"
  "us_device (unlink_entry nb q s) = us_device s" "us_device (drain_inflight s) = us_device s"
  "us_device (begin_write who f s) = us_device s" "us_device (write_more n s) = us_device s"
  "us_device (end_task i s) = us_device s" "us_device (finish_blocking i j s) = us_device s"
  "us_device (drop_ref s) = us_device s"
  by (simp_all add: trans_defs Let_def split: option.split)

lemma ops_torn [simp]:
  "us_torn (set_phase i p s) = us_torn s" "us_torn (request_abort is s) = us_torn s"
  "us_torn (unlink_entry nb q s) = us_torn s" "us_torn (drain_inflight s) = us_torn s"
  "us_torn (finish_blocking i res s) = us_torn s" "us_torn (begin_write who f s) = us_torn s"
  "us_torn (write_more n s) = us_torn s" "us_torn (record_inflight i s) = us_torn s"
  "us_torn (end_task i s) = us_torn s" "us_torn (drop_ref s) = us_torn s"
  by (simp_all add: trans_defs Let_def split: option.split)

lemma ops_log [simp]:
  "us_log (set_phase i p s) = us_log s" "us_log (request_abort is s) = us_log s"
  "us_log (unlink_entry nb q s) = us_log s" "us_log (drain_inflight s) = us_log s"
  "us_log (finish_blocking i res s) = us_log s" "us_log (record_inflight i s) = us_log s"
  "us_log (end_task i s) = us_log s" "us_log (drop_ref s) = us_log s"
  by (simp_all add: trans_defs Let_def split: option.split)

lemma ops_reader [simp]:
  "us_reader (set_phase i p s) = us_reader s" "us_reader (request_abort is s) = us_reader s"
  "us_reader (unlink_entry nb q s) = us_reader s" "us_reader (drain_inflight s) = us_reader s"
  "us_reader (finish_blocking i res s) = us_reader s"
  "us_reader (begin_write who f s) = us_reader s" "us_reader (write_more n s) = us_reader s"
  "us_reader (record_inflight i s) = us_reader s" "us_reader (end_task i s) = us_reader s"
  "us_reader (spawn_task job s) = us_reader s" "us_reader (drop_ref s) = us_reader s"
  by (simp_all add: trans_defs Let_def split: option.split)

lemma ops_inflight [simp]:
  "us_inflight (set_phase i p s) = us_inflight s"
  "us_inflight (request_abort is s) = us_inflight s"
  "us_inflight (finish_blocking i res s) = us_inflight s"
  "us_inflight (begin_write who f s) = us_inflight s"
  "us_inflight (write_more n s) = us_inflight s" "us_inflight (end_task i s) = us_inflight s"
  "us_inflight (spawn_task job s) = us_inflight s" "us_inflight (drop_ref s) = us_inflight s"
  by (simp_all add: trans_defs Let_def split: option.split)

lemma ops_refs [simp]:
  "us_refs (set_phase i p s) = us_refs s" "us_refs (request_abort is s) = us_refs s"
  "us_refs (unlink_entry nb q s) = us_refs s" "us_refs (drain_inflight s) = us_refs s"
  "us_refs (finish_blocking i res s) = us_refs s" "us_refs (begin_write who f s) = us_refs s"
  "us_refs (write_more n s) = us_refs s" "us_refs (record_inflight i s) = us_refs s"
  "us_refs (end_task i s) = us_refs s" "us_refs (spawn_task job s) = us_refs s + 1"
  "us_refs (drop_ref s) = us_refs s - 1"
  by (simp_all add: trans_defs Let_def split: option.split)

lemma same_permits:
  "permits_balanced s \<Longrightarrow> dom (us_tasks t) = dom (us_tasks s) \<Longrightarrow> us_permits t = us_permits s \<Longrightarrow>
   us_jobs t = us_jobs s \<Longrightarrow> permits_balanced t"
  by (simp add: permits_balanced_def)

lemma end_task_balanced:
  assumes "permits_balanced s" "us_tasks s i = Some t"
  shows "permits_balanced (end_task i s)"
proof -
  have "i \<in> dom (us_tasks s)" "finite (dom (us_tasks s))" using assms by (auto simp: permits_balanced_def)
  then have "card (dom (us_tasks s)) = Suc (card (dom (us_tasks s) - {i}))"
    by (metis card_Suc_Diff1)
  with assms show ?thesis by (auto simp: permits_balanced_def end_task_def dom_fun_upd)
qed

lemma spawn_task_balanced:
  assumes "permits_balanced s" "0 < us_permits s"
  shows "permits_balanced (spawn_task job s)"
proof -
  have "length (us_jobs s) \<notin> dom (us_tasks s)" using assms by (auto simp: permits_balanced_def)
  with assms show ?thesis by (auto simp: permits_balanced_def spawn_task_def Let_def)
qed

lemma permits_step:
  assumes "urb_step nb devid s t" "permits_balanced s"
  shows "permits_balanced t"
  using assms
proof (cases rule: urb_step.cases)
  case (Spawn job)
  with assms show ?thesis by (simp add: spawn_task_balanced)
next
  case (TaskFinish i tk)
  from end_task_balanced [OF assms(2) this(2)] show ?thesis
    unfolding TaskFinish(1) by (rule same_permits) simp_all
next
  case (TaskKill i tk)
  from end_task_balanced [OF assms(2) this(2)] show ?thesis
    unfolding TaskKill(1) by (rule same_permits) simp_all
next
  case (TaskKillSpawned i tk)
  from end_task_balanced [OF assms(2) this(2)] show ?thesis
    unfolding TaskKillSpawned(1) by (rule same_permits) simp_all
next
  case (TaskKillWriting i tk)
  from end_task_balanced [OF assms(2) this(2)] show ?thesis
    unfolding TaskKillWriting(1) by (rule same_permits) simp_all
qed (simp_all add: same_permits [OF assms(2)])

section \<open>Phases\<close>

definition phase :: "'w urb_state \<Rightarrow> nat \<Rightarrow> task_phase option" where
  "phase s i = map_option tk_phase (us_tasks s i)"

definition job_of :: "'w urb_state \<Rightarrow> nat \<Rightarrow> urb_job option" where
  "job_of s i = map_option tk_job (us_tasks s i)"

lemma phase_task [simp]: "us_tasks s i = Some t \<Longrightarrow> phase s i = Some (tk_phase t)"
  "us_tasks s i = Some t \<Longrightarrow> job_of s i = Some (tk_job t)"
  by (simp_all add: phase_def job_of_def)

lemma ops_phase [simp]:
  "phase (set_phase i p s) j = (if j = i \<and> phase s i \<noteq> None then Some p else phase s j)"
  "phase (request_abort is s) j = phase s j" "phase (unlink_entry nb q s) j = phase s j"
  "phase (drain_inflight s) j = phase s j" "phase (begin_write who f s) j = phase s j"
  "phase (write_more n s) j = phase s j" "phase (record_inflight k s) j = phase s j"
  "phase (end_task i s) j = (if j = i then None else phase s j)"
  "phase (finish_blocking i res s) j = (if j = i \<and> phase s i \<noteq> None then
     Some (case res of Some r \<Rightarrow> Transferred r | None \<Rightarrow> Finishing) else phase s j)"
  "phase (spawn_task job s) j = (if j = length (us_jobs s) then Some Spawned else phase s j)"
  "phase (drop_ref s) j = phase s j"
  by (cases "us_tasks s j"; auto simp: phase_def trans_defs Let_def split: option.split)+

lemma ops_job_of [simp]:
  "job_of (set_phase i p s) j = job_of s j" "job_of (request_abort is s) j = job_of s j"
  "job_of (unlink_entry nb q s) j = job_of s j" "job_of (drain_inflight s) j = job_of s j"
  "job_of (begin_write who f s) j = job_of s j" "job_of (write_more n s) j = job_of s j"
  "job_of (record_inflight k s) j = job_of s j"
  "job_of (end_task i s) j = (if j = i then None else job_of s j)"
  "job_of (finish_blocking i res s) j = job_of s j"
  "job_of (spawn_task job s) j = (if j = length (us_jobs s) then Some job else job_of s j)"
  "job_of (drop_ref s) j = job_of s j"
  by (cases "us_tasks s j"; auto simp: job_of_def trans_defs Let_def split: option.split)+

lemma phase_cong [simp]:
  "phase (s\<lparr>us_reader := r\<rparr>) = phase s" "phase (s\<lparr>us_main := m\<rparr>) = phase s"
  "phase (s\<lparr>us_blocking := b\<rparr>) = phase s" "phase (s\<lparr>us_inflight := x\<rparr>) = phase s"
  "phase (s\<lparr>us_lock := k\<rparr>) = phase s" "phase (s\<lparr>us_torn := q\<rparr>) = phase s"
  "phase (s\<lparr>us_device := d\<rparr>) = phase s" "phase (s\<lparr>us_world := w\<rparr>) = phase s"
  "job_of (s\<lparr>us_reader := r\<rparr>) = job_of s" "job_of (s\<lparr>us_main := m\<rparr>) = job_of s"
  "job_of (s\<lparr>us_blocking := b\<rparr>) = job_of s" "job_of (s\<lparr>us_inflight := x\<rparr>) = job_of s"
  "job_of (s\<lparr>us_lock := k\<rparr>) = job_of s" "job_of (s\<lparr>us_torn := q\<rparr>) = job_of s"
  "job_of (s\<lparr>us_device := d\<rparr>) = job_of s" "job_of (s\<lparr>us_world := w\<rparr>) = job_of s"
  by (simp_all add: phase_def job_of_def fun_eq_iff)

lemma spawn_task_fields [simp]:
  "us_jobs (spawn_task job s) = us_jobs s @ [job]" "us_main (spawn_task job s) = Recording (length (us_jobs s))"
  "us_lock (spawn_task job s) = us_lock s" "us_log (spawn_task job s) = us_log s"
  "us_blocking (spawn_task job s) = us_blocking s" "us_torn (spawn_task job s) = us_torn s"
  by (simp_all add: spawn_task_def Let_def)

lemma write_more_fields [simp]:
  "us_log (write_more n s) = butlast (us_log s) @ [(last (us_log s))\<lparr>lg_done := n\<rparr>]"
  by (simp add: write_more_def)

lemma record_inflight_main [simp]: "us_main (record_inflight i s) = Reading"
  by (simp add: record_inflight_def Let_def)

lemma begin_write_fields [simp]:
  "us_lock (begin_write who f s) = Some who"
  "us_log (begin_write who f s) = us_log s @ [\<lparr>lg_owner = who, lg_frame = f, lg_done = 0\<rparr>]"
  by (simp_all add: begin_write_def)

section \<open>Tasks and their jobs\<close>

text \<open>
  A live task runs the job of its number; a closure on the blocking pool belongs to a task that
  waits for it or that is gone; a frame that waits for the writer is the reply to its job.
\<close>

definition tasks_wf :: "'w urb_state \<Rightarrow> bool" where
  "tasks_wf s \<longleftrightarrow>
     (\<forall>i job. job_of s i = Some job \<longrightarrow> i < length (us_jobs s) \<and> us_jobs s ! i = job) \<and>
     (\<forall>i \<in> us_blocking s. i < length (us_jobs s) \<and> phase s i \<in> {None, Some Blocking}) \<and>
     (\<forall>i f. phase s i = Some (WaitWriter f) \<longrightarrow> (\<exists>res. f = submit_reply (us_jobs s ! i) res)) \<and>
     (\<forall>i. us_main s = Recording i \<longrightarrow> i < length (us_jobs s)) \<and>
     (\<forall>f. us_main s = UnlinkReply f \<longrightarrow> (\<exists>basic. f = unlink_reply basic))"

lemma phase_job: "phase s i = None \<longleftrightarrow> job_of s i = None"
  by (simp add: phase_def job_of_def)

lemma tasks_wf_fresh: "tasks_wf s \<Longrightarrow> length (us_jobs s) \<le> i \<Longrightarrow> job_of s i = None \<and> phase s i = None \<and> i \<notin> us_blocking s"
  unfolding tasks_wf_def phase_job by (metis not_le option.exhaust)

lemma tasks_wf_step:
  assumes "urb_step nb devid s t" "tasks_wf s"
  shows "tasks_wf t"
  using assms(1)
proof (cases rule: urb_step.cases)
  case (Spawn job)
  have "i < length (us_jobs s)" if "phase s i = Some p" for i p
    using tasks_wf_fresh [OF assms(2), of i] that by (cases "i < length (us_jobs s)") auto
  with assms(2) tasks_wf_fresh [OF assms(2), of "length (us_jobs s)"] show ?thesis
    unfolding Spawn(1) tasks_wf_def by (auto simp: nth_append less_Suc_eq)
next
  case (TaskReply i tk res)
  then have "us_jobs s ! i = tk_job tk" using assms(2) by (simp add: tasks_wf_def)
  with assms(2) TaskReply show ?thesis by (auto simp: tasks_wf_def)
qed (use assms(2) in \<open>auto simp: tasks_wf_def\<close>)

section \<open>The writer lock and the output\<close>

definition lock_wf :: "'w urb_state \<Rightarrow> bool" where
  "lock_wf s \<longleftrightarrow>
     (\<forall>i. us_lock s = Some (ByTask i) \<longleftrightarrow> phase s i = Some Writing) \<and>
     (us_lock s = Some ByMain \<longleftrightarrow> us_main s = UnlinkWriting) \<and>
     (\<forall>who. us_lock s = Some who \<longrightarrow> us_log s \<noteq> [] \<and> lg_owner (last (us_log s)) = who \<and>
        lg_done (last (us_log s)) < length (lg_frame (last (us_log s))))"

lemma reply_not_empty: "0 < length (submit_reply job res)" "0 < length (unlink_reply basic)"
  by (simp_all add: submit_reply_def unlink_reply_def length_write_ret_submit length_write_ret_unlink
      ret_submit_wf_def split: prod.split del: length_greater_0_conv)

lemma lock_writing:
  "lock_wf s \<Longrightarrow> us_tasks s i = Some t \<Longrightarrow> tk_phase t = Writing \<Longrightarrow> us_lock s = Some (ByTask i)"
  by (simp add: lock_wf_def)

lemma lock_released:
  assumes "lock_wf s" "us_lock s = Some (ByTask i)" "us_lock t = None" "us_main t = us_main s"
    and "\<And>j. j \<noteq> i \<Longrightarrow> phase t j = phase s j" "phase t i \<noteq> Some Writing"
  shows "lock_wf t"
proof -
  have "us_main s \<noteq> UnlinkWriting" using assms(1,2) unfolding lock_wf_def by (metis option.inject owner.distinct(1))
  moreover have "phase t j \<noteq> Some Writing" for j
    using assms(1,2,5,6) unfolding lock_wf_def by (metis option.inject owner.inject)
  ultimately show ?thesis using assms(3,4) by (simp add: lock_wf_def)
qed

lemma lock_wf_step:
  assumes "urb_step nb devid s t" "lock_wf s" "tasks_wf s"
  shows "lock_wf t"
  using assms(1)
proof (cases rule: urb_step.cases)
  case (Spawn job)
  with assms(2) tasks_wf_fresh [OF assms(3), of "length (us_jobs s)"] show ?thesis
    by (auto simp: lock_wf_def)
next
  case (MainLock f)
  with assms(3) obtain basic where "f = unlink_reply basic" by (auto simp: tasks_wf_def)
  with MainLock assms(2) reply_not_empty show ?thesis by (auto simp: lock_wf_def)
next
  case (TaskLock i tk f)
  then have "phase s i = Some (WaitWriter f)" by simp
  with assms(3) obtain res where "f = submit_reply (us_jobs s ! i) res"
    unfolding tasks_wf_def by blast
  with TaskLock assms(2) reply_not_empty show ?thesis by (auto simp: lock_wf_def)
next
  case (BlockingDone i res d w)
  with assms(3) have "phase s i \<in> {None, Some Blocking}" by (auto simp: tasks_wf_def)
  with BlockingDone assms(2) show ?thesis by (auto simp: lock_wf_def)
next
  case (BlockingPanicked i d w)
  with assms(3) have "phase s i \<in> {None, Some Blocking}" by (auto simp: tasks_wf_def)
  with BlockingPanicked assms(2) show ?thesis by (auto simp: lock_wf_def)
next
  case (TaskWritten i tk n)
  from lock_writing [OF assms(2) this(2,3)] TaskWritten(2) show ?thesis
    unfolding TaskWritten(1) by (intro lock_released [OF assms(2)]) auto
next
  case (TaskFail i tk)
  from lock_writing [OF assms(2) this(2,3)] TaskFail(2) show ?thesis
    unfolding TaskFail(1) by (intro lock_released [OF assms(2)]) auto
next
  case (TaskKillWriting i tk)
  from lock_writing [OF assms(2) this(2,4)] show ?thesis
    unfolding TaskKillWriting(1) by (intro lock_released [OF assms(2)]) auto
qed (use assms(2) in \<open>auto simp: lock_wf_def can_write_def\<close>)

text \<open>
  What is written: replies to jobs that were spawned and unlink replies, at most one per task, and
  whole unless a write was abandoned.
\<close>

definition entry_wf :: "urb_job list \<Rightarrow> log_entry \<Rightarrow> bool" where
  "entry_wf jobs e \<longleftrightarrow>
     lg_done e \<le> length (lg_frame e) \<and>
     (case lg_owner e of
        ByTask i \<Rightarrow> i < length jobs \<and> (\<exists>res. lg_frame e = submit_reply (jobs ! i) res)
      | ByMain \<Rightarrow> \<exists>basic. lg_frame e = unlink_reply basic)"

definition task_writes :: "log_entry list \<Rightarrow> nat list" where
  "task_writes log = List.map_filter (\<lambda>e. case lg_owner e of ByTask i \<Rightarrow> Some i | ByMain \<Rightarrow> None) log"

definition settled :: "'w urb_state \<Rightarrow> log_entry list" where
  "settled s = (if us_lock s = None then us_log s else butlast (us_log s))"

definition log_wf :: "'w urb_state \<Rightarrow> bool" where
  "log_wf s \<longleftrightarrow>
     (\<forall>e \<in> set (us_log s). entry_wf (us_jobs s) e) \<and>
     distinct (task_writes (us_log s)) \<and>
     (\<forall>i \<in> set (task_writes (us_log s)). phase s i \<in> {None, Some Writing, Some Finishing}) \<and>
     (us_torn s \<or> (\<forall>e \<in> set (settled s). lg_done e = length (lg_frame e)))"

lemma task_writes_simps [simp]:
  "task_writes [] = []" "task_writes (xs @ ys) = task_writes xs @ task_writes ys"
  "task_writes (e # es) = (case lg_owner e of ByTask i \<Rightarrow> [i] | ByMain \<Rightarrow> []) @ task_writes es"
  by (auto simp: task_writes_def List.map_filter_def split: owner.split)

lemma entry_wf_append: "entry_wf jobs e \<Longrightarrow> entry_wf (jobs @ [j]) e"
  by (auto simp: entry_wf_def nth_append split: owner.splits)

lemma task_writes_bound:
  "\<forall>e \<in> set log. entry_wf jobs e \<Longrightarrow> i \<in> set (task_writes log) \<Longrightarrow> i < length jobs"
  by (induction log) (auto simp: entry_wf_def split: owner.splits)

text \<open>Continuing the write at the end of the log.\<close>

lemma write_more_log:
  assumes "can_write n s"
  obtains l e where "us_log s = l @ [e]" "us_log (write_more n s) = l @ [e\<lparr>lg_done := n\<rparr>]"
    "lg_done e < n" "n \<le> length (lg_frame e)" "last (us_log s) = e"
  using assms
  by (cases "us_log s" rule: rev_cases) (auto simp: can_write_def write_more_def)

lemma log_wf_write:
  assumes "log_wf s" "can_write n s" "us_lock s = Some who"
    and t: "us_jobs t = us_jobs s" "us_log t = us_log (write_more n s)" "us_torn t = us_torn s"
      "\<And>i. i \<in> set (task_writes (us_log s)) \<Longrightarrow> phase t i \<in> {None, Some Writing, Some Finishing}"
      "us_lock t = Some who \<or> us_lock t = None \<and> n = length (lg_frame (last (us_log s)))"
  shows "log_wf t"
proof -
  obtain l e where l: "us_log s = l @ [e]" "us_log t = l @ [e\<lparr>lg_done := n\<rparr>]"
    "n \<le> length (lg_frame e)" "last (us_log s) = e"
    using write_more_log [OF assms(2)] t(2) by metis
  have "entry_wf (us_jobs s) e" using assms(1) l by (simp add: log_wf_def)
  with l(3) have "entry_wf (us_jobs s) (e\<lparr>lg_done := n\<rparr>)"
    by (cases "lg_owner e") (auto simp: entry_wf_def)
  moreover have "task_writes (us_log t) = task_writes (us_log s)" using l by simp
  moreover have "us_torn t \<or> (\<forall>e \<in> set (settled t). lg_done e = length (lg_frame e))"
    using assms(1,3) t(3,5) l by (auto simp: log_wf_def settled_def)
  ultimately show ?thesis
    using assms(1) t(1,4) l by (auto simp: log_wf_def)
qed

lemma log_wf_same:
  assumes "log_wf s" "us_jobs t = us_jobs s" "us_log t = us_log s" "us_torn s \<longrightarrow> us_torn t"
    and "us_torn t \<or> us_lock t = us_lock s"
    and "\<And>i. phase s i \<in> {None, Some Writing, Some Finishing} \<Longrightarrow> phase t i \<in> {None, Some Writing, Some Finishing}"
  shows "log_wf t"
proof -
  have "us_torn t \<or> settled t = settled s" using assms(3,5) by (auto simp: settled_def)
  with assms show ?thesis by (auto simp: log_wf_def)
qed

lemma log_wf_begin:
  assumes "log_wf s" "us_lock s = None" "entry_wf (us_jobs s) \<lparr>lg_owner = who, lg_frame = f, lg_done = 0\<rparr>"
    and t: "us_jobs t = us_jobs s" "us_torn t = us_torn s" "us_lock t = Some who"
      "us_log t = us_log s @ [\<lparr>lg_owner = who, lg_frame = f, lg_done = 0\<rparr>]"
    and p: "\<And>j. j \<in> set (task_writes (us_log s)) \<Longrightarrow> who \<noteq> ByTask j \<and> phase t j = phase s j"
      "\<And>i. who = ByTask i \<Longrightarrow> phase t i = Some Writing"
  shows "log_wf t"
proof -
  have "distinct (task_writes (us_log t))"
    using assms(1) p(1) t(4) by (cases who) (auto simp: log_wf_def)
  moreover have "\<forall>i \<in> set (task_writes (us_log t)). phase t i \<in> {None, Some Writing, Some Finishing}"
    using assms(1) p t(4) by (cases who) (auto simp: log_wf_def)
  moreover have "us_torn t \<or> (\<forall>e \<in> set (settled t). lg_done e = length (lg_frame e))"
    using assms(1,2) t by (auto simp: log_wf_def settled_def)
  ultimately show ?thesis using assms(1,3) t by (auto simp: log_wf_def)
qed

lemma log_wf_step:
  assumes "urb_step nb devid s t" "log_wf s" "lock_wf s" "tasks_wf s"
  shows "log_wf t"
  using assms(1)
proof (cases rule: urb_step.cases)
  case (Spawn job)
  have "length (us_jobs s) \<notin> set (task_writes (us_log s))"
    using task_writes_bound [of "us_log s" "us_jobs s"] assms(2) by (auto simp: log_wf_def)
  with Spawn assms(2) show ?thesis by (auto simp: log_wf_def settled_def entry_wf_append)
next
  case (MainLock f)
  have "\<exists>basic. f = unlink_reply basic" using assms(4) MainLock by (auto simp: tasks_wf_def)
  then have "entry_wf (us_jobs s) \<lparr>lg_owner = ByMain, lg_frame = f, lg_done = 0\<rparr>" by (simp add: entry_wf_def)
  then show ?thesis
    unfolding MainLock(1) by (rule log_wf_begin [OF assms(2) MainLock(3)]) simp_all
next
  case (TaskLock i tk f)
  then have ph: "phase s i = Some (WaitWriter f)" "job_of s i = Some (tk_job tk)" by simp_all
  with assms(4) have "i < length (us_jobs s)" "\<exists>res. f = submit_reply (us_jobs s ! i) res"
    unfolding tasks_wf_def by blast+
  then have e: "entry_wf (us_jobs s) \<lparr>lg_owner = ByTask i, lg_frame = f, lg_done = 0\<rparr>"
    by (simp add: entry_wf_def)
  have "i \<notin> set (task_writes (us_log s))" using assms(2) ph by (auto simp: log_wf_def)
  then show ?thesis
    using ph by (intro log_wf_begin [OF assms(2) TaskLock(4) e]) (auto simp: TaskLock(1))
next
  case (MainWrite n)
  with assms(3) have "us_lock s = Some ByMain" by (simp add: lock_wf_def)
  with MainWrite assms(2) show ?thesis
    by (intro log_wf_write [OF assms(2) MainWrite(3)]) (auto simp: log_wf_def)
next
  case (MainWritten n)
  with assms(3) have "us_lock s = Some ByMain" by (simp add: lock_wf_def)
  with MainWritten assms(2) show ?thesis
    by (intro log_wf_write [OF assms(2) MainWritten(3)]) (auto simp: log_wf_def)
next
  case (TaskWrite i tk n)
  then have "us_lock s = Some (ByTask i)" using assms(3) by (simp add: lock_wf_def)
  with TaskWrite assms(2) show ?thesis
    by (intro log_wf_write [OF assms(2) TaskWrite(4)]) (auto simp: log_wf_def)
next
  case (TaskWritten i tk n)
  then have "us_lock s = Some (ByTask i)" using assms(3) by (simp add: lock_wf_def)
  with TaskWritten assms(2) show ?thesis
    by (intro log_wf_write [OF assms(2) TaskWritten(4)]) (auto simp: log_wf_def)
next
  case (BlockingDone i res d w)
  have "phase s i \<in> {None, Some Blocking}" using assms(4) BlockingDone(2) by (auto simp: tasks_wf_def)
  moreover have "phase s i \<in> {None, Some Writing, Some Finishing}" if "i \<in> set (task_writes (us_log s))"
    using assms(2) that unfolding log_wf_def by blast
  ultimately have "i \<notin> set (task_writes (us_log s)) \<or> phase s i = None" by auto
  then have "phase t j = phase s j" if "j \<in> set (task_writes (us_log s))" for j
    using that BlockingDone(1) by auto
  with assms(2) BlockingDone(1) show ?thesis by (auto simp: log_wf_def settled_def)
qed ((rule log_wf_same [OF assms(2)]; auto split: if_splits)+)

section \<open>References to the device\<close>

text \<open>
  The strong count is the number of users of the device: the read loop, the tasks that have not
  handed their clone to a closure, and the closures.
\<close>

definition waiting :: "'w urb_state \<Rightarrow> nat set" where
  "waiting s = {i. phase s i = Some Spawned}"

definition refs_counted :: "'w urb_state \<Rightarrow> bool" where
  "refs_counted s \<longleftrightarrow>
     us_refs s = (case us_main s of Ended _ \<Rightarrow> 0 | _ \<Rightarrow> 1) + card (waiting s) + card (us_blocking s)"

lemma users_finite:
  assumes "tasks_wf s"
  shows "finite (waiting s)" "finite (us_blocking s)" "length (us_jobs s) \<notin> waiting s"
proof -
  have "waiting s \<subseteq> {..< length (us_jobs s)}" "us_blocking s \<subseteq> {..< length (us_jobs s)}"
    using tasks_wf_fresh [OF assms] by (force simp: waiting_def not_less [symmetric])+
  then show "finite (waiting s)" "finite (us_blocking s)" "length (us_jobs s) \<notin> waiting s"
    by (auto intro: finite_subset)
qed

lemma waiting_gone:
  assumes "us_tasks s i = Some t" "tk_phase t = Spawned" "\<And>j. phase u j = Some Spawned \<longleftrightarrow> j \<noteq> i \<and> phase s j = Some Spawned"
    and "tasks_wf s"
  shows "card (waiting s) = Suc (card (waiting u))"
proof -
  have "waiting u = waiting s - {i}" "i \<in> waiting s" using assms(1-3) by (auto simp: waiting_def)
  with users_finite(1) [OF assms(4)] show ?thesis by (metis card_Suc_Diff1)
qed

lemma closure_gone:
  assumes "i \<in> us_blocking s" "tasks_wf s"
  shows "card (us_blocking s) = Suc (card (us_blocking s - {i}))" "phase s i \<noteq> Some Spawned"
  using assms users_finite(2) [OF assms(2)] by (metis card_Suc_Diff1, auto simp: tasks_wf_def)

text \<open>A step that changes neither the users nor the count.\<close>

lemma refs_same:
  assumes "refs_counted s" "us_refs t = us_refs s" "us_blocking t = us_blocking s"
    and "\<And>i. phase t i = Some Spawned \<longleftrightarrow> phase s i = Some Spawned"
    and "(\<exists>e. us_main t = Ended e) \<longleftrightarrow> (\<exists>e. us_main s = Ended e)"
  shows "refs_counted t"
proof -
  have "waiting t = waiting s" using assms(4) by (auto simp: waiting_def)
  with assms(1-3,5) show ?thesis by (auto simp: refs_counted_def split: main_phase.splits)
qed

lemma refs_counted_step:
  assumes "urb_step nb devid s t" "refs_counted s" "tasks_wf s"
  shows "refs_counted t"
  using assms(1)
proof (cases rule: urb_step.cases)
  case (Spawn job)
  have "waiting t = insert (length (us_jobs s)) (waiting s)" using Spawn(1) by (auto simp: waiting_def)
  with Spawn assms(2) users_finite [OF assms(3)] show ?thesis by (simp add: refs_counted_def)
next
  case (TaskStart i tk)
  have "card (waiting s) = Suc (card (waiting t))"
    using TaskStart by (intro waiting_gone [OF _ _ _ assms(3)]) auto
  moreover have "i \<notin> us_blocking s" using TaskStart assms(3) by (auto simp: tasks_wf_def)
  ultimately show ?thesis
    using TaskStart(1) assms(2) users_finite(2) [OF assms(3)] by (simp add: refs_counted_def split: main_phase.splits)
next
  case (TaskKillSpawned i tk)
  have "card (waiting s) = Suc (card (waiting t))"
    using TaskKillSpawned by (intro waiting_gone [OF _ _ _ assms(3)]) auto
  with TaskKillSpawned(1) assms(2) show ?thesis by (simp add: refs_counted_def split: main_phase.splits)
next
  case (BlockingDone i res d w)
  have "waiting t = waiting s" using BlockingDone(1) closure_gone [OF BlockingDone(2) assms(3)] by (auto simp: waiting_def)
  with BlockingDone(1) assms(2) closure_gone(1) [OF BlockingDone(2) assms(3)] show ?thesis
    by (simp add: refs_counted_def split: main_phase.splits)
next
  case (BlockingPanicked i d w)
  have "waiting t = waiting s" using BlockingPanicked(1) closure_gone [OF BlockingPanicked(2) assms(3)] by (auto simp: waiting_def)
  with BlockingPanicked(1) assms(2) closure_gone(1) [OF BlockingPanicked(2) assms(3)] show ?thesis
    by (simp add: refs_counted_def split: main_phase.splits)
next
  case (ReadEnd e r)
  with assms(2) show ?thesis by (simp add: refs_counted_def waiting_def)
next
  case MainFail
  with assms(2) show ?thesis by (simp add: refs_counted_def waiting_def)
qed ((rule refs_same [OF assms(2)]; auto split: if_splits)+)

text \<open>All of it holds in every reachable state.\<close>

definition session_wf :: "'w urb_state \<Rightarrow> bool" where
  "session_wf s \<longleftrightarrow> permits_balanced s \<and> tasks_wf s \<and> lock_wf s \<and> log_wf s \<and> refs_counted s"

interpretation ses: safe_system "\<lambda>s. \<exists>opened w r. s = urb_start opened w r" "urb_step nb devid" session_wf
  for nb devid
proof unfold_locales
  fix s :: "'a urb_state" assume "\<exists>opened w r. s = urb_start opened w r"
  then show "session_wf s"
    by (auto simp: session_wf_def permits_balanced_def tasks_wf_def lock_wf_def log_wf_def settled_def
        urb_start_def job_of_def phase_def refs_counted_def waiting_def)
next
  fix s t :: "'a urb_state" assume "session_wf s" "urb_step nb devid s t"
  then show "session_wf t"
    unfolding session_wf_def using permits_step tasks_wf_step lock_wf_step log_wf_step refs_counted_step by blast
qed

section \<open>Commands and replies\<close>

text \<open>
  The commands that the read loop has taken from the connection, against what it has done with
  them: the submits are the jobs spawned, with the one that waits for a permit, and the unlinks are
  answered by the frames that the loop has written, with the one that waits for the writer.
\<close>

definition submits :: "urb_command list \<Rightarrow> urb_job list" where
  "submits cs = List.map_filter (\<lambda>c. case c of Submit job \<Rightarrow> Some job | _ \<Rightarrow> None) cs"

definition unlinks :: "urb_command list \<Rightarrow> urb_header list" where
  "unlinks cs = List.map_filter (\<lambda>c. case c of Unlink basic u \<Rightarrow> Some basic | _ \<Rightarrow> None) cs"

definition main_writes :: "log_entry list \<Rightarrow> bytes list" where
  "main_writes log = List.map_filter (\<lambda>e. case lg_owner e of ByMain \<Rightarrow> Some (lg_frame e) | _ \<Rightarrow> None) log"

definition awaiting_permit :: "main_phase \<Rightarrow> urb_job list" where
  "awaiting_permit m = (case m of WaitPermit job \<Rightarrow> [job] | _ \<Rightarrow> [])"

definition awaiting_writer :: "main_phase \<Rightarrow> bytes list" where
  "awaiting_writer m = (case m of UnlinkReply f \<Rightarrow> [f] | _ \<Rightarrow> [])"

definition commands_served :: "u32 \<Rightarrow> bytes \<Rightarrow> 'w urb_state \<Rightarrow> urb_command list \<Rightarrow> bool" where
  "commands_served devid input s cs \<longleftrightarrow>
     list_all (command_wf devid) cs \<and>
     (\<exists>rest. input = concat (map command_encode cs) @ rest \<and>
        ((\<forall>e. us_main s \<noteq> Ended e) \<longrightarrow> rd_bytes (us_reader s) = rest)) \<and>
     us_jobs s @ awaiting_permit (us_main s) = submits cs \<and>
     main_writes (us_log s) @ awaiting_writer (us_main s) = map unlink_reply (unlinks cs)"

lemma commands_simps [simp]:
  "submits [] = []" "submits (cs @ [c]) = submits cs @ (case c of Submit job \<Rightarrow> [job] | _ \<Rightarrow> [])"
  "unlinks [] = []" "unlinks (cs @ [c]) = unlinks cs @ (case c of Unlink basic u \<Rightarrow> [basic] | _ \<Rightarrow> [])"
  "main_writes [] = []"
  "main_writes (log @ [e]) = main_writes log @ (case lg_owner e of ByMain \<Rightarrow> [lg_frame e] | _ \<Rightarrow> [])"
  by (auto simp: submits_def unlinks_def main_writes_def List.map_filter_def split: urb_command.split owner.split)

lemma main_writes_more: "can_write n s \<Longrightarrow> main_writes (us_log (write_more n s)) = main_writes (us_log s)"
  by (cases "us_log s" rule: rev_cases) (simp_all add: can_write_def split: owner.split)

lemma commands_served_same:
  assumes "commands_served devid input s cs" "us_jobs t @ awaiting_permit (us_main t) = us_jobs s @ awaiting_permit (us_main s)"
    and "main_writes (us_log t) @ awaiting_writer (us_main t) = main_writes (us_log s) @ awaiting_writer (us_main s)"
    and "(\<exists>e. us_main t = Ended e) \<or> (\<forall>e. us_main s \<noteq> Ended e) \<and> us_reader t = us_reader s"
  shows "commands_served devid input t cs"
  using assms unfolding commands_served_def by metis

lemma commands_served_read:
  assumes "commands_served devid input s cs" "us_main s = Reading" "next_command devid (us_reader s) = (c, us_reader t)"
    and "\<And>e. c \<noteq> EndSession e"
    and "us_jobs t @ awaiting_permit (us_main t) = us_jobs s @ submits [c]"
    and "main_writes (us_log t) @ awaiting_writer (us_main t) = main_writes (us_log s) @ map unlink_reply (unlinks [c])"
  shows "commands_served devid input t (cs @ [c])"
proof -
  note c = next_command_consumed [OF assms(3,4)]
  have "submits (cs @ [c]) = submits cs @ submits [c]" "unlinks (cs @ [c]) = unlinks cs @ unlinks [c]"
    using commands_simps(2,4) [of "[]" c] by simp_all
  with assms(1,2,5,6) c show ?thesis
    by (simp add: commands_served_def awaiting_permit_def awaiting_writer_def)
qed

lemma commands_served_step:
  assumes "urb_step nb devid s t" "commands_served devid input s cs"
  shows "\<exists>cs. commands_served devid input t cs"
  using assms(1)
proof (cases rule: urb_step.cases)
  case (ReadSubmit job r)
  then have "commands_served devid input t (cs @ [Submit job])"
    using commands_simps(2,4) [of "[]" "Submit job"]
    by (intro commands_served_read [OF assms(2)]) (simp_all add: awaiting_permit_def awaiting_writer_def)
  then show ?thesis ..
next
  case (ReadUnlink basic u r)
  then have "commands_served devid input t (cs @ [Unlink basic u])"
    using commands_simps(2,4) [of "[]" "Unlink basic u"]
    by (intro commands_served_read [OF assms(2)]) (simp_all add: awaiting_permit_def awaiting_writer_def)
  then show ?thesis ..
qed (rule exI [of _ cs], rule commands_served_same [OF assms(2)];
     auto simp: awaiting_permit_def awaiting_writer_def main_writes_more
       simp del: write_more_fields split: main_phase.splits)+

interpretation cmds: safe_system
  "\<lambda>s. \<exists>opened w r. s = urb_start opened w r \<and> rd_bytes r = input" "urb_step nb devid"
  "\<lambda>s. \<exists>cs. commands_served devid input s cs" for nb devid input
proof unfold_locales
  fix s :: "'a urb_state" assume "\<exists>opened w r. s = urb_start opened w r \<and> rd_bytes r = input"
  then have "commands_served devid input s []"
    by (auto simp: commands_served_def urb_start_def awaiting_permit_def awaiting_writer_def)
  then show "\<exists>cs. commands_served devid input s cs" ..
qed (use commands_served_step in blast)

section \<open>Runs\<close>

definition written :: "'w urb_state \<Rightarrow> bytes" where
  "written s = concat (map (\<lambda>e. take (lg_done e) (lg_frame e)) (us_log s))"

lemma written_whole:
  "\<forall>e \<in> set es. lg_done e = length (lg_frame e) \<Longrightarrow>
   concat (map (\<lambda>e. take (lg_done e) (lg_frame e)) es) = concat (map lg_frame es)"
  by (induction es) auto

text \<open>The bytes on the wire, as long as no write was abandoned.\<close>

lemma written_frames:
  assumes "lock_wf s" "log_wf s" "\<not> us_torn s"
  shows "\<exists>part. written s = concat (map lg_frame (settled s)) @ part \<and>
      (if us_lock s = None then part = []
       else \<exists>n. part = take n (lg_frame (last (us_log s))) \<and> n < length (lg_frame (last (us_log s))))"
proof (cases "us_lock s")
  case None
  with assms(2,3) show ?thesis by (auto simp: log_wf_def written_def settled_def intro!: written_whole)
next
  case (Some who)
  with assms(1) have last: "us_log s \<noteq> []" "lg_done (last (us_log s)) < length (lg_frame (last (us_log s)))"
    by (auto simp: lock_wf_def)
  have settled: "\<forall>e \<in> set (settled s). lg_done e = length (lg_frame e)" using assms(2,3) by (auto simp: log_wf_def)
  have split: "us_log s = settled s @ [last (us_log s)]" using Some last(1) by (simp add: settled_def)
  have "written s = concat (map (\<lambda>e. take (lg_done e) (lg_frame e)) (settled s)) @
      take (lg_done (last (us_log s))) (lg_frame (last (us_log s)))"
    unfolding written_def by (subst split) simp
  also note written_whole [OF settled]
  finally show ?thesis using Some last(2) by auto
qed

text \<open>A session whose read loop is idle: nothing in flight, \<open>k\<close> closures left on the blocking pool.\<close>

definition idle :: "nat \<Rightarrow> bytes \<Rightarrow> 'w urb_state \<Rightarrow> bool" where
  "idle k rest s \<longleftrightarrow>
     us_main s = Reading \<and> us_lock s = None \<and> us_tasks s = Map.empty \<and> us_inflight s = Map.empty \<and>
     us_permits s = MAX_INFLIGHT_URBS \<and> length (us_jobs s) = k \<and> us_blocking s = {..< k} \<and>
     rd_bytes (us_reader s) = rest"

lemma read_unlink_step:
  assumes "us_main s = Reading" "rd_bytes (us_reader s) = command_encode (Unlink basic u) @ rest"
    and "command_wf devid (Unlink basic u)"
  shows "urb_step nb devid s ((unlink_entry nb (cu_unlink_seqnum u) s)
      \<lparr>us_reader := (us_reader s)\<lparr>rd_bytes := rest\<rparr>, us_main := UnlinkReply (unlink_reply basic)\<rparr>)"
  using assms by (intro ReadUnlink next_command_encoded)

text \<open>An idle session that has read a submit and whose closure runs.\<close>

definition submitted :: "nat \<Rightarrow> urb_job \<Rightarrow> bytes \<Rightarrow> 'w urb_state \<Rightarrow> 'w urb_state" where
  "submitted k job rest s =
     (let s3 = record_inflight k (spawn_task job
            (s\<lparr>us_reader := (us_reader s)\<lparr>rd_bytes := rest\<rparr>, us_main := WaitPermit job\<rparr>))
      in (set_phase k Blocking s3)\<lparr>us_blocking := insert k (us_blocking s3)\<rparr>)"

lemma submitted_run:
  assumes s: "idle k (command_encode (Submit job) @ rest) s" and wf: "command_wf devid (Submit job)"
  shows "(urb_step nb devid)\<^sup>*\<^sup>* s (submitted k job rest s)"
proof -
  define s1 where "s1 = s\<lparr>us_reader := (us_reader s)\<lparr>rd_bytes := rest\<rparr>, us_main := WaitPermit job\<rparr>"
  define s2 where "s2 = spawn_task job s1"
  define s3 where "s3 = record_inflight k s2"
  have k: "length (us_jobs s) = k" using s by (simp add: idle_def)
  have "next_command devid (us_reader s) = (Submit job, (us_reader s)\<lparr>rd_bytes := rest\<rparr>)"
    using s wf by (intro next_command_encoded) (simp_all add: idle_def)
  then have 1: "urb_step nb devid s s1"
    unfolding s1_def using s by (intro ReadSubmit) (simp_all add: idle_def)
  have 2: "urb_step nb devid s1 s2"
    unfolding s2_def using s by (intro Spawn) (simp_all add: s1_def idle_def MAX_INFLIGHT_URBS_def)
  have 3: "urb_step nb devid s2 s3"
    unfolding s3_def using k by (intro Record) (simp add: s2_def s1_def)
  have "us_tasks s3 k = Some \<lparr>tk_job = job, tk_cancelled = False, tk_aborted = False, tk_phase = Spawned\<rparr>"
    using k by (simp add: s3_def s2_def s1_def spawn_task_def Let_def)
  then have 4: "urb_step nb devid s3 (submitted k job rest s)"
    unfolding submitted_def Let_def s3_def s2_def s1_def by (rule TaskStart) simp
  show ?thesis using 1 2 3 4 by (meson converse_rtranclp_into_rtranclp rtranclp.rtrancl_refl)
qed

lemma submitted_state:
  assumes "idle k bs s"
  shows "us_tasks (submitted k job rest s) =
      [k \<mapsto> \<lparr>tk_job = job, tk_cancelled = False, tk_aborted = False, tk_phase = Blocking\<rparr>]"
    "us_inflight (submitted k job rest s) =
      [uh_seqnum (jb_basic job) \<mapsto> \<lparr>inf_task = k, inf_ep_addr = ep_addr_of (jb_basic job)\<rparr>]"
    "us_permits (submitted k job rest s) = MAX_INFLIGHT_URBS - 1"
    "us_jobs (submitted k job rest s) = us_jobs s @ [job]"
  using assms by (auto simp: submitted_def idle_def spawn_task_def record_inflight_def set_phase_def Let_def nth_append)

lemma submitted_frame [simp]:
  "us_main (submitted k job rest s) = Reading" "us_lock (submitted k job rest s) = us_lock s"
  "us_reader (submitted k job rest s) = (us_reader s)\<lparr>rd_bytes := rest\<rparr>"
  "us_blocking (submitted k job rest s) = insert k (us_blocking s)" "us_log (submitted k job rest s) = us_log s"
  "us_torn (submitted k job rest s) = us_torn s" "us_device (submitted k job rest s) = us_device s"
  by (simp_all add: submitted_def spawn_task_def Let_def)

text \<open>One round of a client that submits on the control endpoint and unlinks at once.\<close>

lemma submit_unlink_round:
  assumes s: "idle k (command_encode (Submit job) @ command_encode (Unlink basic u) @ rest) s"
    and wf: "command_wf devid (Submit job)" "command_wf devid (Unlink basic u)"
    and "uh_ep (jb_basic job) = 0" "cu_unlink_seqnum u = uh_seqnum (jb_basic job)"
  shows "\<exists>t. (urb_step nb devid)\<^sup>*\<^sup>* s t \<and> idle (Suc k) rest t"
proof -
  define s4 where "s4 = submitted k job (command_encode (Unlink basic u) @ rest) s"
  define s5 where "s5 = (unlink_entry nb (cu_unlink_seqnum u) s4)
      \<lparr>us_reader := (us_reader s4)\<lparr>rd_bytes := rest\<rparr>, us_main := UnlinkReply (unlink_reply basic)\<rparr>"
  define s6 where "s6 = end_task k s5"
  define s7 where "s7 = (begin_write ByMain (unlink_reply basic) s6)\<lparr>us_main := UnlinkWriting\<rparr>"
  define s8 where "s8 = (write_more (length (unlink_reply basic)) s7)\<lparr>us_lock := None, us_main := Reading\<rparr>"
  have 4: "(urb_step nb devid)\<^sup>*\<^sup>* s s4" unfolding s4_def by (rule submitted_run [OF s wf(1)])
  have 5: "urb_step nb devid s4 s5"
    unfolding s5_def using wf(2) by (intro read_unlink_step) (simp_all add: s4_def)
  note t4 = submitted_state [OF s, of job "command_encode (Unlink basic u) @ rest", folded s4_def]
  have t5: "us_tasks s5 = [k \<mapsto> \<lparr>tk_job = job, tk_cancelled = True, tk_aborted = True, tk_phase = Blocking\<rparr>]"
    "us_inflight s5 = Map.empty"
    using t4(1,2) assms(5) by (auto simp: s5_def unlink_entry_def request_abort_def Let_def fun_eq_iff)
  have 6: "urb_step nb devid s5 s6"
    unfolding s6_def using t5(1)
    by (intro TaskKill [of s5 k "\<lparr>tk_job = job, tk_cancelled = True, tk_aborted = True, tk_phase = Blocking\<rparr>"]) simp_all
  have 7: "urb_step nb devid s6 s7"
    unfolding s7_def using s by (intro MainLock) (simp_all add: s6_def s5_def s4_def idle_def)
  have 8: "urb_step nb devid s7 s8"
    unfolding s8_def using reply_not_empty(2) [of basic] by (intro MainWritten) (simp_all add: s7_def can_write_def)
  have "(urb_step nb devid)\<^sup>*\<^sup>* s s8"
    using 4 5 6 7 8 by (meson rtranclp.rtrancl_into_rtrancl)
  moreover have "idle (Suc k) rest s8"
    using s t5 t4(3,4)
    by (auto simp: idle_def s8_def s7_def s6_def s5_def s4_def end_task_def lessThan_Suc MAX_INFLIGHT_URBS_def)
  ultimately show ?thesis by blast
qed

lemma submit_unlink_rounds:
  assumes "command_wf devid (Submit job)" "command_wf devid (Unlink basic u)"
    and "uh_ep (jb_basic job) = 0" "cu_unlink_seqnum u = uh_seqnum (jb_basic job)"
  shows "idle k (concat (replicate n (command_encode (Submit job) @ command_encode (Unlink basic u)))) s \<Longrightarrow>
     \<exists>t. (urb_step nb devid)\<^sup>*\<^sup>* s t \<and> idle (k + n) [] t"
proof (induction n arbitrary: k s)
  case (Suc n)
  then obtain t where t: "(urb_step nb devid)\<^sup>*\<^sup>* s t"
    "idle (Suc k) (concat (replicate n (command_encode (Submit job) @ command_encode (Unlink basic u)))) t"
    using submit_unlink_round [OF _ assms] by fastforce
  from Suc.IH [OF t(2)] t(1) show ?case by (metis add_Suc_shift rtranclp_trans)
qed auto

text \<open>A submit whose transfer has returned and whose task is past the check of its flag.\<close>

definition replying :: "nat \<Rightarrow> urb_job \<Rightarrow> bytes \<Rightarrow> bytes \<Rightarrow> 'w urb_state \<Rightarrow> bool" where
  "replying k job f rest s \<longleftrightarrow>
     us_main s = Reading \<and> us_lock s = None \<and> rd_bytes (us_reader s) = rest \<and>
     us_tasks s k = Some \<lparr>tk_job = job, tk_cancelled = False, tk_aborted = False, tk_phase = WaitWriter f\<rparr> \<and>
     us_inflight s (uh_seqnum (jb_basic job)) = Some \<lparr>inf_task = k, inf_ep_addr = ep_addr_of (jb_basic job)\<rparr>"

lemma run_to_reply:
  assumes s: "idle k (command_encode (Submit job) @ rest) s" and wf: "command_wf devid (Submit job)"
  shows "\<exists>t res. (urb_step nb devid)\<^sup>*\<^sup>* s t \<and> replying k job (submit_reply job res) rest t \<and> us_log t = us_log s \<and>
     us_jobs t = us_jobs s @ [job] \<and> us_torn t = us_torn s"
proof -
  define s4 where "s4 = submitted k job rest s"
  obtain res d w where tr: "run_transfer nb (us_jobs s4 ! k) (us_device s4, us_world s4) = (res, d, w)"
    by (cases "run_transfer nb (us_jobs s4 ! k) (us_device s4, us_world s4)") auto
  define s5 where "s5 = (drop_ref (finish_blocking k (Some res) s4))\<lparr>us_blocking := us_blocking s4 - {k}, us_device := d, us_world := w\<rparr>"
  define s6 where "s6 = set_phase k (WaitWriter (submit_reply job res)) s5"
  have 4: "(urb_step nb devid)\<^sup>*\<^sup>* s s4" unfolding s4_def by (rule submitted_run [OF s wf])
  have 5: "urb_step nb devid s4 s5"
    unfolding s5_def by (rule BlockingDone [OF _ tr]) (simp add: s4_def)
  have t5: "us_tasks s5 k = Some \<lparr>tk_job = job, tk_cancelled = False, tk_aborted = False, tk_phase = Transferred res\<rparr>"
    using submitted_state(1) [OF s] by (simp add: s5_def s4_def finish_blocking_def set_phase_def)
  have 6: "urb_step nb devid s5 s6"
    unfolding s6_def using TaskReply [OF t5, of res nb devid] by simp
  have "(urb_step nb devid)\<^sup>*\<^sup>* s s6" using 4 5 6 by (meson rtranclp.rtrancl_into_rtrancl)
  moreover have "us_tasks s6 k = Some \<lparr>tk_job = job, tk_cancelled = False, tk_aborted = False,
      tk_phase = WaitWriter (submit_reply job res)\<rparr>"
    using t5 by (simp add: s6_def set_phase_def)
  ultimately show ?thesis
    using s submitted_state(2,4) [OF s] by (intro exI [of _ s6] exI [of _ res])
      (simp add: replying_def s6_def s5_def s4_def idle_def)
qed

lemma unlink_entry_task:
  assumes "us_inflight s q = Some info" "inf_task info = i" "us_tasks s i = Some t"
  shows "us_tasks (unlink_entry nb q s) i = Some (t\<lparr>tk_cancelled := True, tk_aborted := True\<rparr>)"
  using assms by (simp add: unlink_entry_def request_abort_def Let_def)

text \<open>The unlink is answered before a task that is past its check writes its reply.\<close>

lemma stale_reply_run:
  assumes s: "replying k job f (command_encode (Unlink basic u) @ rest) s" and f: "0 < length f"
    and wf: "command_wf devid (Unlink basic u)" "cu_unlink_seqnum u = uh_seqnum (jb_basic job)"
  shows "\<exists>t. (urb_step nb devid)\<^sup>*\<^sup>* s t \<and> written t = written s @ unlink_reply basic @ f \<and>
     us_main t = Reading \<and> us_lock t = None \<and> us_jobs t = us_jobs s \<and> us_torn t = us_torn s \<and>
     main_writes (us_log t) = main_writes (us_log s) @ [unlink_reply basic]"
proof -
  let ?n = "length (unlink_reply basic)"
  define s1 where "s1 = (unlink_entry nb (cu_unlink_seqnum u) s)
      \<lparr>us_reader := (us_reader s)\<lparr>rd_bytes := rest\<rparr>, us_main := UnlinkReply (unlink_reply basic)\<rparr>"
  define s2 where "s2 = (begin_write ByMain (unlink_reply basic) s1)\<lparr>us_main := UnlinkWriting\<rparr>"
  define s3 where "s3 = (write_more ?n s2)\<lparr>us_lock := None, us_main := Reading\<rparr>"
  define s4 where "s4 = set_phase k Writing (begin_write (ByTask k) f s3)"
  define s5 where "s5 = (set_phase k Finishing (write_more (length f) s4))\<lparr>us_lock := None\<rparr>"
  have t: "us_tasks s k = Some \<lparr>tk_job = job, tk_cancelled = False, tk_aborted = False, tk_phase = WaitWriter f\<rparr>"
    using s by (simp add: replying_def)
  have 1: "urb_step nb devid s s1"
    unfolding s1_def using s wf(1) by (intro read_unlink_step) (simp_all add: replying_def)
  have 2: "urb_step nb devid s1 s2"
    unfolding s2_def using s by (intro MainLock) (simp_all add: s1_def replying_def)
  have 3: "urb_step nb devid s2 s3"
    unfolding s3_def using reply_not_empty(2) by (intro MainWritten) (simp_all add: s2_def can_write_def)
  have t3: "us_tasks s3 k = Some \<lparr>tk_job = job, tk_cancelled = True, tk_aborted = True, tk_phase = WaitWriter f\<rparr>"
    using unlink_entry_task [OF _ _ t, of "cu_unlink_seqnum u" _ nb] s wf(2)
    by (simp add: s3_def s2_def s1_def replying_def)
  have 4: "urb_step nb devid s3 s4"
    unfolding s4_def by (rule TaskLock [OF t3]) (simp_all add: s3_def)
  have t4: "us_tasks s4 k = Some \<lparr>tk_job = job, tk_cancelled = True, tk_aborted = True, tk_phase = Writing\<rparr>"
    using t3 by (simp add: s4_def set_phase_def)
  have 5: "urb_step nb devid s4 s5"
    unfolding s5_def using f by (intro TaskWritten [OF t4]) (simp_all add: s4_def can_write_def)
  have "(urb_step nb devid)\<^sup>*\<^sup>* s s5"
    using 1 2 3 4 5 by (meson converse_rtranclp_into_rtranclp rtranclp.rtrancl_refl)
  moreover have "us_log s5 = us_log s @ [\<lparr>lg_owner = ByMain, lg_frame = unlink_reply basic, lg_done = ?n\<rparr>] @
      [\<lparr>lg_owner = ByTask k, lg_frame = f, lg_done = length f\<rparr>]"
    by (simp add: s5_def s4_def s3_def s2_def s1_def butlast_append)
  then have "written s5 = written s @ unlink_reply basic @ f"
    "main_writes (us_log s5) = main_writes (us_log s) @ [unlink_reply basic]"
    by (simp_all add: written_def main_writes_def List.map_filter_def)
  moreover have "us_main s5 = Reading" "us_lock s5 = None" "us_jobs s5 = us_jobs s" "us_torn s5 = us_torn s"
    by (simp_all add: s5_def s4_def s3_def s2_def s1_def)
  ultimately show ?thesis by blast
qed

text \<open>The unlink aborts a task in the middle of its write.\<close>

lemma torn_reply_run:
  assumes s: "replying k job f (command_encode (Unlink basic u) @ rest) s" and f: "n < length f" "0 < n"
    and wf: "command_wf devid (Unlink basic u)" "cu_unlink_seqnum u = uh_seqnum (jb_basic job)"
  shows "\<exists>t. (urb_step nb devid)\<^sup>*\<^sup>* s t \<and> written t = written s @ take n f @ unlink_reply basic"
proof -
  let ?m = "length (unlink_reply basic)"
  define s1 where "s1 = set_phase k Writing (begin_write (ByTask k) f s)"
  define s2 where "s2 = write_more n s1"
  define s3 where "s3 = (unlink_entry nb (cu_unlink_seqnum u) s2)
      \<lparr>us_reader := (us_reader s2)\<lparr>rd_bytes := rest\<rparr>, us_main := UnlinkReply (unlink_reply basic)\<rparr>"
  define s4 where "s4 = (end_task k s3)\<lparr>us_lock := None, us_torn := True\<rparr>"
  define s5 where "s5 = (begin_write ByMain (unlink_reply basic) s4)\<lparr>us_main := UnlinkWriting\<rparr>"
  define s6 where "s6 = (write_more ?m s5)\<lparr>us_lock := None, us_main := Reading\<rparr>"
  let ?task = "\<lparr>tk_job = job, tk_cancelled = False, tk_aborted = False, tk_phase = WaitWriter f\<rparr>"
  have t: "us_tasks s k = Some ?task" using s by (simp add: replying_def)
  have 1: "urb_step nb devid s s1"
    unfolding s1_def using s by (intro TaskLock [OF t]) (simp_all add: replying_def)
  have t1: "us_tasks s1 k = Some (?task\<lparr>tk_phase := Writing\<rparr>)" using t by (simp add: s1_def set_phase_def)
  have 2: "urb_step nb devid s1 s2"
    unfolding s2_def using f by (intro TaskWrite [OF t1]) (simp_all add: s1_def can_write_def)
  have 3: "urb_step nb devid s2 s3"
    unfolding s3_def using s wf(1) by (intro read_unlink_step) (simp_all add: replying_def s2_def s1_def)
  have t3: "us_tasks s3 k = Some \<lparr>tk_job = job, tk_cancelled = True, tk_aborted = True, tk_phase = Writing\<rparr>"
  proof -
    have "us_tasks s2 k = us_tasks s1 k" "us_inflight s2 = us_inflight s" by (simp_all add: s2_def s1_def)
    then show ?thesis
      using unlink_entry_task [of s2 "cu_unlink_seqnum u" _ k _ nb] t1 s wf(2)
      by (simp add: s3_def replying_def)
  qed
  have 4: "urb_step nb devid s3 s4"
    unfolding s4_def by (rule TaskKillWriting [OF t3]) simp_all
  have 5: "urb_step nb devid s4 s5"
    unfolding s5_def by (intro MainLock) (simp_all add: s4_def s3_def)
  have 6: "urb_step nb devid s5 s6"
    unfolding s6_def using reply_not_empty(2) by (intro MainWritten) (simp_all add: s5_def can_write_def)
  have "(urb_step nb devid)\<^sup>*\<^sup>* s s6"
    using 1 2 3 4 5 6 by (meson converse_rtranclp_into_rtranclp rtranclp.rtrancl_refl)
  moreover have "written s6 = written s @ take n f @ unlink_reply basic"
    by (simp add: written_def s6_def s5_def s4_def s3_def s2_def s1_def butlast_append)
  ultimately show ?thesis by blast
qed

text \<open>The identity of the device never changes under the session.\<close>

lemma run_transfer_identity:
  "run_transfer nb job (d, w) = (res, d', w') \<Longrightarrow> identity d' = identity d"
  by (auto simp: run_transfer_def keeps_def split: prod.splits sum.splits if_splits
      dest!: control_transfer_keeps data_transfer_keeps)

lemma urb_step_identity: "urb_step nb devid s t \<Longrightarrow> identity (us_device t) = identity (us_device s)"
  by (cases rule: urb_step.cases) (auto dest: run_transfer_identity)

lemma urb_steps_identity: "(urb_step nb devid)\<^sup>*\<^sup>* s t \<Longrightarrow> identity (us_device t) = identity (us_device s)"
  by (induction rule: rtranclp_induct) (auto dest: urb_step_identity)

lemma idle_start: "rd_bytes r = rest \<Longrightarrow> idle 0 rest (urb_start opened w r)"
  by (simp add: idle_def urb_start_def)

lemma idle_end:
  assumes "idle k [] s" "\<not> rd_broken (us_reader s)"
  shows "\<exists>t. urb_step nb devid s t \<and> us_main t = Ended (Inr ()) \<and> us_tasks t = Map.empty \<and> us_blocking t = {..< k}"
proof -
  let ?t = "(drop_ref (drain_inflight s))\<lparr>us_reader := (us_reader s)\<lparr>rd_bytes := []\<rparr>, us_main := Ended (Inr ())\<rparr>"
  have "next_command devid (us_reader s) = (EndSession (Inr ()), (us_reader s)\<lparr>rd_bytes := []\<rparr>)"
    using assms by (simp add: next_command_def read_exact_def URB_HEADER_SIZE_def idle_def)
  then have "urb_step nb devid s ?t"
    using assms(1) by (intro ReadEnd) (simp_all add: idle_def)
  moreover have "us_tasks (drain_inflight s) = Map.empty" "us_blocking s = {..< k}"
    using assms(1) by (auto simp: idle_def drain_inflight_def request_abort_def)
  ultimately show ?thesis by (intro exI [of _ ?t]) simp
qed

text \<open>Reading never repairs a connection; with a clean end of input it stays clean.\<close>

lemma next_command_broken: "next_command devid r = (c, r') \<Longrightarrow> rd_broken r' = rd_broken r"
  by (auto simp: next_command_def read_submit_def read_unlink_def read_exact_def
      split: prod.splits sum.splits option.splits if_splits io_kind.splits)

lemma urb_step_broken: "urb_step nb devid s t \<Longrightarrow> rd_broken (us_reader t) = rd_broken (us_reader s)"
  by (cases rule: urb_step.cases) (auto dest: next_command_broken)

lemma urb_steps_broken: "(urb_step nb devid)\<^sup>*\<^sup>* s t \<Longrightarrow> rd_broken (us_reader t) = rd_broken (us_reader s)"
  by (induction rule: rtranclp_induct) (auto dest: urb_step_broken)

section \<open>A sample session\<close>

definition control_submit :: urb_job where
  "control_submit =
     \<lparr>jb_basic = \<lparr>uh_command = 1, uh_seqnum = 7, uh_devid = 0x10002, uh_direction = 1, uh_ep = 0\<rparr>,
      jb_cmd = \<lparr>cs_transfer_flags = 0, cs_transfer_buffer_length = 18, cs_start_frame = 0,
        cs_number_of_packets = 0, cs_interval = 0, cs_setup = [0x80, 6, 0, 1, 0, 0, 18, 0]\<rparr>, jb_out = []\<rparr>"

definition control_unlink :: urb_header where
  "control_unlink = \<lparr>uh_command = 2, uh_seqnum = 8, uh_devid = 0x10002, uh_direction = 0, uh_ep = 0\<rparr>"

definition control_unlink_tail :: cmd_unlink where
  "control_unlink_tail = \<lparr>cu_unlink_seqnum = 7, cu_padding = replicate 24 0\<rparr>"

lemma control_sample_wf:
  "command_wf 0x10002 (Submit control_submit)" "command_wf 0x10002 (Unlink control_unlink control_unlink_tail)"
  "uh_ep (jb_basic control_submit) = 0" "cu_unlink_seqnum control_unlink_tail = uh_seqnum (jb_basic control_submit)"
  by (simp_all add: control_submit_def control_unlink_def control_unlink_tail_def urb_codes cmd_submit_wf_def
      dir_in_def)

definition control_reader :: "nat \<Rightarrow> reader" where
  "control_reader n =
     \<lparr>rd_bytes = concat (replicate n (command_encode (Submit control_submit) @
        command_encode (Unlink control_unlink control_unlink_tail))), rd_broken = False\<rparr>"

section \<open>Properties\<close>

text \<open>
  C4: At most 256 submits of a connection are in flight, however many a client sends: every task
  holds a permit from its spawn to its end, and permits are neither lost nor duplicated by any
  interleaving of completions, unlinks, aborts, failed writes and the end of the session.
\<close>

theorem inflight_bounded:
  assumes "(urb_step nb devid)\<^sup>*\<^sup>* (urb_start opened w r) s"
  shows "finite (dom (us_tasks s)) \<and> card (dom (us_tasks s)) \<le> 256 \<and>
     us_permits s + card (dom (us_tasks s)) = 256"
proof -
  have "session_wf s" using ses.invar_reachable [OF _ assms] by blast
  then show ?thesis by (simp add: session_wf_def permits_balanced_def MAX_INFLIGHT_URBS_def)
qed

theorem inflight_bounded_witness:
  "\<exists>s. (urb_step sample_nusb 0x10002)\<^sup>*\<^sup>* (urb_start sample_device () (control_reader 1)) s \<and>
     us_main s = WaitPermit control_submit \<and> card (dom (us_tasks s)) \<le> 256"
proof -
  let ?s = "urb_start sample_device () (control_reader 1)"
  have "next_command 0x10002 (us_reader ?s) = (Submit control_submit, (us_reader ?s)
      \<lparr>rd_bytes := command_encode (Unlink control_unlink control_unlink_tail)\<rparr>)"
    using control_sample_wf(1) by (rule next_command_encoded) (simp add: urb_start_def control_reader_def)
  then obtain t where t: "urb_step sample_nusb 0x10002 ?s t" "us_main t = WaitPermit control_submit"
    using ReadSubmit [of ?s] by (fastforce simp: urb_start_def)
  from t(1) have run: "(urb_step sample_nusb 0x10002)\<^sup>*\<^sup>* ?s t" by (rule r_into_rtranclp)
  from inflight_bounded [OF run] run t(2) show ?thesis by blast
qed

text \<open>
  C5: What the client receives. The bytes read so far are the encodings of well-formed commands to
  this device; the jobs spawned are the submits among them, in order, but for one that waits for a
  permit; the read loop writes exactly the replies to the unlinks among them, in order and each under
  the sequence number of its own request, but for one that waits for the writer; every other write is
  the reply to one of the jobs, and no job is answered twice. As long as no write was abandoned, the
  byte stream is a sequence of whole replies followed by a proper prefix of at most one more, the one
  whose writer holds the lock.
\<close>

theorem replies_whole_and_once:
  assumes "(urb_step nb devid)\<^sup>*\<^sup>* (urb_start opened w r) s"
  shows "(\<exists>cs rest. list_all (command_wf devid) cs \<and> rd_bytes r = concat (map command_encode cs) @ rest \<and>
        ((\<forall>e. us_main s \<noteq> Ended e) \<longrightarrow> rd_bytes (us_reader s) = rest) \<and>
        us_jobs s @ awaiting_permit (us_main s) = submits cs \<and>
        main_writes (us_log s) @ awaiting_writer (us_main s) =
          map (\<lambda>basic. write_ret_unlink (uh_seqnum basic) 0) (unlinks cs)) \<and>
     (\<forall>e \<in> set (us_log s). entry_wf (us_jobs s) e) \<and> distinct (task_writes (us_log s)) \<and>
     (\<not> us_torn s \<longrightarrow>
        (\<exists>part. written s = concat (map lg_frame (settled s)) @ part \<and>
           (if us_lock s = None then part = []
            else \<exists>n. part = take n (lg_frame (last (us_log s))) \<and> n < length (lg_frame (last (us_log s))))))"
proof -
  have "session_wf s" using ses.invar_reachable [OF _ assms] by blast
  then have lock: "lock_wf s" and log: "log_wf s" by (simp_all add: session_wf_def)
  obtain cs where "commands_served devid (rd_bytes r) s cs" using cmds.invar_reachable [OF _ assms] by blast
  then show ?thesis
    using log written_frames [OF lock log] by (auto simp: commands_served_def log_wf_def unlink_reply_def [abs_def])
qed

theorem replies_whole_and_once_witness:
  "\<exists>res s cs rest. (urb_step sample_nusb 0x10002)\<^sup>*\<^sup>* (urb_start sample_device () (control_reader 1)) s \<and>
     written s = write_ret_unlink 8 0 @ submit_reply control_submit res \<and>
     rd_bytes (control_reader 1) = concat (map command_encode cs) @ rest \<and> submits cs = [control_submit] \<and>
     map (\<lambda>basic. write_ret_unlink (uh_seqnum basic) 0) (unlinks cs) = [write_ret_unlink 8 0] \<and>
     written s = concat (map lg_frame (us_log s))"
proof -
  let ?s = "urb_start sample_device () (control_reader 1)"
  let ?unlink = "command_encode (Unlink control_unlink control_unlink_tail)"
  have "idle 0 (command_encode (Submit control_submit) @ ?unlink @ []) ?s"
    by (intro idle_start) (simp add: control_reader_def del: command_encode.simps)
  from run_to_reply [OF this control_sample_wf(1), of sample_nusb] obtain t res where
    t: "(urb_step sample_nusb 0x10002)\<^sup>*\<^sup>* ?s t" "replying 0 control_submit (submit_reply control_submit res) (?unlink @ []) t"
    "us_log t = []" "us_jobs t = [control_submit]" "\<not> us_torn t"
    by (auto simp: urb_start_def)
  obtain s where s: "(urb_step sample_nusb 0x10002)\<^sup>*\<^sup>* t s" "written s = unlink_reply control_unlink @ submit_reply control_submit res"
    "us_main s = Reading" "us_lock s = None" "us_jobs s = [control_submit]" "\<not> us_torn s"
    "main_writes (us_log s) = [unlink_reply control_unlink]"
    using stale_reply_run [OF t(2) reply_not_empty(1) control_sample_wf(2,4), of sample_nusb] t(3-5)
    by (auto simp: written_def)
  have run: "(urb_step sample_nusb 0x10002)\<^sup>*\<^sup>* ?s s" using t(1) s(1) by (rule rtranclp_trans)
  note served = replies_whole_and_once [OF run]
  from served obtain cs rest where cs: "rd_bytes (control_reader 1) = concat (map command_encode cs) @ rest"
    "us_jobs s @ awaiting_permit (us_main s) = submits cs"
    "main_writes (us_log s) @ awaiting_writer (us_main s) = map (\<lambda>basic. write_ret_unlink (uh_seqnum basic) 0) (unlinks cs)"
    by blast
  have q: "unlink_reply control_unlink = write_ret_unlink 8 0" by (simp add: unlink_reply_def control_unlink_def)
  have "written s = concat (map lg_frame (us_log s))" using served s(4,6) by (simp add: settled_def)
  with run s(2) cs(1) cs(2,3) [symmetric] s(3,5,7) show ?thesis
    by (intro exI [of _ res] exI [of _ s] exI [of _ cs] exI [of _ rest])
      (simp add: awaiting_permit_def awaiting_writer_def q)
qed

text \<open>
  C33: The permits do not bound the closures on the blocking pool: unlinking a control transfer ends
  its task and returns the permit while the closure runs on, so that for every \<open>n\<close> a client that
  submits and unlinks \<open>n\<close> times and then disconnects leaves \<open>n\<close> closures behind, each still holding the
  device, after the session has ended.
\<close>

theorem blocking_closures_unbounded:
  assumes "command_wf devid (Submit job)" "command_wf devid (Unlink basic u)"
    and "uh_ep (jb_basic job) = 0" "cu_unlink_seqnum u = uh_seqnum (jb_basic job)"
    and "r = \<lparr>rd_bytes = concat (replicate n (command_encode (Submit job) @ command_encode (Unlink basic u))),
              rd_broken = False\<rparr>"
  shows "\<exists>s. (urb_step nb devid)\<^sup>*\<^sup>* (urb_start opened w r) s \<and> us_main s = Ended (Inr ()) \<and>
     us_tasks s = Map.empty \<and> card (us_blocking s) = n"
proof -
  obtain t where t: "(urb_step nb devid)\<^sup>*\<^sup>* (urb_start opened w r) t" "idle n [] t"
    using submit_unlink_rounds [OF assms(1-4), of 0 n "urb_start opened w r" nb] assms(5)
    by (auto simp: idle_start)
  from urb_steps_broken [OF t(1)] assms(5) have "\<not> rd_broken (us_reader t)" by (simp add: urb_start_def)
  with idle_end [OF t(2)] obtain s where "urb_step nb devid t s" "us_main s = Ended (Inr ())"
    "us_tasks s = Map.empty" "us_blocking s = {..< n}" by blast
  with t(1) show ?thesis by (metis card_lessThan rtranclp.rtrancl_into_rtrancl)
qed

theorem blocking_closures_unbounded_witness:
  "\<exists>s. (urb_step sample_nusb 0x10002)\<^sup>*\<^sup>* (urb_start sample_device () (control_reader 1000)) s \<and>
     us_main s = Ended (Inr ()) \<and> us_tasks s = Map.empty \<and> card (us_blocking s) = 1000"
  by (rule blocking_closures_unbounded [OF control_sample_wf]) (rule control_reader_def)

text \<open>
  C35: Unlinking races with the reply it cancels. For a control transfer that has just returned, there
  is a run in which the client gets the unlink reply and afterwards the submit reply it was told would
  not come, and a run in which the abort cuts the submit reply after its first byte, so that the
  unlink reply follows in the middle of a frame and the stream can no longer be parsed.
\<close>

theorem unlink_races_with_reply:
  assumes "command_wf devid (Submit job)" "command_wf devid (Unlink basic u)"
    and "uh_ep (jb_basic job) = 0" "cu_unlink_seqnum u = uh_seqnum (jb_basic job)"
    and "rd_bytes r = command_encode (Submit job) @ command_encode (Unlink basic u)"
  shows "\<exists>res. (\<exists>s. (urb_step nb devid)\<^sup>*\<^sup>* (urb_start opened w r) s \<and>
        written s = unlink_reply basic @ submit_reply job res) \<and>
     (\<exists>s. (urb_step nb devid)\<^sup>*\<^sup>* (urb_start opened w r) s \<and>
        written s = take 1 (submit_reply job res) @ unlink_reply basic)"
proof -
  have "idle 0 (command_encode (Submit job) @ command_encode (Unlink basic u) @ []) (urb_start opened w r)"
    using assms(5) by (intro idle_start) simp
  from run_to_reply [OF this assms(1), of nb] obtain t res where
    t: "(urb_step nb devid)\<^sup>*\<^sup>* (urb_start opened w r) t"
    "replying 0 job (submit_reply job res) (command_encode (Unlink basic u) @ []) t" "written t = []"
    by (auto simp: written_def urb_start_def)
  have len: "1 < length (submit_reply job res)"
    by (simp add: submit_reply_def length_write_ret_submit ret_submit_wf_def split: prod.split)
  obtain s1 where "(urb_step nb devid)\<^sup>*\<^sup>* t s1" "written s1 = unlink_reply basic @ submit_reply job res"
    using stale_reply_run [OF t(2) reply_not_empty(1) assms(2,4), of nb] t(3) by auto
  moreover obtain s2 where "(urb_step nb devid)\<^sup>*\<^sup>* t s2" "written s2 = take 1 (submit_reply job res) @ unlink_reply basic"
    using torn_reply_run [OF t(2) len _ assms(2,4), of nb] t(3) by auto
  ultimately show ?thesis using t(1) by (meson rtranclp_trans)
qed

theorem unlink_races_with_reply_witness:
  "\<exists>res s. (urb_step sample_nusb 0x10002)\<^sup>*\<^sup>* (urb_start sample_device () (control_reader 1)) s \<and>
     written s = take 1 (submit_reply control_submit res) @ unlink_reply control_unlink"
  using unlink_races_with_reply [OF control_sample_wf, of "control_reader 1" sample_nusb sample_device "()"]
  by (auto simp: control_reader_def simp del: command_encode.simps)

end
