(* ===== verification/Urb_Progress.thy ===== *)
theory Urb_Progress
  imports Urb_Machine
begin

text \<open>
  Every URB session comes to an end. The client sends finitely many bytes and closes or breaks the
  connection; transfers return (nusb gives each a timeout) and a write either proceeds or fails.
  Under these conditions, which are what the steps of the machine offer, no run is infinite,
  whatever the interleaving, and a state without a step is one in which the read loop has ended,
  no task and no closure is left, the in-flight map is empty, every permit has been returned and
  the writer is free.
\<close>

section \<open>Reading consumes\<close>

lemma read_exact_shrinks:
  "read_exact n r = (x, r') \<Longrightarrow> length (rd_bytes r') \<le> length (rd_bytes r)"
  "read_exact n r = (Inr bs, r') \<Longrightarrow> length (rd_bytes r') + n = length (rd_bytes r)"
  by (auto simp: read_exact_def split: if_splits)

lemma read_tail_shrinks:
  "read_submit basic tail r = (c, r') \<Longrightarrow> length (rd_bytes r') \<le> length (rd_bytes r)"
  "read_unlink basic tail r = (c, r') \<Longrightarrow> length (rd_bytes r') \<le> length (rd_bytes r)"
  by (auto simp: read_submit_def read_unlink_def dest: read_exact_shrinks(1)
      split: option.splits sum.splits if_splits prod.splits)

lemma next_command_shrinks:
  assumes "next_command devid r = (c, r')"
  shows "length (rd_bytes r') \<le> length (rd_bytes r)"
    and "(\<And>e. c \<noteq> EndSession e) \<Longrightarrow> length (rd_bytes r') < length (rd_bytes r)"
proof -
  obtain x r1 where x: "read_exact URB_HEADER_SIZE r = (x, r1)" by fastforce
  have le: "length (rd_bytes r1) \<le> length (rd_bytes r)" by (rule read_exact_shrinks(1) [OF x])
  have r': "length (rd_bytes r') \<le> length (rd_bytes r1)"
    using assms x read_tail_shrinks
    by (auto simp: next_command_def split: sum.splits io_kind.splits option.splits if_splits)
  with le show "length (rd_bytes r') \<le> length (rd_bytes r)" by simp
  assume c: "\<And>e. c \<noteq> EndSession e"
  then obtain buf where "x = Inr buf"
    using assms x by (cases x) (auto simp: next_command_def split: io_kind.splits)
  with x r' show "length (rd_bytes r') < length (rd_bytes r)"
    using read_exact_shrinks(2) [of URB_HEADER_SIZE r buf r1] by (simp add: URB_HEADER_SIZE_def)
qed

section \<open>The invariant of a session, strengthened\<close>

text \<open>
  A task that waits for its closure has one on the pool, and a session that has ended has an
  empty in-flight map.
\<close>

definition pool_wf :: "'w urb_state \<Rightarrow> bool" where
  "pool_wf s \<longleftrightarrow>
     (\<forall>i. phase s i = Some Blocking \<longrightarrow> i \<in> us_blocking s) \<and>
     (\<forall>e. us_main s = Ended e \<longrightarrow> us_inflight s = Map.empty)"

lemma pool_wf_step:
  assumes "urb_step nb devid s t" "pool_wf s"
  shows "pool_wf t"
  using assms(1)
proof (cases rule: urb_step.cases)
  case (TaskKillWriting i tk)
  with assms(2) show ?thesis by (simp add: pool_wf_def)
qed (use assms(2) in \<open>auto simp: pool_wf_def drain_inflight_def split: if_splits\<close>)

definition progress_wf :: "'w urb_state \<Rightarrow> bool" where
  "progress_wf s \<longleftrightarrow> session_wf s \<and> pool_wf s"

section \<open>A measure that every step decreases\<close>

fun main_rank :: "main_phase \<Rightarrow> nat" where
  "main_rank (Ended e) = 0"
| "main_rank Reading = 1"
| "main_rank (Recording i) = 2"
| "main_rank (WaitPermit job) = 3"
| "main_rank UnlinkWriting = 2"
| "main_rank (UnlinkReply f) = 3"

fun phase_rank :: "urb_job \<Rightarrow> task_phase option \<Rightarrow> nat" where
  "phase_rank job None = 0"
| "phase_rank job (Some Spawned) = 1"
| "phase_rank job (Some Blocking) = 1"
| "phase_rank job (Some (Transferred res)) = length (submit_reply job res) + 4"
| "phase_rank job (Some (WaitWriter f)) = length f + 3"
| "phase_rank job (Some Writing) = 2"
| "phase_rank job (Some Finishing) = 1"

definition unread :: "'w urb_state \<Rightarrow> nat" where
  "unread s = 3 * length (rd_bytes (us_reader s)) + main_rank (us_main s)"

definition undone :: "'w urb_state \<Rightarrow> nat" where
  "undone s = 2 * card (waiting s) + card (us_blocking s)"

definition unwritten :: "'w urb_state \<Rightarrow> nat" where
  "unwritten s = (if us_lock s = None then 0
     else length (lg_frame (last (us_log s))) - lg_done (last (us_log s)))"

definition unfinished :: "'w urb_state \<Rightarrow> nat" where
  "unfinished s = (\<Sum>i < length (us_jobs s). phase_rank (us_jobs s ! i) (phase s i)) + unwritten s"

definition urb_rank :: "'w urb_state \<Rightarrow> nat \<times> nat \<times> nat" where
  "urb_rank s = (unread s, undone s, unfinished s)"

abbreviation lex3 :: "((nat \<times> nat \<times> nat) \<times> nat \<times> nat \<times> nat) set" where
  "lex3 \<equiv> less_than <*lex*> less_than <*lex*> less_than"

lemma sum_change_one:
  fixes f g :: "nat \<Rightarrow> nat"
  assumes "i < n" "\<And>j. j \<noteq> i \<Longrightarrow> g j = f j"
  shows "sum g {..<n} + f i = sum f {..<n} + g i"
proof -
  have "sum g {..<n} = g i + sum g ({..<n} - {i})" "sum f {..<n} = f i + sum f ({..<n} - {i})"
    using assms(1) by (simp_all add: sum.remove)
  moreover have "sum g ({..<n} - {i}) = sum f ({..<n} - {i})"
    using assms(2) by (intro sum.cong) auto
  ultimately show ?thesis by simp
qed

lemma session_users_finite: "session_wf s \<Longrightarrow> finite (waiting s)" "session_wf s \<Longrightarrow> finite (us_blocking s)"
  by (simp_all add: session_wf_def users_finite)

text \<open>A step of a single task that neither starts nor joins a closure.\<close>

lemma task_step_rank:
  assumes "session_wf s" "phase s i = Some p"
    and t: "us_reader t = us_reader s" "us_main t = us_main s" "us_jobs t = us_jobs s"
      "us_blocking t = us_blocking s" "\<And>j. j \<noteq> i \<Longrightarrow> phase t j = phase s j"
      "phase t i \<noteq> Some Spawned"
    and d: "phase_rank (us_jobs s ! i) (phase t i) + unwritten t < phase_rank (us_jobs s ! i) (Some p) + unwritten s"
  shows "(urb_rank t, urb_rank s) \<in> lex3"
proof -
  have i: "i < length (us_jobs s)"
    using tasks_wf_fresh [of s i] assms(1,2) by (cases "i < length (us_jobs s)") (auto simp: session_wf_def)
  let ?f = "\<lambda>u j. phase_rank (us_jobs s ! j) (phase u j)"
  have "sum (?f t) {..< length (us_jobs s)} + ?f s i = sum (?f s) {..< length (us_jobs s)} + ?f t i"
    using i t(5) by (intro sum_change_one) auto
  then have fin: "unfinished t < unfinished s"
    using d assms(2) t(3) by (simp add: unfinished_def)
  have "unread t = unread s" using t(1,2) by (simp add: unread_def)
  moreover have "waiting t \<subseteq> waiting s"
    using t(5,6) by (auto simp: waiting_def) (metis)
  then have "undone t \<le> undone s"
    using card_mono [OF session_users_finite(1) [OF assms(1)]] t(4) by (simp add: undone_def)
  ultimately show ?thesis using fin by (auto simp: urb_rank_def)
qed

lemma unwritten_cong [simp]:
  "unwritten (s\<lparr>us_reader := r\<rparr>) = unwritten s" "unwritten (s\<lparr>us_main := m\<rparr>) = unwritten s"
  "unwritten (s\<lparr>us_blocking := b\<rparr>) = unwritten s" "unwritten (s\<lparr>us_inflight := x\<rparr>) = unwritten s"
  "unwritten (s\<lparr>us_torn := q\<rparr>) = unwritten s" "unwritten (s\<lparr>us_lock := None\<rparr>) = 0"
  "unwritten (s\<lparr>us_lock := None, us_torn := q\<rparr>) = 0"
  "unwritten (set_phase i p s) = unwritten s" "unwritten (end_task i s) = unwritten s"
  "unwritten (drop_ref s) = unwritten s"
  by (simp_all add: unwritten_def)

lemma unwritten_begin [simp]: "unwritten (begin_write who f s) = length f"
  by (simp add: unwritten_def)

lemma unwritten_more:
  "can_write n s \<Longrightarrow> us_lock s \<noteq> None \<Longrightarrow> unwritten (write_more n s) < unwritten s"
  by (auto simp: can_write_def unwritten_def)

lemma main_step_rank: "unread t < unread s \<Longrightarrow> (urb_rank t, urb_rank s) \<in> lex3"
  by (simp add: urb_rank_def)

lemma pool_step_rank: "unread t = unread s \<Longrightarrow> undone t < undone s \<Longrightarrow> (urb_rank t, urb_rank s) \<in> lex3"
  by (simp add: urb_rank_def)

lemma unread_read:
  assumes "us_main s = Reading" "next_command devid (us_reader s) = (c, r)"
  shows "(\<And>e. c \<noteq> EndSession e) \<Longrightarrow> us_reader t = r \<Longrightarrow> main_rank (us_main t) \<le> 3 \<Longrightarrow> unread t < unread s"
    and "us_reader t = r \<Longrightarrow> us_main t = Ended e \<Longrightarrow> unread t < unread s"
  using next_command_shrinks [OF assms(2)] assms(1) by (simp_all add: unread_def)

lemma undone_join:
  assumes "session_wf s" "i \<in> us_blocking s" "us_blocking t = us_blocking s - {i}"
    and "\<And>j. phase t j = Some Spawned \<Longrightarrow> phase s j = Some Spawned"
  shows "undone t < undone s"
proof -
  have "card (us_blocking t) < card (us_blocking s)"
    using assms(2,3) session_users_finite(2) [OF assms(1)] by (metis card_Diff1_less)
  moreover have "card (waiting t) \<le> card (waiting s)"
    using assms(4) by (intro card_mono session_users_finite(1) assms(1)) (auto simp: waiting_def)
  ultimately show ?thesis by (simp add: undone_def)
qed

lemma undone_start:
  assumes "session_wf s" "phase s i = Some Spawned" "us_blocking t = insert i (us_blocking s)"
    and "\<And>j. phase t j = (if j = i then Some Blocking else phase s j)"
  shows "undone t < undone s"
proof -
  have i: "i \<in> waiting s" "i \<notin> us_blocking s"
    using assms(1,2) by (auto simp: waiting_def session_wf_def tasks_wf_def)
  have "waiting t = waiting s - {i}" using assms(4) by (auto simp: waiting_def split: if_splits)
  with i have "card (waiting s) = Suc (card (waiting t))"
    using session_users_finite(1) [OF assms(1)] by (metis card_Suc_Diff1)
  moreover have "card (us_blocking t) = Suc (card (us_blocking s))"
    using i assms(3) session_users_finite(2) [OF assms(1)] by simp
  ultimately show ?thesis by (simp add: undone_def)
qed

lemma phase_rank_pos: "0 < phase_rank job (Some p)"
  by (cases p) simp_all

lemma urb_rank_step:
  assumes step: "urb_step nb devid s t" and wf: "session_wf s"
  shows "(urb_rank t, urb_rank s) \<in> lex3"
  using step
proof (cases rule: urb_step.cases)
  case (ReadSubmit job r)
  then show ?thesis by (intro main_step_rank unread_read(1) [OF ReadSubmit(2,3)]) simp_all
next
  case (ReadUnlink basic u r)
  then show ?thesis by (intro main_step_rank unread_read(1) [OF ReadUnlink(2,3)]) simp_all
next
  case (ReadEnd e r)
  then show ?thesis by (intro main_step_rank unread_read(2) [OF ReadEnd(2,3)]) simp_all
next
  case (MainWrite n)
  have "us_lock s = Some ByMain" using wf MainWrite by (simp add: session_wf_def lock_wf_def)
  then have "unwritten t < unwritten s" using unwritten_more [OF MainWrite(3)] MainWrite(1) by simp
  moreover have "phase t = phase s" by (rule ext) (simp add: MainWrite(1))
  ultimately show ?thesis
    using MainWrite(1) by (simp add: urb_rank_def unread_def undone_def waiting_def unfinished_def)
next
  case (TaskStart i tk)
  then show ?thesis
    by (intro pool_step_rank undone_start [OF wf, of i]) (auto simp: unread_def)
next
  case (BlockingDone i res d w)
  then show ?thesis
    by (intro pool_step_rank undone_join [OF wf, of i]) (auto simp: unread_def split: if_splits)
next
  case (BlockingPanicked i d w)
  then show ?thesis
    by (intro pool_step_rank undone_join [OF wf, of i]) (auto simp: unread_def split: if_splits)
next
  case (TaskSkip i tk res)
  then show ?thesis by (intro task_step_rank [OF wf, of i "tk_phase tk"]) auto
next
  case (TaskReply i tk res)
  then have "us_jobs s ! i = tk_job tk" using wf by (simp add: session_wf_def tasks_wf_def)
  with TaskReply show ?thesis by (intro task_step_rank [OF wf, of i "tk_phase tk"]) auto
next
  case (TaskLock i tk f)
  moreover have "unwritten s = 0" using TaskLock(4) by (simp add: unwritten_def)
  ultimately show ?thesis by (intro task_step_rank [OF wf, of i "tk_phase tk"]) auto
next
  case (TaskWrite i tk n)
  then have "us_lock s = Some (ByTask i)" using wf by (simp add: session_wf_def lock_wf_def)
  then have "unwritten t < unwritten s" using unwritten_more [OF TaskWrite(4)] TaskWrite(1) by simp
  with TaskWrite show ?thesis by (intro task_step_rank [OF wf, of i "tk_phase tk"]) auto
next
  case (TaskWritten i tk n)
  then show ?thesis by (intro task_step_rank [OF wf, of i "tk_phase tk"]) auto
next
  case (TaskFail i tk)
  then show ?thesis by (intro task_step_rank [OF wf, of i "tk_phase tk"]) auto
next
  case (TaskFinish i tk)
  then show ?thesis by (intro task_step_rank [OF wf, of i "tk_phase tk"]) auto
next
  case (TaskKill i tk)
  then show ?thesis
    using phase_rank_pos by (intro task_step_rank [OF wf, of i "tk_phase tk"]) auto
next
  case (TaskKillSpawned i tk)
  then show ?thesis
    using phase_rank_pos by (intro task_step_rank [OF wf, of i "tk_phase tk"]) auto
next
  case (TaskKillWriting i tk)
  then show ?thesis by (intro task_step_rank [OF wf, of i "tk_phase tk"]) auto
qed (rule main_step_rank, simp add: unread_def)+

section \<open>Progress\<close>

text \<open>Whoever holds the writer lock can make a step.\<close>

lemma lock_holder_steps:
  assumes "lock_wf s" "us_lock s \<noteq> None"
  shows "\<exists>t. urb_step nb devid s t"
proof (cases "us_lock s")
  case (Some who)
  show ?thesis
  proof (cases who)
    case (ByTask i)
    with Some assms(1) have "phase s i = Some Writing" unfolding lock_wf_def by blast
    then obtain tk where "us_tasks s i = Some tk" "tk_phase tk = Writing" by (auto simp: phase_def)
    then show ?thesis using TaskFail by blast
  next
    case ByMain
    with Some assms(1) have "us_main s = UnlinkWriting" unfolding lock_wf_def by blast
    then show ?thesis using MainFail by blast
  qed
qed (use assms(2) in simp)

lemma closure_steps: "i \<in> us_blocking s \<Longrightarrow> \<exists>t. urb_step nb devid s t"
  by (cases "run_transfer nb (us_jobs s ! i) (us_device s, us_world s)") (blast intro: BlockingDone)

lemma task_steps:
  assumes "progress_wf s" "us_tasks s i = Some tk"
  shows "\<exists>t. urb_step nb devid s t"
proof (cases "tk_phase tk")
  case Blocking
  then have "i \<in> us_blocking s" using assms by (auto simp: progress_wf_def pool_wf_def)
  then show ?thesis by (rule closure_steps)
next
  case (Transferred res)
  with assms(2) show ?thesis using TaskSkip TaskReply by (cases "tk_cancelled tk") blast+
next
  case (WaitWriter f)
  show ?thesis
  proof (cases "us_lock s")
    case None
    with WaitWriter assms(2) show ?thesis using TaskLock by blast
  next
    case (Some who)
    with assms(1) show ?thesis by (intro lock_holder_steps) (simp_all add: progress_wf_def session_wf_def)
  qed
qed (use assms(2) in \<open>blast intro: TaskStart TaskFail TaskFinish\<close>)+

definition urb_quiet :: "'w urb_state \<Rightarrow> bool" where
  "urb_quiet s \<longleftrightarrow>
     (\<exists>e. us_main s = Ended e) \<and> us_tasks s = Map.empty \<and> us_blocking s = {} \<and>
     us_inflight s = Map.empty \<and> us_permits s = MAX_INFLIGHT_URBS \<and> us_lock s = None"

lemma main_steps:
  assumes "progress_wf s" "\<And>e. us_main s \<noteq> Ended e"
  shows "\<exists>t. urb_step nb devid s t"
proof (cases "us_main s")
  case Reading
  obtain c r where "next_command devid (us_reader s) = (c, r)" by fastforce
  with Reading show ?thesis using ReadSubmit ReadUnlink ReadEnd by (cases c) blast+
next
  case (WaitPermit job)
  show ?thesis
  proof (cases "us_permits s")
    case 0
    with assms(1) have "card (dom (us_tasks s)) = MAX_INFLIGHT_URBS"
      by (simp add: progress_wf_def session_wf_def permits_balanced_def)
    then have "us_tasks s \<noteq> Map.empty" by (auto simp: MAX_INFLIGHT_URBS_def)
    then obtain i tk where "us_tasks s i = Some tk" by (auto simp: fun_eq_iff)
    with assms(1) show ?thesis by (rule task_steps)
  next
    case (Suc n)
    with WaitPermit show ?thesis using Spawn by (metis zero_less_Suc)
  qed
next
  case (UnlinkReply f)
  show ?thesis
  proof (cases "us_lock s")
    case None
    with UnlinkReply show ?thesis using MainLock by blast
  next
    case (Some who)
    with assms(1) show ?thesis by (intro lock_holder_steps) (simp_all add: progress_wf_def session_wf_def)
  qed
qed (use assms(2) in \<open>blast intro: Record MainFail\<close>)+

lemma stuck_is_quiet:
  assumes "progress_wf s" "\<nexists>t. urb_step nb devid s t"
  shows "urb_quiet s"
proof -
  obtain e where e: "us_main s = Ended e" using main_steps [OF assms(1)] assms(2) by metis
  have tasks: "us_tasks s = Map.empty"
    using task_steps [OF assms(1)] assms(2) by (metis not_None_eq ext)
  moreover have "us_blocking s = {}" using closure_steps assms(2) by blast
  moreover have "us_lock s = None"
    using lock_holder_steps [of s nb devid] assms unfolding progress_wf_def session_wf_def by blast
  ultimately show ?thesis
    using assms(1) e by (auto simp: urb_quiet_def progress_wf_def session_wf_def pool_wf_def permits_balanced_def)
qed

interpretation urb: terminating_system
  "\<lambda>s. \<exists>opened w r. s = urb_start opened w r" "urb_step nb devid" progress_wf urb_rank lex3 urb_quiet
  for nb devid
proof unfold_locales
  fix s :: "'a urb_state" assume "\<exists>opened w r. s = urb_start opened w r"
  moreover from this have "session_wf s" by (rule ses.invar_init)
  ultimately show "progress_wf s"
    by (auto simp: progress_wf_def pool_wf_def urb_start_def phase_def)
next
  fix s t :: "'a urb_state" assume "progress_wf s" "urb_step nb devid s t"
  then show "progress_wf t"
    using ses.invar_trans pool_wf_step unfolding progress_wf_def by blast
next
  show "wf lex3" by (intro wf_lex_prod wf_less_than)
next
  fix s t :: "'a urb_state" assume "progress_wf s" "urb_step nb devid s t"
  then show "(urb_rank t, urb_rank s) \<in> lex3"
    using urb_rank_step unfolding progress_wf_def by blast
next
  fix s :: "'a urb_state" assume "progress_wf s" "\<nexists>t. urb_step nb devid s t"
  then show "urb_quiet s" by (rule stuck_is_quiet)
qed

section \<open>Requests and answers, abstractly\<close>

text \<open>
  What a client may rely on, as a ledger: requests are issued one after the other, at most 256 are
  open at a time, an open request is answered at most once with a reply to it, and a request is
  closed once, answered or not. How replies are computed, scheduled, cancelled and written is left open.
\<close>

record ledger =
  ld_issued :: "urb_job list"
  ld_open :: "nat set"
  ld_answers :: "(nat \<times> bytes) list"

definition ledger_empty :: ledger where
  "ledger_empty = \<lparr>ld_issued = [], ld_open = {}, ld_answers = []\<rparr>"

inductive ledger_step :: "ledger \<Rightarrow> ledger \<Rightarrow> bool" where
  Issue: "card (ld_open a) < 256 \<Longrightarrow>
     ledger_step a (a\<lparr>ld_issued := ld_issued a @ [job], ld_open := insert (length (ld_issued a)) (ld_open a)\<rparr>)"
| Answer: "i \<in> ld_open a \<Longrightarrow> i \<notin> fst ` set (ld_answers a) \<Longrightarrow>
     ledger_step a (a\<lparr>ld_answers := ld_answers a @ [(i, submit_reply (ld_issued a ! i) res)]\<rparr>)"
| Close: "i \<in> ld_open a \<Longrightarrow> ledger_step a (a\<lparr>ld_open := ld_open a - {i}\<rparr>)"

definition ledger_wf :: "ledger \<Rightarrow> bool" where
  "ledger_wf a \<longleftrightarrow> finite (ld_open a) \<and> card (ld_open a) \<le> 256 \<and> distinct (map fst (ld_answers a))"

lemma ledger_wf_empty: "ledger_wf ledger_empty"
  by (simp add: ledger_wf_def ledger_empty_def)

lemma ledger_wf_step: "ledger_step a b \<Longrightarrow> ledger_wf a \<Longrightarrow> ledger_wf b"
  by (induction rule: ledger_step.induct) (auto simp: ledger_wf_def card_insert_if card_Diff_singleton_if)

definition answers_of :: "log_entry list \<Rightarrow> (nat \<times> bytes) list" where
  "answers_of log =
     List.map_filter (\<lambda>e. case lg_owner e of ByTask i \<Rightarrow> Some (i, lg_frame e) | ByMain \<Rightarrow> None) log"

definition ledger_of :: "'w urb_state \<Rightarrow> ledger" where
  "ledger_of s = \<lparr>ld_issued = us_jobs s, ld_open = dom (us_tasks s), ld_answers = answers_of (us_log s)\<rparr>"

lemma answers_of_simps [simp]:
  "answers_of [] = []" "answers_of (xs @ ys) = answers_of xs @ answers_of ys"
  "answers_of (e # es) = (case lg_owner e of ByTask i \<Rightarrow> [(i, lg_frame e)] | ByMain \<Rightarrow> []) @ answers_of es"
  by (auto simp: answers_of_def List.map_filter_def split: owner.split)

lemma answers_of_writes: "map fst (answers_of log) = task_writes log"
  by (induction log) (auto split: owner.split)

lemma answers_of_done: "log \<noteq> [] \<Longrightarrow> answers_of (butlast log @ [(last log)\<lparr>lg_done := n\<rparr>]) = answers_of log"
  by (cases log rule: rev_cases) (simp_all split: owner.split)

lemma ledger_written:
  assumes "can_write n s" "us_jobs t = us_jobs s" "dom (us_tasks t) = dom (us_tasks s)" "us_log t = us_log (write_more n s)"
  shows "ledger_step\<^sup>*\<^sup>* (ledger_of s) (ledger_of t)"
  using assms answers_of_done [of "us_log s" n]
  by (simp add: ledger_of_def can_write_def del: answers_of_simps)

lemma ledger_quiet:
  assumes "us_jobs t = us_jobs s" "dom (us_tasks t) = dom (us_tasks s)" "answers_of (us_log t) = answers_of (us_log s)"
  shows "ledger_step\<^sup>*\<^sup>* (ledger_of s) (ledger_of t)"
  using assms by (simp add: ledger_of_def)

lemma ledger_close:
  assumes "us_tasks s i = Some tk" "us_jobs t = us_jobs s" "us_tasks t = (us_tasks s)(i := None)" "us_log t = us_log s"
  shows "ledger_step\<^sup>*\<^sup>* (ledger_of s) (ledger_of t)"
proof -
  have "ledger_of t = (ledger_of s)\<lparr>ld_open := ld_open (ledger_of s) - {i}\<rparr>"
    using assms by (auto simp: ledger_of_def)
  moreover have "i \<in> ld_open (ledger_of s)" using assms(1) by (auto simp: ledger_of_def)
  ultimately show ?thesis using Close by (metis r_into_rtranclp)
qed

lemma urb_step_ledger:
  assumes wf: "session_wf s" and step: "urb_step nb devid s t"
  shows "ledger_step\<^sup>*\<^sup>* (ledger_of s) (ledger_of t)"
  using step
proof (cases rule: urb_step.cases)
  case (Spawn job)
  have "card (dom (us_tasks s)) < 256"
    using wf Spawn(3) by (simp add: session_wf_def permits_balanced_def MAX_INFLIGHT_URBS_def)
  then have "card (ld_open (ledger_of s)) < 256" by (simp add: ledger_of_def)
  from Issue [OF this, of job] show ?thesis
    unfolding Spawn(1) by (intro r_into_rtranclp) (simp add: ledger_of_def spawn_task_def Let_def)
next
  case (TaskLock i tk f)
  then have ph: "phase s i = Some (WaitWriter f)" by simp
  then obtain res where f: "f = submit_reply (us_jobs s ! i) res"
    using wf unfolding session_wf_def tasks_wf_def by blast
  have "i \<notin> set (task_writes (us_log s))" using wf ph by (auto simp: session_wf_def log_wf_def)
  then have "i \<notin> fst ` set (ld_answers (ledger_of s))"
    by (simp add: ledger_of_def flip: answers_of_writes)
  moreover have "i \<in> ld_open (ledger_of s)" using TaskLock(2) by (auto simp: ledger_of_def)
  ultimately have "ledger_step (ledger_of s) ((ledger_of s)
      \<lparr>ld_answers := ld_answers (ledger_of s) @ [(i, submit_reply (ld_issued (ledger_of s) ! i) res)]\<rparr>)"
    by (intro Answer)
  then show ?thesis
    unfolding TaskLock(1) by (intro r_into_rtranclp) (simp add: ledger_of_def f)
next
  case (MainWrite n)
  then show ?thesis by (intro ledger_written [of n]) simp_all
next
  case (MainWritten n)
  then show ?thesis by (intro ledger_written [of n]) simp_all
next
  case (TaskWrite i tk n)
  then show ?thesis by (intro ledger_written [of n]) simp_all
next
  case (TaskWritten i tk n)
  then show ?thesis by (intro ledger_written [of n]) simp_all
next
  case (TaskFinish i tk)
  then show ?thesis by (intro ledger_close [of s i tk]) (simp_all add: end_task_def)
next
  case (TaskKill i tk)
  then show ?thesis by (intro ledger_close [of s i tk]) (simp_all add: end_task_def)
next
  case (TaskKillSpawned i tk)
  then show ?thesis by (intro ledger_close [of s i tk]) (simp_all add: end_task_def)
next
  case (TaskKillWriting i tk)
  then show ?thesis by (intro ledger_close [of s i tk]) (simp_all add: end_task_def)
qed (intro ledger_quiet; simp)+

interpretation led: simulation
  "\<lambda>s. \<exists>opened w r. s = urb_start opened w r" "urb_step nb devid" session_wf
  ledger_of "\<lambda>a. a = ledger_empty" ledger_step
  for nb devid
proof unfold_locales
  fix s :: "'a urb_state" assume "\<exists>opened w r. s = urb_start opened w r"
  then show "ledger_of s = ledger_empty" by (auto simp: urb_start_def ledger_of_def ledger_empty_def)
qed (rule urb_step_ledger)

section \<open>Properties\<close>

text \<open>
  C6: A URB session terminates: no run of the session machine is infinite, whatever the client
  sends and however the read loop, the tasks, the blocking closures and the writer interleave.
\<close>

theorem urb_session_terminates:
  assumes "f 0 = urb_start opened w r"
  shows "\<exists>n. \<not> urb_step nb devid (f n) (f (Suc n))"
  using urb.no_infinite_run [of f nb devid] assms by blast

theorem urb_session_terminates_witness:
  "\<not> urb_step sample_nusb 0x10002 (urb_start sample_device () (control_reader 1))
       (urb_start sample_device () (control_reader 1))"
  using urb_session_terminates [of "\<lambda>_. urb_start sample_device () (control_reader 1)" sample_device "()"
      "control_reader 1" sample_nusb "0x10002"] by simp

text \<open>
  C7: A session is never stuck and always cleans up: from every reachable state it can run to its
  end, and whenever no step is left the read loop has ended, no task and no closure is left, the
  in-flight map is empty, all permits are back and the writer lock is free.
\<close>

theorem urb_session_settles:
  assumes "(urb_step nb devid)\<^sup>*\<^sup>* (urb_start opened w r) s"
  shows "(\<exists>t. (urb_step nb devid)\<^sup>*\<^sup>* s t \<and> (\<nexists>u. urb_step nb devid t u)) \<and>
    ((\<nexists>u. urb_step nb devid s u) \<longrightarrow>
       (\<exists>e. us_main s = Ended e) \<and> us_tasks s = Map.empty \<and> us_blocking s = {} \<and>
       us_inflight s = Map.empty \<and> us_permits s = 256 \<and> us_lock s = None)"
proof (intro conjI impI)
  have wf: "progress_wf s" using urb.invar_reachable [OF _ assms] by blast
  show "\<exists>t. (urb_step nb devid)\<^sup>*\<^sup>* s t \<and> (\<nexists>u. urb_step nb devid t u)"
    using urb.reaches_quiet [OF wf] by blast
  assume "\<nexists>u. urb_step nb devid s u"
  then have "urb_quiet s" by (rule stuck_is_quiet [OF wf])
  then show "\<exists>e. us_main s = Ended e" "us_tasks s = Map.empty" "us_blocking s = {}"
    "us_inflight s = Map.empty" "us_permits s = 256" "us_lock s = None"
    by (simp_all add: urb_quiet_def MAX_INFLIGHT_URBS_def)
qed

theorem urb_session_settles_witness:
  "\<exists>t. (urb_step sample_nusb 0x10002)\<^sup>*\<^sup>* (urb_start sample_device () (control_reader 1)) t \<and>
     us_main t \<noteq> Reading \<and> us_tasks t = Map.empty \<and> us_permits t = 256"
proof -
  let ?s = "urb_start sample_device () (control_reader 1)"
  obtain t where t: "(urb_step sample_nusb 0x10002)\<^sup>*\<^sup>* ?s t" "\<nexists>u. urb_step sample_nusb 0x10002 t u"
    using urb_session_settles [OF rtranclp.rtrancl_refl, of sample_nusb "0x10002" sample_device "()" "control_reader 1"]
    by blast
  from urb_session_settles [OF t(1)] t(2) have "\<exists>e. us_main t = Ended e" "us_tasks t = Map.empty" "us_permits t = 256"
    by simp_all
  with t(1) show ?thesis by auto
qed

text \<open>
  C8: The session machine refines the ledger: the requests issued, the set of those still open and
  the replies given, in the order in which they take the writer, evolve as the ledger allows; in
  particular at most 256 requests are open, and no request has two answers.
\<close>

theorem urb_refines_ledger:
  assumes "(urb_step nb devid)\<^sup>*\<^sup>* (urb_start opened w r) s"
  shows "ledger_step\<^sup>*\<^sup>* ledger_empty (ledger_of s) \<and>
    card (ld_open (ledger_of s)) \<le> 256 \<and> distinct (map fst (ld_answers (ledger_of s)))"
proof -
  have i: "\<exists>opened' w' r'. urb_start opened w r = urb_start opened' w' r'" by blast
  have "ledger_of (urb_start opened w r) = ledger_empty" by (rule led.abs_init [OF i])
  moreover have "ledger_wf (ledger_of s)"
    using ledger_wf_empty ledger_wf_step i assms by (intro led.abs_invariant [where P = ledger_wf]) auto
  ultimately show ?thesis using led.abs_reachable [OF i assms] by (auto simp: ledger_wf_def)
qed

theorem urb_refines_ledger_witness:
  "\<exists>s. (urb_step sample_nusb 0x10002)\<^sup>*\<^sup>* (urb_start sample_device () (control_reader 1)) s \<and>
     ld_issued (ledger_of s) = [control_submit] \<and> ledger_step\<^sup>*\<^sup>* ledger_empty (ledger_of s)"
proof -
  let ?s = "urb_start sample_device () (control_reader 1)"
  have "next_command 0x10002 (us_reader ?s) = (Submit control_submit, (us_reader ?s)
      \<lparr>rd_bytes := command_encode (Unlink control_unlink control_unlink_tail)\<rparr>)"
    using control_sample_wf(1) by (rule next_command_encoded) (simp add: urb_start_def control_reader_def)
  then have step: "urb_step sample_nusb 0x10002 ?s (?s\<lparr>us_reader := (us_reader ?s)
      \<lparr>rd_bytes := command_encode (Unlink control_unlink control_unlink_tail)\<rparr>, us_main := WaitPermit control_submit\<rparr>)"
    by (rule ReadSubmit [rotated]) (simp add: urb_start_def)
  define t where "t = ?s\<lparr>us_reader := (us_reader ?s)
      \<lparr>rd_bytes := command_encode (Unlink control_unlink control_unlink_tail)\<rparr>, us_main := WaitPermit control_submit\<rparr>"
  have t: "urb_step sample_nusb 0x10002 ?s t" "us_main t = WaitPermit control_submit" "us_permits t = 256" "us_jobs t = []"
    using step by (simp_all add: t_def, simp_all add: urb_start_def MAX_INFLIGHT_URBS_def)
  have "urb_step sample_nusb 0x10002 t (spawn_task control_submit t)"
    by (rule Spawn) (simp_all add: t)
  with t(1) have run: "(urb_step sample_nusb 0x10002)\<^sup>*\<^sup>* ?s (spawn_task control_submit t)" by simp
  from urb_refines_ledger [OF run] run t(4) show ?thesis
    by (intro exI [of _ "spawn_task control_submit t"]) (simp add: ledger_of_def)
qed

end
