(* ===== verification/Device_Lifetime.thy ===== *)
theory Device_Lifetime
  imports Urb_Progress
begin

text \<open>
  How long an opened device lives. A session shares it through an \<^verbatim>\<open>Arc\<close>: the read loop holds one
  reference until \<^verbatim>\<open>urb_loop\<close> returns, a submit task one until it has handed it to its closure, and
  a closure on the blocking pool one until it ends (\<^verbatim>\<open>crates/usbipd/src/daemon.rs\<close>, lines 508 to 513,
  629, 636 and 740). The URB machine counts these references, and its invariant relates the count to
  the users. When the count falls to zero, \<^verbatim>\<open>Drop for OpenedDevice\<close> runs; a session that has let go of
  its device never gets it back.
\<close>

definition holds_device :: "'w urb_state \<Rightarrow> bool" where
  "holds_device u \<longleftrightarrow> 0 < us_refs u"

text \<open>What happens to device handles, as a log has it.\<close>

datatype device_event =
    DeviceOpened opened_device
  | DeviceDropped opened_device "drop_action list"

text \<open>The events of a step of a session: the drop, if the strong count falls to zero.\<close>

definition device_gone ::
  "iokit \<Rightarrow> listing \<Rightarrow> nat \<Rightarrow> 'w urb_state \<Rightarrow> 'w urb_state \<Rightarrow> (nat \<times> device_event) list" where
  "device_gone k listed i u u' =
     (if 0 < us_refs u \<and> us_refs u' = 0
      then [(i, DeviceDropped (us_device u') (drop_device k listed (us_device u')))] else [])"

lemma device_gone_holds:
  "device_gone k listed i u u' =
     (if holds_device u \<and> \<not> holds_device u'
      then [(i, DeviceDropped (us_device u') (drop_device k listed (us_device u')))] else [])"
  by (simp add: device_gone_def holds_device_def)

text \<open>The users of the device, spelled out.\<close>

lemma holds_device_alt:
  assumes "progress_wf u"
  shows "holds_device u \<longleftrightarrow> (\<forall>e. us_main u \<noteq> Ended e) \<or> us_blocking u \<noteq> {} \<or> (\<exists>i. phase u i = Some Spawned)"
proof -
  have "finite (waiting u)" "finite (us_blocking u)" "refs_counted u"
    using assms session_users_finite [of u] by (simp_all add: progress_wf_def session_wf_def)
  then show ?thesis
    by (auto simp: holds_device_def refs_counted_def waiting_def card_gt_0_iff split: main_phase.split)
qed

lemma holds_device_start [simp]: "holds_device (urb_start opened w r)"
  by (simp add: holds_device_def urb_start_def)

lemma holds_device_quiet: "progress_wf u \<Longrightarrow> urb_quiet u \<Longrightarrow> \<not> holds_device u"
  by (auto simp: holds_device_alt urb_quiet_def phase_def)

lemma ended_step: "urb_step nb devid u u' \<Longrightarrow> us_main u = Ended e \<Longrightarrow> us_main u' = Ended e"
  by (erule urb_step.cases) simp_all

text \<open>A device that was let go stays gone, and nothing touches its record any more.\<close>

lemma released_step:
  assumes "urb_step nb devid u u'" "progress_wf u" "\<not> holds_device u"
  shows "\<not> holds_device u' \<and> us_device u' = us_device u"
proof -
  have wf: "progress_wf u'" by (rule urb.invar_trans [OF assms(2,1)])
  obtain e where e: "us_main u = Ended e" and b: "us_blocking u = {}" and p: "\<And>i. phase u i \<noteq> Some Spawned"
    using assms(3) unfolding holds_device_alt [OF assms(2)] by blast
  have q: "us_tasks u i = Some t \<Longrightarrow> tk_phase t \<noteq> Spawned" for i t using p [of i] by auto
  from assms(1) have "us_main u' = Ended e \<and> us_blocking u' = {} \<and> (\<forall>i. phase u' i \<noteq> Some Spawned) \<and>
      us_device u' = us_device u"
    by (cases rule: urb_step.cases) (use e b p q in \<open>simp_all split: option.split\<close>)
  then show ?thesis unfolding holds_device_alt [OF wf] by simp
qed

lemma released_run:
  assumes "(urb_step nb devid)\<^sup>*\<^sup>* u u'" "progress_wf u" "\<not> holds_device u"
  shows "\<not> holds_device u' \<and> us_device u' = us_device u"
  using assms(1)
proof (induction rule: rtranclp_induct)
  case (step v v')
  then have "progress_wf v" using urb.invar_steps assms(2) by blast
  with step released_step [of nb devid v v'] show ?case by simp
qed (use assms(3) in simp)

lemma device_gone_same [simp]: "device_gone k listed i u u = []"
  by (simp add: device_gone_holds)

text \<open>So the events of a run are those of its ends.\<close>

lemma device_gone_run:
  assumes "(urb_step nb devid)\<^sup>*\<^sup>* u v" "(urb_step nb devid)\<^sup>*\<^sup>* v v'" "progress_wf u"
  shows "device_gone k listed i u v @ device_gone k listed i v v' = device_gone k listed i u v'"
  using released_run [OF assms(1,3)] released_run [OF assms(2) urb.invar_steps [OF assms(1,3)]]
  by (auto simp: device_gone_holds)

text \<open>A run in which the device goes has a step at which it does.\<close>

lemma last_reference:
  assumes "(urb_step nb devid)\<^sup>*\<^sup>* u u'" "holds_device u" "\<not> holds_device u'"
  obtains v v' where "(urb_step nb devid)\<^sup>*\<^sup>* u v" "holds_device v" "urb_step nb devid v v'" "\<not> holds_device v'"
  using assms
proof (induction arbitrary: thesis rule: rtranclp_induct)
  case (step v v')
  then show ?case by (cases "holds_device v") blast+
qed simp

end
