(* ===== verification/Daemon_System.thy ===== *)
theory Daemon_System
  imports Device_Lifetime
begin

text \<open>
  The whole daemon: all connections together, each from its acceptance over the handshake and the
  open to the URB loop and its end, sharing one attach table (\<^verbatim>\<open>usbipd/src/daemon.rs\<close>,
  \<^verbatim>\<open>handle_session\<close>, \<^verbatim>\<open>handle_import\<close> and \<^verbatim>\<open>urb_loop\<close> as \<^verbatim>\<open>accept_loop\<close> spawns them).

  Sessions interleave at the operations on the table: a handshake runs up to the attach, the open
  and the success reply are a step of their own, the URB loop contributes its own steps, and the
  guard is dropped when the loop has ended. A connection then drains: closures that are still on the
  blocking pool keep the device handle alive. A log records when a handle is opened and when it is
  dropped, with what the drop does to the host: at the step that gives up the last reference, or,
  where the success reply cannot be written, at once and before the guard. What each session meets
  (the listings, IOKit, the USB stack, the bytes of the client) is chosen freely at each step.
\<close>

section \<open>A session up to the attach\<close>

text \<open>
  \<^const>\<open>handle_session\<close> stopped where the guard has been taken: the result of a session that ends
  before, or the busid, the listed descriptor and the guard.
\<close>

definition greet_import ::
  "'w session_env \<Rightarrow> rstr \<Rightarrow> rstr \<Rightarrow> conn \<Rightarrow> (outcome + rstr \<times> usb_device \<times> attach_guard) \<times> conn" where
  "greet_import env peer busid c =
     (case list_devices (se_listing env) of
        Inl e \<Rightarrow> (Inl (Done (Inl (EnumerateFailed e))), c)
      | Inr devices \<Rightarrow>
          (case find (\<lambda>d. ud_busid d = busid) devices of
             None \<Rightarrow> apfst Inl (send_import_err c)
           | Some desc \<Rightarrow>
               if \<not> permits (ds_policy (cn_state c)) (ud_vendor_id desc) (ud_product_id desc)
               then apfst Inl (send_import_err c)
               else
                 (case try_attach busid peer (cn_state c) of
                    (None, st) \<Rightarrow> apfst Inl (send_import_err (c\<lparr>cn_state := st\<rparr>))
                  | (Some guard, st) \<Rightarrow> (Inr (busid, desc, guard), c\<lparr>cn_state := st\<rparr>))))"

definition greet ::
  "'w session_env \<Rightarrow> rstr \<Rightarrow> conn \<Rightarrow> (outcome + rstr \<times> usb_device \<times> attach_guard) \<times> conn" where
  "greet env peer c =
     (case read_exact 8 (cn_reader c) of
        (Inl k, r) \<Rightarrow> (Inl (Done (Inl (ReadFailed k))), c\<lparr>cn_reader := r\<rparr>)
      | (Inr header_buf, r) \<Rightarrow>
          (case op_header_decode header_buf of
             None \<Rightarrow> (Inl (Done (Inl Panicked)), c\<lparr>cn_reader := r\<rparr>)
           | Some (Inl e) \<Rightarrow> (Inl (Done (Inl (DecodeFailed e))), c\<lparr>cn_reader := r\<rparr>)
           | Some (Inr header) \<Rightarrow>
               if op_version header \<noteq> USBIP_VERSION then (Inl (Done (Inr ())), c\<lparr>cn_reader := r\<rparr>)
               else if op_code header = OP_REQ_DEVLIST then apfst Inl (handle_devlist env (c\<lparr>cn_reader := r\<rparr>))
               else if op_code header = OP_REQ_IMPORT then
                 (case read_exact 32 r of
                    (Inl k, r') \<Rightarrow> (Inl (Done (Inl (ReadFailed k))), c\<lparr>cn_reader := r'\<rparr>)
                  | (Inr busid_buf, r') \<Rightarrow>
                      (case decode_req_import_busid busid_buf of
                         None \<Rightarrow> (Inl (Done (Inl Panicked)), c\<lparr>cn_reader := r'\<rparr>)
                       | Some (Inl e) \<Rightarrow> (Inl (Done (Inl (DecodeFailed e))), c\<lparr>cn_reader := r'\<rparr>)
                       | Some (Inr busid) \<Rightarrow> greet_import env peer busid (c\<lparr>cn_reader := r'\<rparr>)))
               else (Inl (Done (Inr ())), c\<lparr>cn_reader := r\<rparr>)))"

definition finish_import ::
  "'w session_env \<Rightarrow> (outcome + rstr \<times> usb_device \<times> attach_guard) \<times> conn \<Rightarrow> outcome \<times> conn" where
  "finish_import env g =
     (case g of
        (Inl r, c) \<Rightarrow> (r, c)
      | (Inr (busid, desc, guard), c) \<Rightarrow> import_attached env busid desc guard c)"

text \<open>The two halves together are the session.\<close>

lemma finish_simps [simp]:
  "finish_import env (Inl r, c) = (r, c)" "finish_import env (apfst Inl x) = x"
  "finish_import env (Inr (busid, desc, guard), c) = import_attached env busid desc guard c"
  by (simp_all add: finish_import_def apfst_def map_prod_def split: prod.split)

lemma greet_import_device: "finish_import env (greet_import env peer busid c) = import_device env peer busid c"
  by (simp add: greet_import_def import_device_def split: sum.split option.split prod.split)

lemma greet_session: "finish_import env (greet env peer c) = handle_session env peer c"
  by (simp add: greet_def handle_session_def handle_import_def greet_import_device
      split: sum.split option.split prod.split)

section \<open>State and steps\<close>

datatype 'w connection =
    Greeting rstr reader writer
  | Opening rstr rstr usb_device attach_guard reader writer
  | Serving rstr usb_device attach_guard "'w nusb" "'w urb_state"
  | Draining usb_device "'w nusb" "'w urb_state"

record 'w daemon_sys =
  sy_table :: daemon_state
  sy_conns :: "nat \<rightharpoonup> 'w connection"
  sy_log :: "(nat \<times> device_event) list"

definition sys_start :: "access_policy \<Rightarrow> 'w daemon_sys" where
  "sys_start policy = \<lparr>sy_table = daemon_state_new policy, sy_conns = Map.empty, sy_log = []\<rparr>"

definition desc_devid :: "usb_device \<Rightarrow> u32" where
  "desc_devid desc = devid_of (ud_busnum desc) (ud_devnum desc)"

definition put_conn :: "nat \<Rightarrow> 'w connection option \<Rightarrow> daemon_state \<Rightarrow> 'w daemon_sys \<Rightarrow> 'w daemon_sys" where
  "put_conn i x table s = s\<lparr>sy_table := table, sy_conns := (sy_conns s)(i := x)\<rparr>"

definition log_events :: "(nat \<times> device_event) list \<Rightarrow> 'w daemon_sys \<Rightarrow> 'w daemon_sys" where
  "log_events es s = s\<lparr>sy_log := sy_log s @ es\<rparr>"

text \<open>A device that was opened although the import fails afterwards.\<close>

definition abandoned :: "'w session_env \<Rightarrow> listing \<Rightarrow> nat \<Rightarrow> rstr \<Rightarrow> (nat \<times> device_event) list" where
  "abandoned env listed i busid =
     (case snd (open_device (se_host env) busid) of
        Some (Inr opened) \<Rightarrow>
          [(i, DeviceOpened opened), (i, DeviceDropped opened (drop_device (he_iokit (se_host env)) listed opened))]
      | _ \<Rightarrow> [])"

inductive sys_step :: "'w daemon_sys \<Rightarrow> 'w daemon_sys \<Rightarrow> bool" where
  Accept: "sy_conns s i = None \<Longrightarrow>
     sys_step s (put_conn i (Some (Greeting peer r w)) (sy_table s) s)"
| Refused: "sy_conns s i = Some (Greeting peer r w) \<Longrightarrow>
     greet (env :: 'w session_env) peer \<lparr>cn_reader = r, cn_writer = w, cn_state = sy_table s\<rparr> = (Inl res, c) \<Longrightarrow>
     sys_step s (put_conn i None (cn_state c) s)"
| Attached: "sy_conns s i = Some (Greeting peer r w) \<Longrightarrow>
     greet (env :: 'w session_env) peer \<lparr>cn_reader = r, cn_writer = w, cn_state = sy_table s\<rparr> = (Inr (busid, desc, guard), c) \<Longrightarrow>
     sys_step s (put_conn i (Some (Opening peer busid desc guard (cn_reader c) (cn_writer c))) (cn_state c) s)"
| OpenFailed: "sy_conns s i = Some (Opening peer busid desc guard r w) \<Longrightarrow>
     import_attached (env :: 'w session_env) busid desc guard \<lparr>cn_reader = r, cn_writer = w, cn_state = sy_table s\<rparr> = (Done res, c) \<Longrightarrow>
     sys_step s (log_events (abandoned env listed i busid) (put_conn i None (cn_state c) s))"
| Opened: "sy_conns s i = Some (Opening peer busid desc guard r w) \<Longrightarrow>
     import_attached (env :: 'w session_env) busid desc guard \<lparr>cn_reader = r, cn_writer = w, cn_state = sy_table s\<rparr> =
       (EnterUrb desc' opened guard', c) \<Longrightarrow>
     sys_step s (log_events [(i, DeviceOpened opened)] (put_conn i (Some (Serving peer desc' guard' (se_nusb env)
       (urb_start opened (se_world env) (cn_reader c)))) (cn_state c) s))"
| Urb: "sy_conns s i = Some (Serving peer desc guard nb u) \<Longrightarrow> urb_step nb (desc_devid desc) u u' \<Longrightarrow>
     sys_step s (log_events (device_gone k listed i u u') (put_conn i (Some (Serving peer desc guard nb u')) (sy_table s) s))"
| Finish: "sy_conns s i = Some (Serving peer desc guard nb u) \<Longrightarrow> us_main u = Ended e \<Longrightarrow>
     sys_step s (put_conn i (Some (Draining desc nb u)) (attach_guard_drop guard (sy_table s)) s)"
| Drain: "sy_conns s i = Some (Draining desc nb u) \<Longrightarrow> urb_step nb (desc_devid desc) u u' \<Longrightarrow>
     sys_step s (log_events (device_gone k listed i u u') (put_conn i (Some (Draining desc nb u')) (sy_table s) s))"
| Gone: "sy_conns s i = Some (Draining desc nb u) \<Longrightarrow> \<nexists>u'. urb_step nb (desc_devid desc) u u' \<Longrightarrow>
     sys_step s (put_conn i None (sy_table s) s)"

lemma put_conn_sel [simp]:
  "sy_table (put_conn i x table s) = table" "sy_conns (put_conn i x table s) = (sy_conns s)(i := x)"
  "sy_log (put_conn i x table s) = sy_log s"
  by (simp_all add: put_conn_def)

lemma log_events_sel [simp]:
  "sy_table (log_events es s) = sy_table s" "sy_conns (log_events es s) = sy_conns s"
  "sy_log (log_events es s) = sy_log s @ es" "log_events [] s = s"
  "log_events fs (log_events es s) = log_events (es @ fs) s"
  by (simp_all add: log_events_def)

lemma put_conn_again [simp]:
  "put_conn i x table (put_conn i y table' s) = put_conn i x table s"
  "put_conn i x table (log_events es s) = log_events es (put_conn i x table s)"
  by (simp_all add: put_conn_def log_events_def)

section \<open>What the halves of a session do to the table\<close>

lemma handle_devlist_state: "handle_devlist env c = (r, c') \<Longrightarrow> cn_state c' = cn_state c"
  by (auto simp: handle_devlist_def Let_def split: sum.splits prod.splits)

lemma apfst_Inl: "apfst Inl x = (Inl r, c) \<longleftrightarrow> x = (r, c)" "apfst Inl x \<noteq> (Inr y, c)"
  by (cases x; simp)+

lemma greet_import_Inl: "greet_import env peer busid c = (Inl r, c') \<Longrightarrow> cn_state c' = cn_state c"
  using slots.claim_refused
  by (fastforce simp: greet_import_def apfst_Inl send_import_err_def split: sum.splits option.splits if_splits prod.splits)

lemma greet_Inl: "greet env peer c = (Inl r, c') \<Longrightarrow> cn_state c' = cn_state c"
  by (fastforce simp: greet_def apfst_Inl dest: greet_import_Inl handle_devlist_state split: sum.splits option.splits if_splits prod.splits)

lemma greet_import_Inr:
  "greet_import env peer busid c = (Inr (b, desc, guard), c') \<Longrightarrow>
   try_attach b peer (cn_state c) = (Some guard, cn_state c') \<and> guard_busid guard = b \<and>
   permits (ds_policy (cn_state c)) (ud_vendor_id desc) (ud_product_id desc)"
  by (auto simp: greet_import_def apfst_Inl split: sum.splits option.splits if_splits prod.splits
      dest: slots.claim_granted)

lemma greet_Inr:
  "greet env peer c = (Inr (b, desc, guard), c') \<Longrightarrow>
   try_attach b peer (cn_state c) = (Some guard, cn_state c') \<and> guard_busid guard = b \<and>
   permits (ds_policy (cn_state c)) (ud_vendor_id desc) (ud_product_id desc)"
  by (fastforce simp: greet_def apfst_Inl dest: greet_import_Inr split: sum.splits option.splits if_splits prod.splits)

lemma import_attached_Done:
  "import_attached env busid desc guard c = (Done r, c') \<Longrightarrow> cn_state c' = attach_guard_drop guard (cn_state c)"
  by (auto simp: import_attached_def Let_def send_import_err_def split: option.splits sum.splits prod.splits)

lemma import_attached_Enter:
  assumes "import_attached env busid desc guard c = (EnterUrb desc' opened guard', c')"
  shows "guard' = guard \<and> cn_state c' = cn_state c \<and>
    ud_vendor_id desc' = ud_vendor_id desc \<and> ud_product_id desc' = ud_product_id desc \<and>
    od_busid opened = busid \<and> desc_devid desc' = od_devid opened"
proof -
  note e = import_attached_enter [OF assms]
  then have "od_busid opened = busid" using open_device_captured by blast
  with e show ?thesis
    by (simp add: import_desc_def desc_devid_def descriptor_snapshot_def Let_def devid_repack)
qed

section \<open>Refinement to the attach table\<close>

text \<open>The guards that the connections hold, with the label of the peer.\<close>

definition guards_of :: "'w daemon_sys \<Rightarrow> nat \<rightharpoonup> attach_guard \<times> rstr" where
  "guards_of s i =
     (case sy_conns s i of
        Some (Opening peer busid desc guard r w) \<Rightarrow> Some (guard, peer)
      | Some (Serving peer desc guard nb u) \<Rightarrow> Some (guard, peer)
      | _ \<Rightarrow> None)"

definition attach_view :: "'w daemon_sys \<Rightarrow> attach_world" where
  "attach_view s = \<lparr>aw_state = sy_table s, aw_guards = guards_of s\<rparr>"

fun conn_wf :: "access_policy \<Rightarrow> 'w connection \<Rightarrow> bool" where
  "conn_wf policy (Greeting peer r w) = True"
| "conn_wf policy (Opening peer busid desc guard r w) =
     (permits policy (ud_vendor_id desc) (ud_product_id desc) \<and> guard_busid guard = busid)"
| "conn_wf policy (Serving peer desc guard nb u) =
     (permits policy (ud_vendor_id desc) (ud_product_id desc) \<and> progress_wf u \<and>
      od_busid (us_device u) = guard_busid guard \<and> od_devid (us_device u) = desc_devid desc)"
| "conn_wf policy (Draining desc nb u) = (progress_wf u \<and> (\<exists>e. us_main u = Ended e))"

definition sys_wf :: "access_policy \<Rightarrow> 'w daemon_sys \<Rightarrow> bool" where
  "sys_wf policy s \<longleftrightarrow>
     ds_policy (sy_table s) = policy \<and> (\<forall>i x. sy_conns s i = Some x \<longrightarrow> conn_wf policy x)"

lemma sys_wf_conn: "sys_wf policy s \<Longrightarrow> sy_conns s i = Some x \<Longrightarrow> conn_wf policy x"
  by (simp add: sys_wf_def)

lemma sys_wf_put:
  assumes "sys_wf policy s" "ds_policy table = policy" "\<And>y. x = Some y \<Longrightarrow> conn_wf policy y"
  shows "sys_wf policy (put_conn i x table s)"
  using assms by (auto simp: sys_wf_def)

lemma sys_wf_log [simp]: "sys_wf policy (log_events es s) = sys_wf policy s"
  by (simp add: sys_wf_def)

lemma drop_policy [simp]: "ds_policy (attach_guard_drop guard st) = ds_policy st"
  by (simp add: attach_guard_drop_def)

lemma attach_policy: "try_attach busid peer st = (g, st') \<Longrightarrow> ds_policy st' = ds_policy st"
  using try_attach_policy [of busid peer st] by simp

lemma progress_wf_start: "progress_wf (urb_start opened w r)"
  by (rule urb.invar_init) blast

lemma urb_start_device [simp]: "us_device (urb_start opened w r) = opened"
  by (simp add: urb_start_def)

lemma urb_step_device:
  "urb_step nb devid u u' \<Longrightarrow> od_busid (us_device u') = od_busid (us_device u) \<and> od_devid (us_device u') = od_devid (us_device u)"
  by (drule urb_step_identity) (simp add: identity_def)

lemma sys_wf_step:
  assumes "sys_wf policy s" "sys_step s t"
  shows "sys_wf policy t"
  using assms(2)
proof (cases rule: sys_step.cases)
  case (Accept i peer r w)
  with assms(1) show ?thesis unfolding Accept(1) by (intro sys_wf_put) (auto simp: sys_wf_def)
next
  case (Refused i peer r w env res c)
  from greet_Inl [OF this(3)] assms(1) show ?thesis
    unfolding Refused(1) by (intro sys_wf_put) (simp_all add: sys_wf_def)
next
  case (Attached i peer r w env busid desc guard c)
  from greet_Inr [OF this(3)] assms(1) show ?thesis
    unfolding Attached(1) by (intro sys_wf_put) (auto simp: sys_wf_def dest: attach_policy)
next
  case (OpenFailed i peer busid desc guard r w env res c listed)
  from import_attached_Done [OF this(3)] assms(1) show ?thesis
    unfolding OpenFailed(1) sys_wf_log by (intro sys_wf_put) (simp_all add: sys_wf_def)
next
  case (Opened i peer busid desc guard r w env desc' opened guard' c)
  from import_attached_Enter [OF this(3)] sys_wf_conn [OF assms(1) this(2)] assms(1) show ?thesis
    unfolding Opened(1) sys_wf_log by (intro sys_wf_put) (auto simp: sys_wf_def progress_wf_start)
next
  case (Urb i peer desc guard nb u u' k listed)
  with sys_wf_conn [OF assms(1) Urb(2)] have "progress_wf u'" by (auto intro: urb.invar_trans)
  with sys_wf_conn [OF assms(1) Urb(2)] urb_step_device [OF Urb(3)] assms(1) show ?thesis
    unfolding Urb(1) sys_wf_log by (intro sys_wf_put) (auto simp: sys_wf_def)
next
  case (Finish i peer desc guard nb u e)
  with sys_wf_conn [OF assms(1) Finish(2)] assms(1) show ?thesis
    unfolding Finish(1) by (intro sys_wf_put) (auto simp: sys_wf_def)
next
  case (Drain i desc nb u u' k listed)
  with sys_wf_conn [OF assms(1) Drain(2)] have "progress_wf u' \<and> (\<exists>e. us_main u' = Ended e)"
    by (auto intro: urb.invar_trans ended_step)
  with assms(1) show ?thesis unfolding Drain(1) sys_wf_log by (intro sys_wf_put) (auto simp: sys_wf_def)
next
  case (Gone i desc nb u)
  with assms(1) show ?thesis unfolding Gone(1) by (intro sys_wf_put) (simp_all add: sys_wf_def)
qed

text \<open>How replacing one connection shows in the guards.\<close>

lemma guards_of_log [simp]: "guards_of (log_events es s) = guards_of s"
  by (simp add: guards_of_def fun_eq_iff)

lemma attach_view_log [simp]: "attach_view (log_events es s) = attach_view s"
  by (simp add: attach_view_def)

lemma guards_of_put:
  "guards_of (put_conn i x table s) =
     (guards_of s)(i := (case x of
        Some (Opening peer busid desc guard r w) \<Rightarrow> Some (guard, peer)
      | Some (Serving peer desc guard nb u) \<Rightarrow> Some (guard, peer)
      | _ \<Rightarrow> None))"
  by (auto simp: guards_of_def put_conn_def fun_eq_iff)

lemma attach_view_put:
  "attach_view (put_conn i x table s) =
     \<lparr>aw_state = table, aw_guards = guards_of (put_conn i x table s)\<rparr>"
  by (simp add: attach_view_def put_conn_def)

lemma attach_view_same:
  assumes "guards_of (put_conn i x (sy_table s) s) = guards_of s"
  shows "attach_step\<^sup>*\<^sup>* (attach_view s) (attach_view (put_conn i x (sy_table s) s))"
  using assms by (simp add: attach_view_def put_conn_def)

lemma attach_view_detach:
  assumes "guards_of s i = Some (guard, peer)" "guards_of t = (guards_of s)(i := None)"
    and "sy_table t = attach_guard_drop guard (sy_table s)"
  shows "attach_step\<^sup>*\<^sup>* (attach_view s) (attach_view t)"
  using Detach [of "attach_view s" i guard peer] assms by (intro r_into_rtranclp) (simp add: attach_view_def)

lemma sys_step_attach:
  assumes "sys_wf policy s" "sys_step s t"
  shows "attach_step\<^sup>*\<^sup>* (attach_view s) (attach_view t)"
  using assms(2)
proof (cases rule: sys_step.cases)
  case (Refused i peer r w env res c)
  from greet_Inl [OF this(3)] have c: "cn_state c = sy_table s" by simp
  show ?thesis unfolding Refused(1) c
    using Refused(2) by (intro attach_view_same) (simp add: guards_of_put, simp add: guards_of_def fun_eq_iff)
next
  case (Attached i peer r w env busid desc guard c)
  have g: "guards_of s i = None" using Attached(2) by (simp add: guards_of_def)
  have a: "try_attach busid peer (sy_table s) = (Some guard, cn_state c)" using greet_Inr [OF Attached(3)] by simp
  have "attach_step (attach_view s) \<lparr>aw_state = cn_state c, aw_guards = (guards_of s)(i \<mapsto> (guard, peer))\<rparr>"
    using Attach [of "attach_view s" i busid peer guard "cn_state c"] g a by (simp add: attach_view_def)
  then show ?thesis unfolding Attached(1) by (intro r_into_rtranclp) (simp add: attach_view_put guards_of_put)
next
  case (OpenFailed i peer busid desc guard r w env res c listed)
  then show ?thesis using import_attached_Done [OF OpenFailed(3)]
    by (intro attach_view_detach [of s i guard peer])
      (simp_all add: guards_of_put, simp_all add: guards_of_def put_conn_def)
next
  case (Opened i peer busid desc guard r w env desc' opened guard' c)
  from import_attached_Enter [OF this(3)] have c: "cn_state c = sy_table s" "guard' = guard" by simp_all
  show ?thesis unfolding Opened(1) c attach_view_log
    using Opened(2) by (intro attach_view_same) (simp add: guards_of_put, simp add: guards_of_def fun_eq_iff)
next
  case (Finish i peer desc guard nb u e)
  then show ?thesis
    by (intro attach_view_detach [of s i guard peer])
      (simp_all add: guards_of_put, simp_all add: guards_of_def put_conn_def)
next
  case (Accept i peer r w)
  then show ?thesis unfolding Accept(1)
    by (intro attach_view_same) (simp add: guards_of_put, simp add: guards_of_def fun_eq_iff)
next
  case (Urb i peer desc guard nb u u' k listed)
  then show ?thesis unfolding Urb(1) attach_view_log
    by (intro attach_view_same) (simp add: guards_of_put, simp add: guards_of_def fun_eq_iff)
next
  case (Drain i desc nb u u' k listed)
  then show ?thesis unfolding Drain(1) attach_view_log
    by (intro attach_view_same) (simp add: guards_of_put, simp add: guards_of_def fun_eq_iff)
next
  case (Gone i desc nb u)
  then show ?thesis unfolding Gone(1)
    by (intro attach_view_same) (simp add: guards_of_put, simp add: guards_of_def fun_eq_iff)
qed

interpretation sys: simulation
  "\<lambda>s. s = sys_start policy" sys_step "sys_wf policy" attach_view attach_init attach_step
  for policy
proof unfold_locales
  fix s :: "'a daemon_sys" assume "s = sys_start policy"
  then show "sys_wf policy s" by (simp add: sys_wf_def sys_start_def daemon_state_new_def)
next
  fix s t :: "'a daemon_sys" assume "sys_wf policy s" "sys_step s t"
  then show "sys_wf policy t" by (rule sys_wf_step)
next
  fix s :: "'a daemon_sys" assume "s = sys_start policy"
  then show "attach_init (attach_view s)"
    by (simp add: attach_init_def attach_view_def sys_start_def daemon_state_new_def guards_of_def fun_eq_iff)
next
  fix s t :: "'a daemon_sys" assume "sys_wf policy s" "sys_step s t"
  then show "attach_step\<^sup>*\<^sup>* (attach_view s) (attach_view t)" by (rule sys_step_attach)
qed

section \<open>Runs of a single connection\<close>

lemma greet_import_Done: "greet_import env peer busid c = (Inl r, c') \<Longrightarrow> \<exists>x. r = Done x"
  by (auto simp: greet_import_def apfst_Inl send_import_err_def split: sum.splits option.splits if_splits prod.splits)

lemma handle_devlist_Done: "handle_devlist env c = (r, c') \<Longrightarrow> \<exists>x. r = Done x"
  by (auto simp: handle_devlist_def Let_def split: sum.splits prod.splits)

lemma greet_Done: "greet env peer c = (Inl r, c') \<Longrightarrow> \<exists>x. r = Done x"
  by (fastforce simp: greet_def apfst_Inl dest: greet_import_Done handle_devlist_Done
      split: sum.splits option.splits if_splits prod.splits)

lemma handle_session_split:
  assumes "handle_session env peer c = (EnterUrb desc opened guard, c')"
  obtains busid desc0 guard0 c0 where "greet env peer c = (Inr (busid, desc0, guard0), c0)"
    "import_attached env busid desc0 guard0 c0 = (EnterUrb desc opened guard, c')"
proof (cases "greet env peer c")
  case (Pair g c0)
  show thesis
  proof (cases g)
    case (Inl r)
    with Pair assms greet_session [of env peer c] have "r = EnterUrb desc opened guard" by simp
    with greet_Done [of env peer c r c0] Pair Inl show ?thesis by simp
  next
    case (Inr x)
    with Pair assms greet_session [of env peer c] show ?thesis
      by (cases x) (auto intro: that)
  qed
qed

text \<open>A session that \<^const>\<open>handle_session\<close> lets into the URB loop is a run of the system.\<close>

lemma session_run:
  assumes "sy_conns s i = Some (Greeting peer r w)"
    and "handle_session env peer \<lparr>cn_reader = r, cn_writer = w, cn_state = sy_table s\<rparr> =
      (EnterUrb desc opened guard, c)"
  shows "sys_step\<^sup>*\<^sup>* s (log_events [(i, DeviceOpened opened)] (put_conn i (Some (Serving peer desc guard (se_nusb env)
    (urb_start opened (se_world env) (cn_reader c)))) (cn_state c) s))"
proof -
  obtain busid desc0 guard0 c0 where
    1: "greet env peer \<lparr>cn_reader = r, cn_writer = w, cn_state = sy_table s\<rparr> = (Inr (busid, desc0, guard0), c0)" and
    2: "import_attached env busid desc0 guard0 c0 = (EnterUrb desc opened guard, c)"
    using handle_session_split [OF assms(2)] by blast
  have whole: "\<lparr>cn_reader = cn_reader c0, cn_writer = cn_writer c0, cn_state = cn_state c0\<rparr> = c0" by simp
  let ?s1 = "put_conn i (Some (Opening peer busid desc0 guard0 (cn_reader c0) (cn_writer c0))) (cn_state c0) s"
  have "sys_step s ?s1" by (rule Attached [OF assms(1) 1])
  moreover have "sy_conns ?s1 i = Some (Opening peer busid desc0 guard0 (cn_reader c0) (cn_writer c0))" by simp
  from Opened [OF this, of env desc opened guard c] 2 whole
  have "sys_step ?s1 (log_events [(i, DeviceOpened opened)] (put_conn i (Some (Serving peer desc guard (se_nusb env)
      (urb_start opened (se_world env) (cn_reader c)))) (cn_state c) s))" by simp
  ultimately show ?thesis by simp
qed

text \<open>Steps of the URB machine as steps of the system, while the loop runs and while it drains.\<close>

lemma machine_run:
  assumes "(urb_step nb devid)\<^sup>*\<^sup>* u u'" "sy_conns s i = Some (f u)" "progress_wf u"
    and step: "\<And>s v v'. sy_conns s i = Some (f v) \<Longrightarrow> urb_step nb devid v v' \<Longrightarrow>
      sys_step s (log_events (device_gone k listed i v v') (put_conn i (Some (f v')) (sy_table s) s))"
  shows "sys_step\<^sup>*\<^sup>* s (log_events (device_gone k listed i u u') (put_conn i (Some (f u')) (sy_table s) s))"
  using assms(1)
proof (induction rule: rtranclp_induct)
  case base
  have "put_conn i (Some (f u)) (sy_table s) s = s" using assms(2) by (simp add: put_conn_def fun_upd_idem)
  then show ?case by simp
next
  case (step v v')
  let ?s1 = "log_events (device_gone k listed i u v) (put_conn i (Some (f v)) (sy_table s) s)"
  have "sys_step ?s1 (log_events (device_gone k listed i u v @ device_gone k listed i v v')
      (put_conn i (Some (f v')) (sy_table s) s))"
    using assms(4) [of ?s1 v v'] step(2) by simp
  moreover have "device_gone k listed i u v @ device_gone k listed i v v' = device_gone k listed i u v'"
    by (rule device_gone_run [OF step(1) r_into_rtranclp assms(3)]) (rule step(2))
  ultimately show ?case using step.IH by (simp add: rtranclp.rtrancl_into_rtrancl)
qed

lemma urb_run:
  assumes "(urb_step nb (desc_devid desc))\<^sup>*\<^sup>* u u'" "sy_conns s i = Some (Serving peer desc guard nb u)" "progress_wf u"
  shows "sys_step\<^sup>*\<^sup>* s (log_events (device_gone k listed i u u') (put_conn i (Some (Serving peer desc guard nb u')) (sy_table s) s))"
  using assms by (intro machine_run [of nb "desc_devid desc" u u' s i "Serving peer desc guard nb"]) (auto intro: Urb)

lemma drain_run:
  assumes "(urb_step nb (desc_devid desc))\<^sup>*\<^sup>* u u'" "sy_conns s i = Some (Draining desc nb u)" "progress_wf u"
  shows "sys_step\<^sup>*\<^sup>* s (log_events (device_gone k listed i u u') (put_conn i (Some (Draining desc nb u')) (sy_table s) s))"
  using assms by (intro machine_run [of nb "desc_devid desc" u u' s i "Draining desc nb"]) (auto intro: Drain)

text \<open>The end of a connection whose URB loop has ended, and the next client of its device.\<close>

lemma finish_run:
  assumes "(urb_step nb (desc_devid desc))\<^sup>*\<^sup>* u v" "sy_conns s i = Some (Serving peer desc guard nb u)" "progress_wf u"
    and "us_main v = Ended e"
  shows "sys_step\<^sup>*\<^sup>* s (log_events (device_gone k listed i u v)
    (put_conn i (Some (Draining desc nb v)) (attach_guard_drop guard (sy_table s)) s))"
proof -
  let ?s1 = "log_events (device_gone k listed i u v) (put_conn i (Some (Serving peer desc guard nb v)) (sy_table s) s)"
  have "sys_step\<^sup>*\<^sup>* s ?s1" by (rule urb_run [OF assms(1-3)])
  moreover have "sys_step ?s1 (log_events (device_gone k listed i u v)
      (put_conn i (Some (Draining desc nb v)) (attach_guard_drop guard (sy_table s)) s))"
    using Finish [of ?s1 i peer desc guard nb v e] assms(4) by simp
  ultimately show ?thesis by (rule rtranclp.rtrancl_into_rtrancl)
qed

lemma handover_run:
  assumes "(urb_step nb (desc_devid desc))\<^sup>*\<^sup>* u v" "sy_conns s i = Some (Serving peer desc guard nb u)" "progress_wf u"
    and "us_main v = Ended e" "holds_device v" "sy_conns s j = Some (Greeting peer' r w)"
    and "handle_session env peer' \<lparr>cn_reader = r, cn_writer = w,
      cn_state = attach_guard_drop guard (sy_table s)\<rparr> = (EnterUrb desc' opened' guard', c)"
  shows "sys_step\<^sup>*\<^sup>* s (log_events [(j, DeviceOpened opened')]
    (put_conn j (Some (Serving peer' desc' guard' (se_nusb env) (urb_start opened' (se_world env) (cn_reader c)))) (cn_state c)
      (put_conn i (Some (Draining desc nb v)) (attach_guard_drop guard (sy_table s)) s)))"
proof -
  let ?s1 = "put_conn i (Some (Draining desc nb v)) (attach_guard_drop guard (sy_table s)) s"
  have ij: "i \<noteq> j" using assms(2,6) by auto
  have "device_gone k listed i u v = []" for k listed using assms(5) by (simp add: device_gone_holds)
  with finish_run [OF assms(1-4)] have 1: "sys_step\<^sup>*\<^sup>* s ?s1" by simp
  have "sy_conns ?s1 j = Some (Greeting peer' r w)" using assms(6) ij by simp
  from session_run [OF this, of env desc' opened' guard' c] assms(7)
  show ?thesis by (intro rtranclp_trans [OF 1]) simp
qed

text \<open>What a granted import tells the client, and what it leaves to be read.\<close>

lemma import_device_told:
  assumes "import_device env peer busid c = (EnterUrb desc opened g, c')"
    and "se_listing env = Inr infos" "find (\<lambda>i. format_busid i = busid) infos = Some info"
  shows "cn_reader c' = cn_reader c" "desc_devid desc = od_devid opened"
    "wr_sent (cn_writer c') = wr_sent (cn_writer c) @ encode_rep_import_ok (to_exported desc)"
    "ud_vendor_id desc = di_vendor_id info" "ud_product_id desc = di_product_id info"
proof -
  obtain infos' info' st where l: "se_listing env = Inr infos'" "find (\<lambda>i. format_busid i = busid) infos' = Some info'"
    and a': "import_attached env busid (from_info info') g (c\<lparr>cn_state := st\<rparr>) = (EnterUrb desc opened g, c')"
    by (rule import_device_enter [OF assms(1)])
  from l assms(2,3) a' have a: "import_attached env busid (from_info info) g (c\<lparr>cn_state := st\<rparr>) = (EnterUrb desc opened g, c')"
    by simp
  then show "cn_reader c' = cn_reader c"
    by (auto simp: import_attached_def send_import_err_def Let_def split: option.split_asm sum.split_asm prod.split_asm)
  note e = import_attached_enter [OF a]
  from e show "wr_sent (cn_writer c') = wr_sent (cn_writer c) @ encode_rep_import_ok (to_exported desc)" by simp
  from e have d: "desc = import_desc (from_info info) (descriptor_snapshot (se_nusb env) opened (se_world env))" by simp
  show "desc_devid desc = od_devid opened"
    unfolding d by (simp add: desc_devid_def import_desc_def descriptor_snapshot_def Let_def devid_repack)
  show "ud_vendor_id desc = di_vendor_id info" "ud_product_id desc = di_product_id info"
    unfolding d by (simp_all add: import_desc_def)
qed

lemma import_device_attached:
  assumes "import_device env peer busid c = (EnterUrb desc opened g, c')"
  shows "try_attach busid peer (cn_state c) = (Some g, cn_state c')"
proof -
  obtain infos info st where "try_attach busid peer (cn_state c) = (Some g, st)"
    and "import_attached env busid (from_info info) g (c\<lparr>cn_state := st\<rparr>) = (EnterUrb desc opened g, c')"
    by (rule import_device_enter [OF assms])
  with import_attached_Enter [of env busid "from_info info" g "c\<lparr>cn_state := st\<rparr>"] show ?thesis by simp
qed

section \<open>Properties\<close>

lemma reach_attach_invar:
  assumes "sys_step\<^sup>*\<^sup>* (sys_start policy) s"
  shows "attach_invar (attach_view s)"
  using assms by (intro sys.abs_invariant [where P = attach_invar]) (auto intro: att.invar_init att.invar_trans)

text \<open>
  Two clients of the keyboard of the examples: the first one has sent its import request and
  \<open>rest\<close>, the second one its import request.
\<close>

definition client :: "rstr \<Rightarrow> bytes \<Rightarrow> 'w connection" where
  "client peer bs = Greeting peer \<lparr>rd_bytes = bs, rd_broken = False\<rparr> \<lparr>wr_sent = [], wr_room = None\<rparr>"

definition sample_sys :: "bytes \<Rightarrow> unit daemon_sys" where
  "sample_sys rest = put_conn 1 (Some (client (lit ''q'') sample_import)) (daemon_state_new keyboard_policy)
     (put_conn 0 (Some (client (lit ''p'') (sample_import @ rest))) (daemon_state_new keyboard_policy)
       (sys_start keyboard_policy))"

lemma sample_accepted: "sys_step\<^sup>*\<^sup>* (sys_start keyboard_policy) (sample_sys rest)"
proof -
  let ?s0 = "sys_start keyboard_policy :: unit daemon_sys"
  let ?s1 = "put_conn 0 (Some (client (lit ''p'') (sample_import @ rest))) (daemon_state_new keyboard_policy) ?s0"
  have "sys_step ?s0 ?s1"
    using Accept [of ?s0 0 "lit ''p''" "\<lparr>rd_bytes = sample_import @ rest, rd_broken = False\<rparr>" "\<lparr>wr_sent = [], wr_room = None\<rparr>"]
    by (simp add: sys_start_def client_def)
  moreover have "sys_step ?s1 (sample_sys rest)"
    using Accept [of ?s1 1 "lit ''q''" "\<lparr>rd_bytes = sample_import, rd_broken = False\<rparr>" "\<lparr>wr_sent = [], wr_room = None\<rparr>"]
    by (simp add: sample_sys_def sys_start_def client_def put_conn_def)
  ultimately show ?thesis by (meson converse_rtranclp_into_rtranclp rtranclp.rtrancl_refl)
qed

lemma sample_granted:
  "\<exists>desc c. handle_session sample_session_env peer (sample_conn (sample_import @ rest)) =
     (EnterUrb desc sample_device (AttachGuard sample_busid), c) \<and>
   cn_reader c = \<lparr>rd_bytes = rest, rd_broken = False\<rparr> \<and> desc_devid desc = od_devid sample_device \<and>
   attach_guard_drop (AttachGuard sample_busid) (cn_state c) = daemon_state_new keyboard_policy"
proof -
  let ?c = "sample_conn (sample_import @ rest)"
  let ?c1 = "?c\<lparr>cn_reader := (cn_reader ?c)\<lparr>rd_bytes := rest\<rparr>\<rparr>"
  have req: "handle_session sample_session_env peer ?c = import_device sample_session_env peer sample_busid ?c1"
    by (rule import_request [OF _ sample_busid_fits]) (simp add: sample_import_def)
  have l: "se_listing sample_session_env = Inr [keyboard_info]"
    "find (\<lambda>i. format_busid i = sample_busid) [keyboard_info] = Some keyboard_info"
    by (simp_all add: sample_session_env_def sample_busid_device del: keyboard_busid)
  obtain desc c where s: "import_device sample_session_env peer sample_busid ?c1 =
      (EnterUrb desc sample_device (AttachGuard sample_busid), c)"
    using import_device_granted [OF l, of ?c1 sample_device peer] sample_busid_device(2)
    by (auto simp: sample_session_env_def)
  have "attach_guard_drop (AttachGuard sample_busid) (cn_state c) = daemon_state_new keyboard_policy"
    using import_device_attached [OF s]
    by (simp add: try_attach_def attach_guard_drop_def daemon_state_new_def sample_conn_def) (drule sym, simp)
  with s req import_device_told [OF s l] show ?thesis by (auto simp: sample_conn_def)
qed

lemma sample_serving:
  "\<exists>s desc. sys_step\<^sup>*\<^sup>* (sys_start keyboard_policy) s \<and> sy_conns s 1 = Some (client (lit ''q'') sample_import) \<and>
     sy_conns s 0 = Some (Serving (lit ''p'') desc (AttachGuard sample_busid) sample_nusb
       (urb_start sample_device () \<lparr>rd_bytes = rest, rd_broken = False\<rparr>)) \<and>
     desc_devid desc = od_devid sample_device \<and>
     attach_guard_drop (AttachGuard sample_busid) (sy_table s) = daemon_state_new keyboard_policy"
proof -
  obtain desc c where g: "handle_session sample_session_env (lit ''p'') (sample_conn (sample_import @ rest)) =
      (EnterUrb desc sample_device (AttachGuard sample_busid), c)"
    "cn_reader c = \<lparr>rd_bytes = rest, rd_broken = False\<rparr>" "desc_devid desc = od_devid sample_device"
    "attach_guard_drop (AttachGuard sample_busid) (cn_state c) = daemon_state_new keyboard_policy"
    using sample_granted by blast
  let ?s = "log_events [(0, DeviceOpened sample_device)] (put_conn 0 (Some (Serving (lit ''p'') desc (AttachGuard sample_busid)
    (se_nusb sample_session_env) (urb_start sample_device (se_world sample_session_env) (cn_reader c)))) (cn_state c) (sample_sys rest))"
  have "sys_step\<^sup>*\<^sup>* (sample_sys rest) ?s"
    using g(1) by (intro session_run) (simp_all add: sample_sys_def put_conn_def client_def sample_conn_def)
  from rtranclp_trans [OF sample_accepted this] g(2-4) show ?thesis
    by (intro exI conjI) (assumption, simp_all add: sample_sys_def sample_session_env_def)
qed

text \<open>
  C2: The daemon as a whole keeps devices exclusive and never leaks one. In every reachable state
  of all connections together, two connections that hold a device hold different ones, and the
  attach table lists exactly the devices that some connection is opening or serving, each under the
  label of that connection: once the sessions of a device are over, the device is free.
\<close>

theorem daemon_exclusive:
  assumes "sys_step\<^sup>*\<^sup>* (sys_start policy) s"
  shows "(guards_of s i = Some (AttachGuard b, p) \<and> guards_of s j = Some (AttachGuard b, q) \<longrightarrow> i = j) \<and>
    (ds_attached (sy_table s) b = Some p \<longleftrightarrow> (\<exists>i. guards_of s i = Some (AttachGuard b, p)))"
  using reach_attach_invar [OF assms] unfolding attach_invar_def by (simp add: attach_view_def)

theorem daemon_exclusive_witness:
  "\<exists>s. sys_step\<^sup>*\<^sup>* (sys_start keyboard_policy :: unit daemon_sys) s \<and>
     ds_attached (sy_table s) sample_busid = Some (lit ''p'')"
proof -
  obtain s :: "unit daemon_sys" and desc u where s: "sys_step\<^sup>*\<^sup>* (sys_start keyboard_policy) s"
    "sy_conns s 0 = Some (Serving (lit ''p'') desc (AttachGuard sample_busid) sample_nusb u)"
    using sample_serving [of "[]"] by blast
  have "guards_of s 0 = Some (AttachGuard sample_busid, lit ''p'')" using s(2) by (simp add: guards_of_def)
  with daemon_exclusive [OF s(1), of 0 sample_busid "lit ''p''"] s(1) show ?thesis by blast
qed

text \<open>
  C40: Whatever the other connections do, a connection that is in the URB loop serves the device it
  has reserved in the attach table, under the device id that the loop compares against; the vendor
  and product id it was listed with are permitted by the policy, and at most 256 of its requests
  are in flight.
\<close>

theorem served_devices_permitted:
  assumes "sys_step\<^sup>*\<^sup>* (sys_start policy) s" "sy_conns s i = Some (Serving peer desc guard nb u)"
  shows "od_busid (us_device u) = guard_busid guard \<and> od_devid (us_device u) = desc_devid desc \<and>
    permits policy (ud_vendor_id desc) (ud_product_id desc) \<and> card (dom (us_tasks u)) \<le> 256"
proof -
  have "sys_wf policy s" by (rule sys.invar_reachable [OF refl assms(1)])
  from sys_wf_conn [OF this assms(2)] show ?thesis
    by (auto simp: progress_wf_def session_wf_def permits_balanced_def MAX_INFLIGHT_URBS_def)
qed

theorem served_devices_permitted_witness:
  "\<exists>(s :: unit daemon_sys) desc u. sys_step\<^sup>*\<^sup>* (sys_start keyboard_policy) s \<and>
     sy_conns s 0 = Some (Serving (lit ''p'') desc (AttachGuard sample_busid) sample_nusb u) \<and>
     permits keyboard_policy (ud_vendor_id desc) (ud_product_id desc)"
  using sample_serving [of "[]"] served_devices_permitted by blast

end
