(* ===== verification/Daemon_Devices.thy ===== *)
theory Daemon_Devices
  imports Daemon_System
begin

text \<open>
  What becomes of the devices that the daemon opens, over all connections: the log of opened and
  dropped handles is related to the state, so that every handle is dropped exactly once, and the
  drops that can disturb another client are singled out.
\<close>

section \<open>The log and the state\<close>

text \<open>
  What the log says about the handle of connection \<open>i\<close>: \<^const>\<open>None\<close> if a handle was opened over
  another one, or dropped twice, or a different one dropped; otherwise the handle that is open.
\<close>

fun handle_after :: "opened_device option option \<Rightarrow> device_event \<Rightarrow> opened_device option option" where
  "handle_after (Some None) (DeviceOpened d) = Some (Some d)"
| "handle_after (Some (Some d)) (DeviceDropped d' acts) = (if identity d' = identity d then Some None else None)"
| "handle_after h e = None"

definition handle_of :: "(nat \<times> device_event) list \<Rightarrow> nat \<Rightarrow> opened_device option option" where
  "handle_of log i = foldl handle_after (Some None) (map snd (filter (\<lambda>e. fst e = i) log))"

lemma handle_of_Nil [simp]: "handle_of [] i = Some None"
  by (simp add: handle_of_def)

lemma handle_of_other [simp]: "list_all (\<lambda>e. fst e \<noteq> i) es \<Longrightarrow> handle_of (log @ es) i = handle_of log i"
  by (simp add: handle_of_def filter_empty_conv list_all_iff)

lemma handle_of_snoc [simp]: "handle_of (log @ [(i, e)]) i = handle_after (handle_of log i) e"
  by (simp add: handle_of_def)

lemma handle_of_snoc2 [simp]:
  "handle_of (log @ [(i, e), (i, f)]) i = handle_after (handle_after (handle_of log i) e) f"
  by (simp add: handle_of_def)

text \<open>The URB machine of a connection.\<close>

fun machine_of :: "'w connection option \<Rightarrow> 'w urb_state option" where
  "machine_of (Some (Serving peer desc guard nb u)) = Some u"
| "machine_of (Some (Draining desc nb u)) = Some u"
| "machine_of x = None"

definition handle_matches :: "opened_device option option \<Rightarrow> 'w urb_state option \<Rightarrow> bool" where
  "handle_matches h m \<longleftrightarrow>
     (case m of
        Some u \<Rightarrow> if holds_device u then (\<exists>d. h = Some (Some d) \<and> identity d = identity (us_device u)) else h = Some None
      | None \<Rightarrow> h = Some None)"

definition handles_logged :: "'w daemon_sys \<Rightarrow> bool" where
  "handles_logged s \<longleftrightarrow> (\<forall>i. handle_matches (handle_of (sy_log s) i) (machine_of (sy_conns s i)))"

lemma handles_logged_put:
  assumes "handles_logged s" "list_all (\<lambda>e. fst e = i) es"
    and "handle_matches (handle_of (sy_log s @ es) i) (machine_of x)"
  shows "handles_logged (log_events es (put_conn i x table s))"
  unfolding handles_logged_def
proof
  fix j
  have "list_all (\<lambda>e. fst e \<noteq> j) es" if "j \<noteq> i" using assms(2) that by (auto simp: list_all_iff)
  then show "handle_matches (handle_of (sy_log (log_events es (put_conn i x table s))) j)
      (machine_of (sy_conns (log_events es (put_conn i x table s)) j))"
    using assms(1,3) by (cases "j = i") (auto simp: handles_logged_def)
qed

lemma handles_logged_conn: "handles_logged s \<Longrightarrow> handle_matches (handle_of (sy_log s) i) (machine_of (sy_conns s i))"
  by (simp add: handles_logged_def)

lemma handles_logged_quiet:
  "handles_logged s \<Longrightarrow> machine_of x = machine_of (sy_conns s i) \<Longrightarrow> handles_logged (put_conn i x table s)"
  using handles_logged_put [of s i "[]" x table] handles_logged_conn [of s i] by simp

text \<open>A step of the URB machine keeps the log in line with its state.\<close>

lemma handle_matches_machine:
  assumes "handle_matches (handle_of log i) (Some u)" "urb_step nb devid u u'" "progress_wf u"
  shows "handle_matches (handle_of (log @ device_gone k listed i u u') i) (Some u')"
  using assms released_step [OF assms(2,3)] urb_step_identity [OF assms(2)]
  by (auto simp: handle_matches_def device_gone_holds split: if_splits)

lemma handles_logged_step:
  assumes "sys_wf policy s" "handles_logged s" "sys_step s t"
  shows "handles_logged t"
  using assms(3)
proof (cases rule: sys_step.cases)
  case (Accept i peer r w)
  then show ?thesis by (simp add: handles_logged_quiet [OF assms(2)])
next
  case (Refused i peer r w env res c)
  then show ?thesis by (simp add: handles_logged_quiet [OF assms(2)])
next
  case (Attached i peer r w env busid desc guard c)
  then show ?thesis by (simp add: handles_logged_quiet [OF assms(2)])
next
  case (OpenFailed i peer busid desc guard r w env res c listed)
  show ?thesis unfolding OpenFailed(1) using OpenFailed(2) handles_logged_conn [OF assms(2), of i]
    by (intro handles_logged_put [OF assms(2)])
      (auto simp: handle_matches_def abandoned_def split: option.splits sum.splits)
next
  case (Opened i peer busid desc guard r w env desc' opened guard' c)
  then show ?thesis using handles_logged_conn [OF assms(2), of i]
    by (auto simp: handle_matches_def intro!: handles_logged_put [OF assms(2)])
next
  case (Urb i peer desc guard nb u u' k listed)
  have "handle_matches (handle_of (sy_log s @ device_gone k listed i u u') i) (Some u')"
    using handles_logged_conn [OF assms(2), of i] sys_wf_conn [OF assms(1) Urb(2)] Urb(2)
    by (intro handle_matches_machine [OF _ Urb(3)]) simp_all
  then show ?thesis
    unfolding Urb(1) by (intro handles_logged_put [OF assms(2)]) (simp_all add: device_gone_holds)
next
  case (Finish i peer desc guard nb u e)
  then show ?thesis by (simp add: handles_logged_quiet [OF assms(2)])
next
  case (Drain i desc nb u u' k listed)
  have "handle_matches (handle_of (sy_log s @ device_gone k listed i u u') i) (Some u')"
    using handles_logged_conn [OF assms(2), of i] sys_wf_conn [OF assms(1) Drain(2)] Drain(2)
    by (intro handle_matches_machine [OF _ Drain(3)]) simp_all
  then show ?thesis
    unfolding Drain(1) by (intro handles_logged_put [OF assms(2)]) (simp_all add: device_gone_holds)
next
  case (Gone i desc nb u)
  then have "\<not> holds_device u"
    using stuck_is_quiet [of u nb "desc_devid desc"] sys_wf_conn [OF assms(1) Gone(2)] by (intro holds_device_quiet) simp_all
  with Gone show ?thesis
    using handles_logged_conn [OF assms(2), of i] handles_logged_put [OF assms(2), of i "[]"] by (simp add: handle_matches_def)
qed

interpretation dev: safe_system
  "\<lambda>s. s = sys_start policy" sys_step "\<lambda>s. sys_wf policy s \<and> handles_logged s" for policy
proof unfold_locales
  fix s :: "'a daemon_sys" assume "s = sys_start policy"
  with sys.invar_init [of s policy] show "sys_wf policy s \<and> handles_logged s"
    by (simp add: handles_logged_def handle_matches_def sys_start_def)
next
  fix s t :: "'a daemon_sys" assume "sys_wf policy s \<and> handles_logged s" "sys_step s t"
  then show "sys_wf policy t \<and> handles_logged t" using sys_wf_step handles_logged_step by blast
qed

section \<open>Which connection drops a device\<close>

text \<open>
  A device is dropped under the reservation of its own session, or by a connection that is past its
  URB loop and whose tasks or closures were still using it.
\<close>

lemma dropped_by:
  assumes "sys_wf policy s" "sys_step s t" "sy_log t = sy_log s @ es" "(i, DeviceDropped d acts) \<in> set es"
  shows "(\<exists>p. guards_of s i = Some (AttachGuard (od_busid d), p)) \<or>
    (\<exists>desc nb u e. sy_conns s i = Some (Draining desc nb u) \<and> us_main u = Ended e \<and>
       (us_blocking u \<noteq> {} \<or> (\<exists>n. phase u n = Some Spawned)))"
  using assms(2)
proof (cases rule: sys_step.cases)
  case (OpenFailed i' peer busid desc guard r w env res c listed)
  then have ab: "(i, DeviceDropped d acts) \<in> set (abandoned env listed i' busid)" using assms(3,4) by simp
  then have "i = i'" "snd (open_device (se_host env) busid) = Some (Inr d)"
    by (auto simp: abandoned_def split: option.splits sum.splits)
  moreover from this open_device_captured [of "se_host env" busid d] have "od_busid d = busid" by simp
  ultimately show ?thesis using OpenFailed(2) sys_wf_conn [OF assms(1) OpenFailed(2)]
    by (cases guard) (auto simp: guards_of_def)
next
  case (Urb i' peer desc guard nb u u' k listed)
  then have "i = i'" "d = us_device u'" using assms(3,4) by (auto simp: device_gone_holds split: if_splits)
  then show ?thesis
    using Urb(2) sys_wf_conn [OF assms(1) Urb(2)] urb_step_device [OF Urb(3)] by (cases guard) (auto simp: guards_of_def)
next
  case (Drain i' desc nb u u' k listed)
  then have "i = i'" "holds_device u" using assms(3,4) by (auto simp: device_gone_holds split: if_splits)
  with Drain(2) sys_wf_conn [OF assms(1) Drain(2)] show ?thesis by (auto simp: holds_device_alt)
qed (use assms(3,4) in auto)

section \<open>Properties\<close>

text \<open>
  C9: Every device that is opened is dropped exactly once, and not before its last user is done. In
  every reachable state of the daemon, the log of each connection alternates between opening a
  handle and dropping that handle; a handle is open exactly as long as the read loop has not ended,
  or a closure is on the blocking pool, or a task has not yet started its closure, although the daemon
  itself only counts references; and where there is no connection, none is open, so nothing leaks, on
  the error paths of the import either.
\<close>

theorem device_dropped_once:
  assumes "sys_step\<^sup>*\<^sup>* (sys_start policy) s"
  shows "case machine_of (sy_conns s i) of
      None \<Rightarrow> handle_of (sy_log s) i = Some None
    | Some u \<Rightarrow>
        if (\<forall>e. us_main u \<noteq> Ended e) \<or> us_blocking u \<noteq> {} \<or> (\<exists>n. phase u n = Some Spawned)
        then \<exists>d. handle_of (sy_log s) i = Some (Some d) \<and> identity d = identity (us_device u)
        else handle_of (sy_log s) i = Some None"
proof -
  have wf: "sys_wf policy s" "handles_logged s" using dev.invar_reachable [OF refl assms] by simp_all
  have "progress_wf u" if "machine_of (sy_conns s i) = Some u" for u
    using that sys_wf_conn [OF wf(1), of i] by (cases "sy_conns s i" rule: machine_of.cases) auto
  with handles_logged_conn [OF wf(2), of i] show ?thesis
    by (auto simp: handle_matches_def holds_device_alt split: option.splits if_splits)
qed

text \<open>
  C10: A drop disturbs another client only when a closure has outlived its session. Whenever a step
  of the daemon drops a handle, the connection that drops it either has the device of that busid
  reserved for itself, and then no other connection has, or it is past its URB loop and a task or a
  closure of it was still using the device.
\<close>

theorem foreign_drop_is_late:
  assumes "sys_step\<^sup>*\<^sup>* (sys_start policy) s" "sys_step s t" "sy_log t = sy_log s @ es"
    and "(i, DeviceDropped d acts) \<in> set es"
  shows "(\<exists>p. guards_of s i = Some (AttachGuard (od_busid d), p)) \<and>
      (\<forall>j q. guards_of s j = Some (AttachGuard (od_busid d), q) \<longrightarrow> j = i) \<or>
    (\<exists>desc nb u e. sy_conns s i = Some (Draining desc nb u) \<and> us_main u = Ended e \<and>
      (us_blocking u \<noteq> {} \<or> (\<exists>n. phase u n = Some Spawned)))"
proof -
  have wf: "sys_wf policy s" by (rule sys.invar_reachable [OF refl assms(1)])
  have "j = i" if "guards_of s i = Some (AttachGuard b, p)" "guards_of s j = Some (AttachGuard b, q)" for j b p q
    using reach_attach_invar [OF assms(1)] that unfolding attach_invar_def by (auto simp: attach_view_def)
  with dropped_by [OF wf assms(2-4)] show ?thesis by blast
qed

text \<open>
  C11: A device always comes back. From every reachable state in which a connection serves a
  device, the daemon can go on, by steps of that connection alone, until the connection is gone
  and its entry has left the attach table, with every other connection and entry as it was, and
  with nothing in the log but the drop of the device, if it was still held.
\<close>

theorem served_device_released:
  assumes "sys_step\<^sup>*\<^sup>* (sys_start policy) s" "sy_conns s i = Some (Serving peer desc guard nb u)"
  shows "\<exists>t d. sys_step\<^sup>*\<^sup>* s t \<and> sy_conns t = (sy_conns s)(i := None) \<and>
    ds_attached (sy_table t) = (ds_attached (sy_table s))(guard_busid guard := None) \<and>
    sy_log t = sy_log s @ (if holds_device u then [(i, DeviceDropped d (drop_device k listed d))] else []) \<and>
    identity d = identity (us_device u)"
proof -
  have "sys_wf policy s" by (rule sys.invar_reachable [OF refl assms(1)])
  from sys_wf_conn [OF this assms(2)] have wf: "progress_wf u" by simp
  then obtain v where v: "(urb_step nb (desc_devid desc))\<^sup>*\<^sup>* u v" "\<nexists>v'. urb_step nb (desc_devid desc) v v'"
    "urb_quiet v" using urb.reaches_quiet by blast
  then obtain e where e: "us_main v = Ended e" by (auto simp: urb_quiet_def)
  let ?s2 = "log_events (device_gone k listed i u v) (put_conn i (Some (Draining desc nb v)) (attach_guard_drop guard (sy_table s)) s)"
  let ?s3 = "log_events (device_gone k listed i u v) (put_conn i None (attach_guard_drop guard (sy_table s)) s)"
  have "sys_step\<^sup>*\<^sup>* s ?s2" by (rule finish_run [OF v(1) assms(2) wf e])
  moreover have "sys_step ?s2 ?s3" using Gone [of ?s2 i desc nb v] v(2) by simp
  ultimately have "sys_step\<^sup>*\<^sup>* s ?s3" by (meson rtranclp.rtrancl_into_rtrancl)
  then show ?thesis
    using holds_device_quiet [OF urb.invar_steps [OF v(1) wf] v(3)] urb_steps_identity [OF v(1)]
    by (intro exI [of _ ?s3] exI [of _ "us_device v"]) (simp add: slots.release_holder device_gone_holds)
qed

theorem served_device_released_witness:
  "\<exists>(s :: unit daemon_sys) t. sys_step\<^sup>*\<^sup>* (sys_start keyboard_policy) s \<and> sy_conns s 0 \<noteq> None \<and>
     sys_step\<^sup>*\<^sup>* s t \<and> sy_conns t 0 = None \<and> ds_attached (sy_table t) sample_busid = None"
proof -
  obtain s :: "unit daemon_sys" and desc u where s: "sys_step\<^sup>*\<^sup>* (sys_start keyboard_policy) s"
    "sy_conns s 0 = Some (Serving (lit ''p'') desc (AttachGuard sample_busid) sample_nusb u)"
    using sample_serving [of "[]"] by blast
  from served_device_released [OF s] s show ?thesis by fastforce
qed

text \<open>
  C34: The device can be taken from the next client by the last one. The guard is dropped when the
  URB loop returns, although a blocking closure that was aborted but not stopped still holds the
  device: the next client is let in beside it. When the closure ends, which needs no step of the
  next client, the handle is dropped, and the drop re-enumerates the device at its busid, which is
  the one that the next client is using.
\<close>

theorem late_drop_hits_next_client:
  assumes "sys_step\<^sup>*\<^sup>* (sys_start policy) s" "sy_conns s i = Some (Serving peer desc guard nb u)"
    and "(urb_step nb (desc_devid desc))\<^sup>*\<^sup>* u v" "us_main v = Ended e" "us_blocking v \<noteq> {}"
    and "sy_conns s j = Some (Greeting peer' r w)"
    and "handle_session env peer' \<lparr>cn_reader = r, cn_writer = w,
      cn_state = attach_guard_drop guard (sy_table s)\<rparr> = (EnterUrb desc' opened' guard, c)"
    and "od_captured_registry_id (us_device u) = Some reg"
    and "od_captured_vid_pid (us_device u) = Some (di_vendor_id info, di_product_id info)"
    and "find (\<lambda>i. format_busid i = od_busid opened') infos = Some info"
  shows "\<exists>t t' d. sys_step\<^sup>*\<^sup>* s t \<and> sy_conns t i = Some (Draining desc nb v) \<and>
    sy_conns t j = Some (Serving peer' desc' guard (se_nusb env) (urb_start opened' (se_world env) (cn_reader c))) \<and>
    sys_step\<^sup>*\<^sup>* t t' \<and> sy_conns t' j = sy_conns t j \<and> od_busid d = od_busid opened' \<and>
    sy_log t' = sy_log t @ [(i, DeviceDropped d ([ClearInterfaces, ClearEndpoints, CloseDevice] @
      map IoKit (fst (reenumerate_release k (di_registry_entry_id info)))))]"
proof -
  have ij: "i \<noteq> j" using assms(2,6) by auto
  have wf: "sys_wf policy s" by (rule sys.invar_reachable [OF refl assms(1)])
  from sys_wf_conn [OF wf assms(2)] have u: "progress_wf u" "od_busid (us_device u) = guard_busid guard" by simp_all
  have v: "progress_wf v" by (rule urb.invar_steps [OF assms(3) u(1)])
  have h: "holds_device v" using assms(5) by (simp add: holds_device_alt [OF v])
  let ?t = "log_events [(j, DeviceOpened opened')]
    (put_conn j (Some (Serving peer' desc' guard (se_nusb env) (urb_start opened' (se_world env) (cn_reader c)))) (cn_state c)
      (put_conn i (Some (Draining desc nb v)) (attach_guard_drop guard (sy_table s)) s))"
  have t: "sys_step\<^sup>*\<^sup>* s ?t" by (rule handover_run [OF assms(3,2) u(1) assms(4) h assms(6,7)])
  have "sys_wf policy ?t" by (rule sys.invar_steps [OF t wf])
  from sys_wf_conn [OF this, of j] have b: "od_busid opened' = guard_busid guard" by simp
  obtain v' where v': "(urb_step nb (desc_devid desc))\<^sup>*\<^sup>* v v'" "urb_quiet v'" using urb.reaches_quiet [OF v] by blast
  let ?t' = "log_events (device_gone k (Inr infos) i v v') (put_conn i (Some (Draining desc nb v')) (sy_table ?t) ?t)"
  have t': "sys_step\<^sup>*\<^sup>* ?t ?t'" by (rule drain_run [OF v'(1) _ v]) (use ij in simp)
  have i: "identity (us_device v') = identity (us_device u)"
    using urb_steps_identity [OF assms(3)] urb_steps_identity [OF v'(1)] by simp
  then have "drop_target (us_device v') (Inr infos) = Some (di_registry_entry_id info)"
    using assms(9,10) b u(2) by (simp add: identity_def drop_target_def)
  then have "device_gone k (Inr infos) i v v' = [(i, DeviceDropped (us_device v') ([ClearInterfaces, ClearEndpoints, CloseDevice] @
      map IoKit (fst (reenumerate_release k (di_registry_entry_id info)))))]"
    using i assms(8) h holds_device_quiet [OF urb.invar_steps [OF v'(1) v] v'(2)] by (simp add: identity_def drop_device_def device_gone_holds)
  with t t' ij i b u(2) show ?thesis
    by (intro exI [of _ ?t] exI [of _ ?t'] exI [of _ "us_device v'"]) (simp add: identity_def)
qed

text \<open>A client that submits a control request, unlinks it at once and leaves.\<close>

definition late_submit :: urb_job where
  "late_submit = control_submit\<lparr>jb_basic := (jb_basic control_submit)\<lparr>uh_devid := od_devid sample_device\<rparr>\<rparr>"

definition late_unlink :: urb_header where
  "late_unlink = control_unlink\<lparr>uh_devid := od_devid sample_device\<rparr>"

lemma late_wf:
  "command_wf (od_devid sample_device) (Submit late_submit)"
  "command_wf (od_devid sample_device) (Unlink late_unlink control_unlink_tail)"
  "uh_ep (jb_basic late_submit) = 0" "cu_unlink_seqnum control_unlink_tail = uh_seqnum (jb_basic late_submit)"
  by (simp_all add: late_submit_def late_unlink_def control_submit_def control_unlink_def control_unlink_tail_def
      urb_codes cmd_submit_wf_def dir_in_def)

text \<open>The second client is served while a closure of the first one runs.\<close>

lemma sample_late:
  obtains s :: "unit daemon_sys" and desc desc' u v c where "sys_step\<^sup>*\<^sup>* (sys_start keyboard_policy) s"
    "sy_conns s 0 = Some (Serving (lit ''p'') desc (AttachGuard sample_busid) sample_nusb u)" "us_device u = sample_device"
    "(urb_step sample_nusb (desc_devid desc))\<^sup>*\<^sup>* u v" "us_main v = Ended (Inr ())" "us_blocking v \<noteq> {}"
    "sy_conns s 1 = Some (Greeting (lit ''q'') \<lparr>rd_bytes = sample_import, rd_broken = False\<rparr> \<lparr>wr_sent = [], wr_room = None\<rparr>)"
    "handle_session sample_session_env (lit ''q'') \<lparr>cn_reader = \<lparr>rd_bytes = sample_import, rd_broken = False\<rparr>,
        cn_writer = \<lparr>wr_sent = [], wr_room = None\<rparr>, cn_state = attach_guard_drop (AttachGuard sample_busid) (sy_table s)\<rparr> =
        (EnterUrb desc' sample_device (AttachGuard sample_busid), c)"
proof -
  let ?urbs = "command_encode (Submit late_submit) @ command_encode (Unlink late_unlink control_unlink_tail)"
  let ?u = "urb_start sample_device () \<lparr>rd_bytes = ?urbs, rd_broken = False\<rparr>"
  obtain s :: "unit daemon_sys" and desc where s: "sys_step\<^sup>*\<^sup>* (sys_start keyboard_policy) s"
    "sy_conns s 1 = Some (client (lit ''q'') sample_import)"
    "sy_conns s 0 = Some (Serving (lit ''p'') desc (AttachGuard sample_busid) sample_nusb ?u)"
    "desc_devid desc = od_devid sample_device"
    "attach_guard_drop (AttachGuard sample_busid) (sy_table s) = daemon_state_new keyboard_policy"
    using sample_serving [of ?urbs] by blast
  obtain v0 where v0: "(urb_step sample_nusb (od_devid sample_device))\<^sup>*\<^sup>* ?u v0" "idle 1 [] v0"
    using submit_unlink_round [OF idle_start late_wf, of "\<lparr>rd_bytes = ?urbs, rd_broken = False\<rparr>" "[]"]
    by (fastforce simp del: command_encode.simps)
  obtain v where v: "urb_step sample_nusb (od_devid sample_device) v0 v" "us_main v = Ended (Inr ())" "us_blocking v = {..< 1}"
    using idle_end [OF v0(2), of sample_nusb "od_devid sample_device"] urb_steps_broken [OF v0(1)]
    by (auto simp: urb_start_def)
  obtain desc' c where g: "handle_session sample_session_env (lit ''q'') (sample_conn (sample_import @ [])) =
      (EnterUrb desc' sample_device (AttachGuard sample_busid), c)" using sample_granted by blast
  show thesis
  proof (rule that [OF s(1,3) _ _ v(2)])
    show "(urb_step sample_nusb (desc_devid desc))\<^sup>*\<^sup>* ?u v"
      using v0(1) v(1) unfolding s(4) by (rule rtranclp.rtrancl_into_rtrancl)
    show "us_blocking v \<noteq> {}" unfolding v(3) by auto
    show "sy_conns s 1 = Some (Greeting (lit ''q'') \<lparr>rd_bytes = sample_import, rd_broken = False\<rparr> \<lparr>wr_sent = [], wr_room = None\<rparr>)"
      using s(2) by (simp add: client_def)
    show "handle_session sample_session_env (lit ''q'') \<lparr>cn_reader = \<lparr>rd_bytes = sample_import, rd_broken = False\<rparr>,
        cn_writer = \<lparr>wr_sent = [], wr_room = None\<rparr>, cn_state = attach_guard_drop (AttachGuard sample_busid) (sy_table s)\<rparr> =
        (EnterUrb desc' sample_device (AttachGuard sample_busid), c)"
      using g s(5) by (simp add: sample_conn_def)
  qed simp
qed

theorem device_dropped_once_witness:
  "\<exists>(s :: unit daemon_sys) desc v d. sys_step\<^sup>*\<^sup>* (sys_start keyboard_policy) s \<and>
     sy_conns s 0 = Some (Draining desc sample_nusb v) \<and> us_main v = Ended (Inr ()) \<and> us_blocking v \<noteq> {} \<and>
     handle_of (sy_log s) 0 = Some (Some d) \<and> identity d = identity sample_device"
proof -
  obtain s :: "unit daemon_sys" and desc u v where s: "sys_step\<^sup>*\<^sup>* (sys_start keyboard_policy) s"
    "sy_conns s 0 = Some (Serving (lit ''p'') desc (AttachGuard sample_busid) sample_nusb u)" "us_device u = sample_device"
    and v: "(urb_step sample_nusb (desc_devid desc))\<^sup>*\<^sup>* u v" "us_main v = Ended (Inr ())" "us_blocking v \<noteq> {}"
    by (rule sample_late)
  have wf: "progress_wf u" using sys_wf_conn [OF sys.invar_reachable [OF refl s(1)] s(2)] by simp
  let ?t = "log_events (device_gone witness_iokit (Inr []) 0 u v)
    (put_conn 0 (Some (Draining desc sample_nusb v)) (attach_guard_drop (AttachGuard sample_busid) (sy_table s)) s)"
  have t: "sys_step\<^sup>*\<^sup>* (sys_start keyboard_policy) ?t"
    by (rule rtranclp_trans [OF s(1) finish_run [OF v(1) s(2) wf v(2)]])
  have "identity (us_device v) = identity sample_device" using urb_steps_identity [OF v(1)] s(3) by simp
  with device_dropped_once [OF t, of 0] v(3) have "\<exists>d. handle_of (sy_log ?t) 0 = Some (Some d) \<and> identity d = identity sample_device"
    by simp
  with t v(2,3) show ?thesis by (intro exI [of _ ?t] exI [of _ desc] exI [of _ v]) simp
qed

theorem late_drop_hits_next_client_witness:
  "\<exists>(t :: unit daemon_sys) t' desc desc' v u' d acts. sys_step\<^sup>*\<^sup>* (sys_start keyboard_policy) t \<and>
     sy_conns t 0 = Some (Draining desc sample_nusb v) \<and>
     sy_conns t 1 = Some (Serving (lit ''q'') desc' (AttachGuard sample_busid) sample_nusb u') \<and>
     sys_step\<^sup>*\<^sup>* t t' \<and> sy_conns t' 1 = sy_conns t 1 \<and> sy_log t' = sy_log t @ [(0, DeviceDropped d acts)] \<and>
     IoKit (USBDeviceReEnumerate kUSBReEnumerateReleaseDeviceMask 0) \<in> set acts"
proof -
  obtain s :: "unit daemon_sys" and desc desc' u v c where s: "sys_step\<^sup>*\<^sup>* (sys_start keyboard_policy) s"
    "sy_conns s 0 = Some (Serving (lit ''p'') desc (AttachGuard sample_busid) sample_nusb u)" "us_device u = sample_device"
    and rest: "(urb_step sample_nusb (desc_devid desc))\<^sup>*\<^sup>* u v" "us_main v = Ended (Inr ())" "us_blocking v \<noteq> {}"
    "sy_conns s 1 = Some (Greeting (lit ''q'') \<lparr>rd_bytes = sample_import, rd_broken = False\<rparr> \<lparr>wr_sent = [], wr_room = None\<rparr>)"
    "handle_session sample_session_env (lit ''q'') \<lparr>cn_reader = \<lparr>rd_bytes = sample_import, rd_broken = False\<rparr>,
        cn_writer = \<lparr>wr_sent = [], wr_room = None\<rparr>, cn_state = attach_guard_drop (AttachGuard sample_busid) (sy_table s)\<rparr> =
        (EnterUrb desc' sample_device (AttachGuard sample_busid), c)"
    by (rule sample_late)
  have b: "find (\<lambda>i. format_busid i = od_busid sample_device) [keyboard_info] = Some keyboard_info"
    by (simp add: sample_device_def)
  have f: "od_captured_vid_pid (us_device u) = Some (di_vendor_id keyboard_info, di_product_id keyboard_info)"
    "od_captured_registry_id (us_device u) \<noteq> None"
    by (simp_all add: s(3) sample_device_def keyboard_info_def)
  have "IoKit (USBDeviceReEnumerate kUSBReEnumerateReleaseDeviceMask 0) \<in>
      set ([ClearInterfaces, ClearEndpoints, CloseDevice] @
        map IoKit (fst (reenumerate_release witness_iokit (di_registry_entry_id keyboard_info))))"
    by (simp add: reenumerate_release_def reenumerate_with_options_def reenumerate_held_def witness_iokit_def)
  with late_drop_hits_next_client [OF s(1,2) rest _ f(1) b, of _ witness_iokit] f(2) rtranclp_trans [OF s(1)]
  show ?thesis by (fastforce simp: sample_session_env_def)
qed

theorem foreign_drop_is_late_witness:
  "\<exists>(s :: unit daemon_sys) t d acts q. sys_step\<^sup>*\<^sup>* (sys_start keyboard_policy) s \<and> sys_step s t \<and>
     sy_log t = sy_log s @ [(0, DeviceDropped d acts)] \<and> guards_of s 1 = Some (AttachGuard (od_busid d), q) \<and>
     (\<exists>desc nb u. sy_conns s 0 = Some (Draining desc nb u) \<and> (us_blocking u \<noteq> {} \<or> (\<exists>n. phase u n = Some Spawned)))"
proof -
  obtain s :: "unit daemon_sys" and desc desc' u v c where s: "sys_step\<^sup>*\<^sup>* (sys_start keyboard_policy) s"
    "sy_conns s 0 = Some (Serving (lit ''p'') desc (AttachGuard sample_busid) sample_nusb u)" "us_device u = sample_device"
    and v: "(urb_step sample_nusb (desc_devid desc))\<^sup>*\<^sup>* u v" "us_main v = Ended (Inr ())" "us_blocking v \<noteq> {}"
    and q: "sy_conns s 1 = Some (Greeting (lit ''q'') \<lparr>rd_bytes = sample_import, rd_broken = False\<rparr> \<lparr>wr_sent = [], wr_room = None\<rparr>)"
    "handle_session sample_session_env (lit ''q'') \<lparr>cn_reader = \<lparr>rd_bytes = sample_import, rd_broken = False\<rparr>,
        cn_writer = \<lparr>wr_sent = [], wr_room = None\<rparr>, cn_state = attach_guard_drop (AttachGuard sample_busid) (sy_table s)\<rparr> =
        (EnterUrb desc' sample_device (AttachGuard sample_busid), c)"
    by (rule sample_late)
  have wf: "progress_wf u" using sys_wf_conn [OF sys.invar_reachable [OF refl s(1)] s(2)] by simp
  then have vwf: "progress_wf v" by (rule urb.invar_steps [OF v(1)])
  have h: "holds_device v" using v(3) by (simp add: holds_device_alt [OF vwf])
  obtain x where x: "(urb_step sample_nusb (desc_devid desc))\<^sup>*\<^sup>* v x" "urb_quiet x" using urb.reaches_quiet [OF vwf] by blast
  obtain y y' where y: "(urb_step sample_nusb (desc_devid desc))\<^sup>*\<^sup>* v y" "holds_device y"
    "urb_step sample_nusb (desc_devid desc) y y'" "\<not> holds_device y'"
    by (rule last_reference [OF x(1) h holds_device_quiet [OF urb.invar_steps [OF x(1) vwf] x(2)]])
  let ?t = "log_events [(1, DeviceOpened sample_device)]
    (put_conn 1 (Some (Serving (lit ''q'') desc' (AttachGuard sample_busid) (se_nusb sample_session_env)
      (urb_start sample_device (se_world sample_session_env) (cn_reader c)))) (cn_state c)
      (put_conn 0 (Some (Draining desc sample_nusb v)) (attach_guard_drop (AttachGuard sample_busid) (sy_table s)) s))"
  have t: "sys_step\<^sup>*\<^sup>* s ?t" by (rule handover_run [OF v(1) s(2) wf v(2) h q])
  let ?t1 = "put_conn 0 (Some (Draining desc sample_nusb y)) (sy_table ?t) ?t"
  have "device_gone k l 0 v y = []" for k l using y(2) by (simp add: device_gone_holds)
  with drain_run [OF y(1), of ?t 0 witness_iokit "Inr []"] vwf have t1: "sys_step\<^sup>*\<^sup>* ?t ?t1" by simp
  let ?t2 = "log_events (device_gone witness_iokit (Inr []) 0 y y') (put_conn 0 (Some (Draining desc sample_nusb y')) (sy_table ?t1) ?t1)"
  have t2: "sys_step ?t1 ?t2" by (rule Drain [OF _ y(3)]) simp
  have "identity (us_device y') = identity sample_device"
    using urb_steps_identity [OF v(1)] urb_steps_identity [OF y(1)] urb_step_identity [OF y(3)] s(3) by simp
  then have g: "guards_of ?t1 1 = Some (AttachGuard (od_busid (us_device y')), lit ''q'')"
    by (simp add: guards_of_def identity_def sample_device_def sample_busid_def)
  have l: "sy_log ?t2 = sy_log ?t1 @ [(0, DeviceDropped (us_device y') (drop_device witness_iokit (Inr []) (us_device y')))]"
    using y(2,4) by (simp add: device_gone_holds)
  have r: "sys_step\<^sup>*\<^sup>* (sys_start keyboard_policy) ?t1" by (rule rtranclp_trans [OF rtranclp_trans [OF s(1) t] t1])
  have "guards_of ?t1 0 = None" by (simp add: guards_of_def)
  with foreign_drop_is_late [OF r t2 l, of 0 "us_device y'" "drop_device witness_iokit (Inr []) (us_device y')"]
  have "\<exists>desc nb u. sy_conns ?t1 0 = Some (Draining desc nb u) \<and> (us_blocking u \<noteq> {} \<or> (\<exists>n. phase u n = Some Spawned))"
    by (metis list.set_intros(1) option.distinct(1))
  with r t2 l g show ?thesis by blast
qed

end
