(* ===== verification/Cache_Coherence.thy ===== *)
theory Cache_Coherence
  imports Device_Open
begin

text \<open>
  The endpoint cache is transparent: an endpoint handle that is reused belongs to the interface and
  has the transfer type that resolving the endpoint afresh against the descriptors would give.
  \<^verbatim>\<open>data_transfer\<close> resolves the endpoint on every call and then prefers the cached handle, so this is
  what makes the cache harmless.

  Of the USB stack this needs that the active configuration changes only when a configuration is
  set, and of a configuration that no two interfaces share an endpoint address (chapter 9 of the USB
  specification; alternate settings of one interface may). Without the latter the cache is not
  transparent: the iteration order of the map that resolution builds is drawn anew on every call, and
  with it the interface that is found first.
\<close>

definition config_stable :: "'w nusb \<Rightarrow> bool" where
  "config_stable nb \<longleftrightarrow>
     (\<forall>n w. nb_active_configuration nb (snd (nb_claim_interface nb n w)) = nb_active_configuration nb w) \<and>
     (\<forall>n a w. nb_active_configuration nb (snd (nb_set_alt_setting nb n a w)) = nb_active_configuration nb w) \<and>
     (\<forall>n k e w. nb_active_configuration nb (snd (nb_endpoint nb n k e w)) = nb_active_configuration nb w) \<and>
     (\<forall>e w. nb_active_configuration nb (snd (nb_clear_halt nb e w)) = nb_active_configuration nb w) \<and>
     (\<forall>e n w. nb_active_configuration nb (snd (nb_transfer_in nb e n w)) = nb_active_configuration nb w) \<and>
     (\<forall>e bs w. nb_active_configuration nb (snd (nb_transfer_out nb e bs w)) = nb_active_configuration nb w) \<and>
     (\<forall>e w. nb_active_configuration nb (nb_cancel_all nb e w) = nb_active_configuration nb w) \<and>
     (\<forall>q n w. nb_active_configuration nb (snd (nb_control_in nb q n w)) = nb_active_configuration nb w) \<and>
     (\<forall>q bs w. nb_active_configuration nb (snd (nb_control_out nb q bs w)) = nb_active_configuration nb w) \<and>
     (\<forall>ns w. nb_active_configuration nb (snd (nb_order nb ns w)) = nb_active_configuration nb w)"

definition endpoints_exclusive :: "configuration \<Rightarrow> bool" where
  "endpoints_exclusive cfg \<longleftrightarrow>
     (\<forall>a \<in> set (cfg_alt_settings cfg). \<forall>b \<in> set (cfg_alt_settings cfg).
        fst ` set (as_endpoints a) \<inter> fst ` set (as_endpoints b) \<noteq> {} \<longrightarrow>
        as_interface_number a = as_interface_number b)"

definition stack_contract :: "'w nusb \<Rightarrow> bool" where
  "stack_contract nb \<longleftrightarrow>
     config_stable nb \<and> (\<forall>ns w. set (fst (nb_order nb ns w)) = set ns) \<and>
     (\<forall>w cfg. nb_active_configuration nb w = Some cfg \<longrightarrow> endpoints_exclusive cfg)"

definition coherent :: "'w nusb \<Rightarrow> opened_device \<Rightarrow> 'w \<Rightarrow> bool" where
  "coherent nb d w \<longleftrightarrow>
     (\<forall>ep e. od_endpoints d ep = Some e \<longrightarrow> fst (endpoint_kind nb d w ep) = Inr (ee_iface_num e, ee_kind e))"

section \<open>Resolution depends on little\<close>

lemma find_endpoint_cong:
  "\<forall>n \<in> set ns. active_alt d' cfg n = active_alt d cfg n \<Longrightarrow>
   find_endpoint d' cfg ep ns = find_endpoint d cfg ep ns"
  by (induction ns) (simp_all split: option.split)

lemma active_alt_member:
  "active_alt d cfg n = Some x \<Longrightarrow> x \<in> set (cfg_alt_settings cfg) \<and> as_interface_number x = n"
proof -
  let ?alts = "filter (\<lambda>a. as_interface_number a = n) (cfg_alt_settings cfg)"
  assume "active_alt d cfg n = Some x"
  then have "find (\<lambda>a. as_alternate_setting a = (case od_alt_settings d n of Some a \<Rightarrow> a | None \<Rightarrow> 0)) ?alts = Some x
      \<or> (\<exists>ys. ?alts = x # ys)"
    unfolding active_alt_def Let_def by (auto split: option.splits list.splits)
  then have "x \<in> set ?alts" using find_SomeD by (metis list.set_intros(1))
  then show ?thesis by simp
qed

lemma serves_exclusive:
  assumes "endpoints_exclusive cfg" "serves d cfg ep m" "serves d' cfg ep n"
  shows "m = n"
proof -
  obtain x where x: "active_alt d cfg m = Some x" "ep \<in> fst ` set (as_endpoints x)"
    using assms(2) by (cases "active_alt d cfg m") (simp_all add: serves_def)
  obtain y where y: "active_alt d' cfg n = Some y" "ep \<in> fst ` set (as_endpoints y)"
    using assms(3) by (cases "active_alt d' cfg n") (simp_all add: serves_def)
  from active_alt_member [OF x(1)] active_alt_member [OF y(1)] x(2) y(2) assms(1)
  show ?thesis unfolding endpoints_exclusive_def by blast
qed

lemma find_endpoint_found:
  "find_endpoint d cfg ep ns = Inr (m, k) \<Longrightarrow>
   m \<in> set ns \<and> serves d cfg ep m \<and> find_endpoint d cfg ep [m] = Inr (m, k)"
proof (induction ns)
  case (Cons n ns)
  show ?case
  proof (cases "serves d cfg ep n")
    case True
    with Cons.prems have f: "find_endpoint d cfg ep [n] = Inr (m, k)"
      using find_endpoint_Cons [of d cfg ep n ns] by (simp only: if_True)
    then have "m = n" by (auto split: option.splits prod.splits transfer_type.splits)
    with True f show ?thesis by (simp only: list.set_intros)
  next
    case False
    with Cons.prems have "find_endpoint d cfg ep ns = Inr (m, k)"
      using find_endpoint_Cons [of d cfg ep n ns] by (simp only: if_False)
    with Cons.IH show ?thesis by auto
  qed
qed simp

lemma endpoint_kind_alts:
  assumes "od_alt_settings d' = od_alt_settings d"
  shows "endpoint_kind nb d' w ep = endpoint_kind nb d w ep"
  using assms by (auto simp: endpoint_kind_def active_alt_def intro!: find_endpoint_cong split: option.split prod.split)

text \<open>Neither the order that is drawn nor the rest of the stack's state matters.\<close>

lemma endpoint_kind_cong:
  assumes "stack_contract nb" "od_alt_settings d' = od_alt_settings d"
    and "nb_active_configuration nb w' = nb_active_configuration nb w"
  shows "fst (endpoint_kind nb d' w' ep) = fst (endpoint_kind nb d w ep)"
proof (cases "nb_active_configuration nb w")
  case None
  with assms(3) show ?thesis by (simp add: endpoint_kind_def)
next
  case (Some cfg)
  have ex: "endpoints_exclusive cfg" using Some assms(1) by (simp add: stack_contract_def)
  have "fst (endpoint_kind nb d w' ep) = fst (endpoint_kind nb d w ep)"
    using Some assms(1,3) serves_exclusive [OF ex]
    by (intro endpoint_kind_order_independent) (simp_all add: stack_contract_def)
  then show ?thesis by (simp add: endpoint_kind_alts [OF assms(2)])
qed

lemma coherent_cong:
  assumes "stack_contract nb" "coherent nb d w" "od_alt_settings d' = od_alt_settings d"
    and "nb_active_configuration nb w' = nb_active_configuration nb w"
    and "\<And>ep e. od_endpoints d' ep = Some e \<Longrightarrow> od_endpoints d ep = Some e \<or>
           fst (endpoint_kind nb d w ep) = Inr (ee_iface_num e, ee_kind e)"
  shows "coherent nb d' w'"
  using assms(2,5) endpoint_kind_cong [OF assms(1,3,4)] unfolding coherent_def by metis

lemma endpoint_kind_config:
  "config_stable nb \<Longrightarrow> endpoint_kind nb d w ep = (r, w') \<Longrightarrow>
   nb_active_configuration nb w' = nb_active_configuration nb w"
  by (auto simp: endpoint_kind_def config_stable_def split: option.splits prod.splits) (metis snd_conv)

text \<open>Switching the setting of another interface does not change where an endpoint is found.\<close>

lemma endpoint_kind_other_interface:
  assumes c: "stack_contract nb" and k: "fst (endpoint_kind nb d w ep) = Inr (m, k)"
    and d': "\<And>n. n \<noteq> i \<Longrightarrow> od_alt_settings d' n = od_alt_settings d n" and m: "m \<noteq> i"
    and w': "nb_active_configuration nb w' = nb_active_configuration nb w"
  shows "fst (endpoint_kind nb d' w' ep) = Inr (m, k)"
proof -
  obtain cfg where cfg: "nb_active_configuration nb w = Some cfg"
    using k by (cases "nb_active_configuration nb w") (simp_all add: endpoint_kind_def)
  define ns where "ns = fst (nb_order nb (remdups (map as_interface_number (cfg_alt_settings cfg))) w')"
  have "fst (endpoint_kind nb d w' ep) = Inr (m, k)" using endpoint_kind_cong [OF c refl w'] k by simp
  then have f: "find_endpoint d cfg ep ns = Inr (m, k)" using cfg w' by (simp add: endpoint_kind_def ns_def split_beta)
  note found = find_endpoint_found [OF f]
  have alt: "active_alt d' cfg m = active_alt d cfg m" using d' [OF m] by (rule active_alt_cong)
  then have s': "serves d' cfg ep m" using found by (simp add: serves_def)
  have ex: "endpoints_exclusive cfg" using c cfg by (simp add: stack_contract_def)
  have "find_endpoint d' cfg ep ns = find_endpoint d' cfg ep [m]"
    using found s' serves_exclusive [OF ex _ s'] by (intro find_endpoint_owner) blast+
  also have "\<dots> = find_endpoint d cfg ep [m]" by (rule find_endpoint_cong) (simp add: alt)
  finally show ?thesis using found w' cfg by (simp add: endpoint_kind_def ns_def split_beta)
qed

section \<open>Every operation keeps the cache coherent\<close>

lemma ensure_interface_config:
  assumes "config_stable nb" "ensure_interface nb n (d, w) = (r, d', w')"
  shows "nb_active_configuration nb w' = nb_active_configuration nb w"
proof (cases "n \<in> od_interfaces d")
  case False
  obtain r1 w1 where 1: "nb_claim_interface nb n w = (r1, w1)" by fastforce
  obtain r2 w2 where 2: "nb_set_alt_setting nb n 0 w1 = (r2, w2)" by fastforce
  have "nb_active_configuration nb w1 = nb_active_configuration nb w"
    "nb_active_configuration nb w2 = nb_active_configuration nb w1"
    using assms(1) 1 2 unfolding config_stable_def by (metis snd_conv)+
  with assms(2) False 1 2 show ?thesis by (auto simp: ensure_interface_def split: sum.splits)
qed (use assms(2) in \<open>simp add: ensure_interface_def\<close>)

lemma ensure_endpoint_coherent:
  assumes sc: "stack_contract nb" and "coherent nb d w" "fst (endpoint_kind nb d w ep) = Inr k"
    and e: "ensure_endpoint nb ep k (d, w) = (r, d', w')"
  shows "coherent nb d' w' \<and> od_alt_settings d' = od_alt_settings d \<and>
    nb_active_configuration nb w' = nb_active_configuration nb w"
proof (cases "od_endpoints d ep")
  case (Some x)
  with e assms(2) show ?thesis by (simp add: ensure_endpoint_def)
next
  case None
  have st: "config_stable nb" using sc by (simp add: stack_contract_def)
  obtain r1 d1 w1 where i: "ensure_interface nb (fst k) (d, w) = (r1, d1, w1)"
    by (cases "ensure_interface nb (fst k) (d, w)") auto
  obtain r2 w2 where 2: "nb_endpoint nb (fst k) (snd k) ep w1 = (r2, w2)" by fastforce
  obtain r3 w3 where 3: "nb_clear_halt nb ep w2 = (r3, w3)" by fastforce
  have c: "nb_active_configuration nb w1 = nb_active_configuration nb w"
    "nb_active_configuration nb w2 = nb_active_configuration nb w1"
    "nb_active_configuration nb w3 = nb_active_configuration nb w2"
    using ensure_interface_config [OF st i] st 2 3 unfolding config_stable_def
    by (metis snd_conv)+
  note fr = ensure_interface_frame [OF i]
  have out: "(d' = d1 \<and> (w' = w1 \<or> w' = w2)) \<or>
      (d' = d1\<lparr>od_endpoints := (od_endpoints d1)(ep \<mapsto> \<lparr>ee_iface_num = fst k, ee_kind = snd k\<rparr>)\<rparr> \<and> w' = w3)"
    using e None i 2 3 by (auto simp: ensure_endpoint_def Let_def split: sum.splits)
  then have alt: "od_alt_settings d' = od_alt_settings d" and cfg: "nb_active_configuration nb w' = nb_active_configuration nb w"
    using fr c by auto
  moreover have "coherent nb d' w'"
    using out fr assms(3) by (intro coherent_cong [OF sc assms(2) alt cfg]) (auto split: if_splits)
  ultimately show ?thesis by blast
qed

lemma data_transfer_coherent:
  assumes sc: "stack_contract nb" and "coherent nb d w" "data_transfer nb ep len data (d, w) = (r, d', w')"
  shows "coherent nb d' w'"
proof (cases "endpoint_kind nb d w ep" rule: resolved_cases)
  case (Failed e w0)
  with assms endpoint_kind_config [OF _ Failed] show ?thesis
    by (auto simp: data_transfer_def stack_contract_def intro: coherent_cong [OF sc assms(2)])
next
  case (Found k w0)
  have st: "config_stable nb" using sc by (simp add: stack_contract_def)
  note w0 = endpoint_kind_config [OF st Found]
  obtain r1 d1 w1 where e: "ensure_endpoint nb ep k (d, w0) = (r1, d1, w1)"
    by (cases "ensure_endpoint nb ep k (d, w0)") auto
  have "coherent nb d w0" "fst (endpoint_kind nb d w0 ep) = Inr k"
    using coherent_cong [OF sc assms(2) refl w0] endpoint_kind_cong [OF sc refl w0] Found by auto
  note e1 = ensure_endpoint_coherent [OF sc this e]
  have cfg: "nb_active_configuration nb (snd (nb_transfer_in nb ep n w1)) = nb_active_configuration nb w1"
    "nb_active_configuration nb (snd (nb_transfer_out nb ep data w1)) = nb_active_configuration nb w1" for n
    using st by (simp_all add: config_stable_def)
  have "d' = d1 \<and> nb_active_configuration nb w' = nb_active_configuration nb w1"
    using assms(3) Found e cfg
    by (auto simp: data_transfer_def Let_def split: sum.splits prod.splits if_splits) (metis snd_conv)+
  then show ?thesis using e1 by (auto intro: coherent_cong [OF sc])
qed

lemma set_interface_coherent:
  assumes c: "stack_contract nb" and co: "coherent nb d w" and si: "is_set_interface setup"
    and t: "control_transfer nb setup data (d, w) = (r, d', w')"
  shows "coherent nb d' w'"
proof -
  define n where "n = (ucast (w_index setup AND 0xFF) :: u8)"
  define a where "a = (ucast (w_value setup AND 0xFF) :: u8)"
  have st: "config_stable nb" using c by (simp add: stack_contract_def)
  have nc: "\<not> is_set_configuration setup"
    using si by (auto simp: is_set_configuration_def is_set_interface_def)
  obtain r1 d2 w1 where i: "ensure_interface nb n (invalidate_interface_endpoints n d, w) = (r1, d2, w1)"
    by (cases "ensure_interface nb n (invalidate_interface_endpoints n d, w)") auto
  obtain r2 w2 where s: "nb_set_alt_setting nb n a w1 = (r2, w2)" by fastforce
  have "nb_active_configuration nb w1 = nb_active_configuration nb w"
    "nb_active_configuration nb w2 = nb_active_configuration nb w1"
    using ensure_interface_config [OF st i] st s unfolding config_stable_def by (metis snd_conv)+
  moreover have "w' = w1 \<or> w' = w2"
    using t si nc i s unfolding n_def [symmetric] a_def [symmetric]
    by (auto simp: control_transfer_def Let_def n_def a_def split: sum.splits)
  ultimately have cfg: "nb_active_configuration nb w' = nb_active_configuration nb w" by auto
  have d': "d' = d2 \<or> d' = d2\<lparr>od_alt_settings := (od_alt_settings d2)(n \<mapsto> a)\<rparr>"
    using control_transfer_set_interface [OF si t n_def a_def] i by (metis prod.inject)
  have fr: "od_endpoints d2 = od_endpoints (invalidate_interface_endpoints n d)"
    "od_alt_settings d2 = od_alt_settings d"
    using ensure_interface_frame [OF i] by (simp_all add: invalidate_interface_endpoints_def)
  have alt: "od_alt_settings d' m = od_alt_settings d m" if "m \<noteq> n" for m using d' fr that by auto
  show ?thesis
    unfolding coherent_def
  proof (intro allI impI)
    fix ep e assume "od_endpoints d' ep = Some e"
    then have e: "od_endpoints d ep = Some e" "ee_iface_num e \<noteq> n"
      using d' fr invalidate_endpoints [of n d ep e] by auto
    from e(1) co have "fst (endpoint_kind nb d w ep) = Inr (ee_iface_num e, ee_kind e)" by (simp add: coherent_def)
    then show "fst (endpoint_kind nb d' w' ep) = Inr (ee_iface_num e, ee_kind e)"
      by (rule endpoint_kind_other_interface [OF c _ alt e(2) cfg])
  qed
qed

lemma control_transfer_coherent:
  assumes "stack_contract nb" "coherent nb d w" "control_transfer nb setup data (d, w) = (r, d', w')"
  shows "coherent nb d' w'"
proof -
  consider "is_set_configuration setup" | "is_set_interface setup"
    | "\<not> is_set_configuration setup" "\<not> is_set_interface setup" by blast
  then show ?thesis
  proof cases
    case 1
    with assms(3) have "od_endpoints d' = Map.empty" using control_transfer_set_configuration by fastforce
    then show ?thesis by (simp add: coherent_def)
  next
    case 2
    show ?thesis by (rule set_interface_coherent [OF assms(1,2) 2 assms(3)])
  next
    case 3
    have st: "config_stable nb" using assms(1) by (simp add: stack_contract_def)
    have cfg: "nb_active_configuration nb (snd (nb_control_in nb q n w)) = nb_active_configuration nb w"
      "nb_active_configuration nb (snd (nb_control_out nb q data w)) = nb_active_configuration nb w" for q n
      using st by (simp_all add: config_stable_def)
    have "nb_active_configuration nb w' = nb_active_configuration nb w"
      using assms(3) 3 cfg
      by (auto simp: control_transfer_def Let_def split: sum.splits prod.splits if_splits) (metis snd_conv)+
    moreover have "d' = d" using control_transfer_passthrough [OF 3 assms(3)] .
    ultimately show ?thesis using assms(2) by (auto intro: coherent_cong [OF assms(1)])
  qed
qed

lemma cancel_endpoint_coherent:
  assumes "stack_contract nb" "coherent nb d w" "cancel_endpoint nb ep (d, w) = (d', w')"
  shows "coherent nb d' w'"
proof -
  have "nb_active_configuration nb (nb_cancel_all nb ep w) = nb_active_configuration nb w"
    using assms(1) by (simp add: stack_contract_def config_stable_def)
  then have "d' = d" "nb_active_configuration nb w' = nb_active_configuration nb w"
    using assms(3) by (auto simp: cancel_endpoint_def split: option.splits)
  then show ?thesis using assms(2) by (auto intro: coherent_cong [OF assms(1)])
qed

interpretation coh: safe_system
  "\<lambda>(d, w). fresh_caches d \<and> stack_contract nb" "device_step nb"
  "\<lambda>(d, w). coherent nb d w \<and> stack_contract nb" for nb
proof unfold_locales
  fix s :: "opened_device \<times> 'a"
  assume "case s of (d, w) \<Rightarrow> fresh_caches d \<and> stack_contract nb"
  then show "case s of (d, w) \<Rightarrow> coherent nb d w \<and> stack_contract nb"
    by (auto simp: fresh_caches_def coherent_def)
next
  fix s t :: "opened_device \<times> 'a"
  assume inv: "case s of (d, w) \<Rightarrow> coherent nb d w \<and> stack_contract nb" and step: "device_step nb s t"
  obtain d w d' w' where st: "s = (d, w)" "t = (d', w')" by (cases s; cases t)
  from step inv show "case t of (d, w) \<Rightarrow> coherent nb d w \<and> stack_contract nb"
    unfolding st by (auto elim!: device_stepE
        intro: data_transfer_coherent control_transfer_coherent cancel_endpoint_coherent)
qed

section \<open>Properties\<close>

lemma ensure_endpoint_entry:
  assumes "coherent nb d w" "endpoint_kind nb d w ep = (Inr k, w0)" "ensure_endpoint nb ep k (d, w0) = (Inr entry, d', w')"
  shows "entry = \<lparr>ee_iface_num = fst k, ee_kind = snd k\<rparr>"
proof (cases "od_endpoints d ep")
  case (Some e)
  then have "entry = e" "k = (ee_iface_num e, ee_kind e)"
    using assms unfolding coherent_def by (force simp: ensure_endpoint_def)+
  then show ?thesis by simp
next
  case None
  with assms(3) show ?thesis
    by (auto simp: ensure_endpoint_def Let_def split: prod.splits sum.splits)
qed

text \<open>
  C20: The endpoint cache is transparent. On a device that was opened and used through any sequence
  of transfers and cancellations, every cached endpoint still resolves, whatever iteration order the
  resolution draws, to the interface and the transfer type under which it is cached; so the handle that a transfer uses is always of the
  interface and type that the current descriptors and alternate settings prescribe, whether it is
  opened for this transfer or was cached by an earlier one.
\<close>

theorem endpoint_cache_transparent:
  assumes "stack_contract nb" "snd (open_device env busid) = Some (Inr d)"
    and "(device_step nb)\<^sup>*\<^sup>* (d, w) (d', w')"
  shows "(od_endpoints d' ep = Some e \<longrightarrow>
       (\<forall>w1. nb_active_configuration nb w1 = nb_active_configuration nb w' \<longrightarrow>
          fst (endpoint_kind nb d' w1 ep) = Inr (ee_iface_num e, ee_kind e))) \<and>
    (endpoint_kind nb d' w' ep = (Inr k, w1) \<and> ensure_endpoint nb ep k (d', w1) = (Inr entry, d'', w'') \<longrightarrow>
       entry = \<lparr>ee_iface_num = fst k, ee_kind = snd k\<rparr>)"
proof -
  have "fresh_caches d" using open_device_captured [OF assms(2)] by simp
  then have co: "coherent nb d' w'"
    using coh.invar_reachable [OF _ assms(3)] assms(1) by auto
  have "fst (endpoint_kind nb d' w1 ep) = Inr (ee_iface_num e, ee_kind e)"
    if "od_endpoints d' ep = Some e" "nb_active_configuration nb w1 = nb_active_configuration nb w'" for w1
    using that(1) co endpoint_kind_cong [OF assms(1) refl that(2)] by (simp add: coherent_def)
  then show ?thesis using ensure_endpoint_entry [OF co] by blast
qed

lemma sample_stack_contract: "stack_contract sample_nusb"
  by (simp add: stack_contract_def config_stable_def endpoints_exclusive_def sample_nusb_def
      sample_configuration_def)

theorem endpoint_cache_transparent_witness:
  "\<exists>d'. (device_step sample_nusb)\<^sup>*\<^sup>* (sample_device, ()) (d', ()) \<and>
     od_endpoints d' 0x82 = Some \<lparr>ee_iface_num = 1, ee_kind = Bulk\<rparr> \<and> od_alt_settings d' 0 = Some 1 \<and>
     fst (endpoint_kind sample_nusb d' () 0x82) = Inr (1, Bulk)"
proof -
  let ?d1 = "sample_device\<lparr>od_interfaces := {0}, od_alt_settings := [0 \<mapsto> 1]\<rparr>"
  let ?d2 = "?d1\<lparr>od_interfaces := {1, 0}, od_endpoints := [0x82 \<mapsto> \<lparr>ee_iface_num = 1, ee_kind = Bulk\<rparr>]\<rparr>"
  have "device_step sample_nusb (sample_device, ()) (?d1, ())"
    by (rule Control [OF sample_set_interface_transfer])
  moreover have "\<exists>r. data_transfer sample_nusb 0x82 0 [] (?d1, ()) = (r, ?d2, ())"
    by (simp add: data_transfer_def endpoint_kind_def active_alt_def ensure_endpoint_def ensure_interface_def
        sample_nusb_def sample_configuration_def sample_device_def padded_len_def dir_in_of_def Let_def)
  then have "device_step sample_nusb (?d1, ()) (?d2, ())" using Data by blast
  ultimately have run: "(device_step sample_nusb)\<^sup>*\<^sup>* (sample_device, ()) (?d2, ())" by simp
  from endpoint_cache_transparent [OF sample_stack_contract sample_open run, of "0x82" "\<lparr>ee_iface_num = 1, ee_kind = Bulk\<rparr>"]
  have "fst (endpoint_kind sample_nusb ?d2 () 0x82) = Inr (1, Bulk)" by simp
  with run show ?thesis by (intro exI [of _ ?d2]) simp
qed

end
