(* ===== verification/Device_Threads.thy ===== *)
theory Device_Threads
  imports Cache_Coherence
begin

text \<open>
  An opened device under concurrency (\<^verbatim>\<open>host-mac/src/lib.rs\<close>, \<^verbatim>\<open>control_transfer\<close>, \<^verbatim>\<open>data_transfer\<close>,
  \<^verbatim>\<open>cancel_endpoint\<close> and the functions they call). The daemon runs each submit of a connection on a
  thread of its own, and the methods take \<^verbatim>\<open>&self\<close>: the interface map, the map of alternate settings
  and the endpoint cache have a lock each, and every cached endpoint is an \<^verbatim>\<open>Arc\<close> of its own mutex.

  A thread steps from one critical section or call into the USB stack to the next. The three locks
  around the maps are released before anything else is acquired, so a critical section is one step;
  the mutex of an endpoint is held across the blocking transfer and is part of the state. Lock
  poisoning is left out: no step fails while it holds a lock.
\<close>

section \<open>State\<close>

text \<open>An endpoint that has been opened: its address and what the cache entry says of it.\<close>

record endpoint_handle =
  eh_addr :: u8
  eh_entry :: endpoint_entry

text \<open>
  The shared part of the device. \<open>sh_base\<close> holds the immutable fields; a cached endpoint is an index
  into the endpoints ever opened, which is what an \<^verbatim>\<open>Arc\<close> is to the threads that cloned it.
\<close>

record 'w shared =
  sh_base :: opened_device
  sh_interfaces :: "u8 set"
  sh_alts :: "u8 \<rightharpoonup> u8"
  sh_cache :: "u8 \<rightharpoonup> nat"
  sh_handles :: "endpoint_handle list"
  sh_holder :: "nat \<rightharpoonup> nat"
  sh_world :: 'w

text \<open>The device as its atomic model sees it.\<close>

definition view :: "'w shared \<Rightarrow> opened_device" where
  "view s = (sh_base s)\<lparr>od_interfaces := sh_interfaces s, od_alt_settings := sh_alts s,
     od_endpoints := (\<lambda>ep. map_option (\<lambda>h. eh_entry (sh_handles s ! h)) (sh_cache s ep))\<rparr>"

datatype dev_op =
    OpData u8 nat bytes
  | OpControl setup_packet bytes
  | OpCancel u8

datatype op_result =
    GotData "host_error + transfer_result"
  | GotControl "host_error + bytes"
  | CancelDone

text \<open>What continues after \<^verbatim>\<open>ensure_interface\<close>: opening an endpoint, or selecting an alternate setting.\<close>

datatype cont =
    ForEndpoint u8 nat bytes ep_kind
  | ForAlt u8

datatype pc =
    Begin dev_op
  | Config u8 nat bytes "configuration option"
  | Kind u8 nat bytes u8 ep_kind
  | Iface u8 cont
  | Claim u8 cont
  | Alt0 u8 cont
  | KeepIface u8 cont
  | HaveIface u8 cont
  | Halt u8 nat bytes u8 ep_kind
  | KeepEp u8 nat bytes u8 ep_kind
  | WaitEp u8 nat bytes nat
  | InTransfer u8 nat bytes nat
  | ClearIfaces u8
  | ClearAlts u8
  | SetConfig u8
  | RecordAlt u8 u8
  | WaitCancel u8 nat
  | Finished op_result

fun give_up :: "cont \<Rightarrow> host_error \<Rightarrow> pc" where
  "give_up (ForEndpoint ep len data k) e = Finished (GotData (Inl e))"
| "give_up (ForAlt alt) e = Finished (GotControl (Inl e))"

section \<open>Steps of a thread\<close>

text \<open>The blocking transfer with the padding of its buffer, as \<^verbatim>\<open>data_transfer\<close> ends.\<close>

definition complete_transfer ::
  "'w nusb \<Rightarrow> u8 \<Rightarrow> nat \<Rightarrow> bytes \<Rightarrow> 'w \<Rightarrow> (host_error + transfer_result) \<times> 'w" where
  "complete_transfer nb ep len out_data w =
     (let dir_in = dir_in_of ep;
          mps = nb_max_packet_size nb ep w;
          (compl, w2) =
            (if dir_in then nb_transfer_in nb ep (padded_len dir_in mps len) w
             else nb_transfer_out nb ep out_data w)
      in (case into_result compl of
            Inl e \<Rightarrow> (Inl (Transfer e), w2)
          | Inr data \<Rightarrow>
              (Inr (if dir_in then
                      let usable = min (actual_len compl) len
                      in \<lparr>tr_actual_length = usable, tr_data = take usable data\<rparr>
                    else \<lparr>tr_actual_length = actual_len compl, tr_data = []\<rparr>), w2)))"

text \<open>A control request that is not intercepted, which is one call into the stack.\<close>

definition plain_control :: "'w nusb \<Rightarrow> setup_packet \<Rightarrow> bytes \<Rightarrow> 'w \<Rightarrow> (host_error + bytes) \<times> 'w" where
  "plain_control nb setup out_data w =
     (let req = \<lparr>cr_type = setup_control_type setup, cr_recipient = setup_recipient setup,
                 cr_request = b_request setup, cr_value = w_value setup, cr_index = w_index setup\<rparr>
      in if setup_is_in setup then
           (case nb_control_in nb req (w_length setup) w of
              (Inl e, w1) \<Rightarrow> (Inl (Transfer e), w1)
            | (Inr data, w1) \<Rightarrow> (Inr data, w1))
         else
           (case nb_control_out nb req out_data w of
              (Inl e, w1) \<Rightarrow> (Inl (Transfer e), w1)
            | (Inr _, w1) \<Rightarrow> (Inr [], w1)))"

text \<open>\<^verbatim>\<open>retain\<close> under the write lock of the cache.\<close>

definition retain_others :: "u8 \<Rightarrow> 'w shared \<Rightarrow> 'w shared" where
  "retain_others iface_num s =
     s\<lparr>sh_cache := (\<lambda>ep. case sh_cache s ep of
          Some h \<Rightarrow> if ee_iface_num (eh_entry (sh_handles s ! h)) \<noteq> iface_num then Some h else None
        | None \<Rightarrow> None)\<rparr>"

text \<open>\<^verbatim>\<open>entry(ep_addr).or_insert(..)\<close> under the write lock: the handle in the cache afterwards.\<close>

definition insert_endpoint :: "u8 \<Rightarrow> u8 \<Rightarrow> ep_kind \<Rightarrow> 'w shared \<Rightarrow> nat \<times> 'w shared" where
  "insert_endpoint ep n k s =
     (case sh_cache s ep of
        Some h \<Rightarrow> (h, s)
      | None \<Rightarrow>
          let h = length (sh_handles s)
          in (h, s\<lparr>sh_handles := sh_handles s @ [\<lparr>eh_addr = ep, eh_entry = \<lparr>ee_iface_num = n, ee_kind = k\<rparr>\<rparr>],
                   sh_cache := (sh_cache s)(ep \<mapsto> h)\<rparr>))"

text \<open>
  One step of thread \<open>t\<close>; \<^const>\<open>None\<close> if it is finished or waits for a mutex.
\<close>

fun thread_step :: "'w nusb \<Rightarrow> nat \<Rightarrow> pc \<Rightarrow> 'w shared \<Rightarrow> (pc \<times> 'w shared) option" where
  "thread_step nb t (Begin (OpData ep len data)) s =
     Some (Config ep len data (nb_active_configuration nb (sh_world s)), s)"
| "thread_step nb t (Begin (OpControl setup data)) s =
     (if is_set_configuration setup then
        Some (ClearIfaces (ucast (w_value setup AND 0xFF)), s\<lparr>sh_cache := Map.empty\<rparr>)
      else if is_set_interface setup then
        let n = ucast (w_index setup AND 0xFF)
        in Some (Iface n (ForAlt (ucast (w_value setup AND 0xFF))), retain_others n s)
      else
        (case plain_control nb setup data (sh_world s) of
           (r, w) \<Rightarrow> Some (Finished (GotControl r), s\<lparr>sh_world := w\<rparr>)))"
| "thread_step nb t (Begin (OpCancel ep)) s =
     Some (case sh_cache s ep of None \<Rightarrow> Finished CancelDone | Some h \<Rightarrow> WaitCancel ep h, s)"
| "thread_step nb t (Config ep len data cfg) s =
     (case cfg of
        None \<Rightarrow> Some (Finished (GotData (Inl (EndpointNotFound ep))), s)
      | Some cfg \<Rightarrow>
          (case nb_order nb (remdups (map as_interface_number (cfg_alt_settings cfg))) (sh_world s) of
             (by_iface, w) \<Rightarrow>
               Some (case find_endpoint (view s) cfg ep by_iface of
                   Inl e \<Rightarrow> Finished (GotData (Inl e))
                 | Inr (n, k) \<Rightarrow> Kind ep len data n k, s\<lparr>sh_world := w\<rparr>)))"
| "thread_step nb t (Kind ep len data n k) s =
     Some (case sh_cache s ep of
         Some h \<Rightarrow> WaitEp ep len data h
       | None \<Rightarrow> Iface n (ForEndpoint ep len data k), s)"
| "thread_step nb t (Iface n c) s =
     Some (if n \<in> sh_interfaces s then HaveIface n c else Claim n c, s)"
| "thread_step nb t (Claim n c) s =
     (case nb_claim_interface nb n (sh_world s) of
        (Inl e, w) \<Rightarrow> Some (give_up c (Nusb e), s\<lparr>sh_world := w\<rparr>)
      | (Inr _, w) \<Rightarrow> Some (Alt0 n c, s\<lparr>sh_world := w\<rparr>))"
| "thread_step nb t (Alt0 n c) s =
     Some (KeepIface n c, s\<lparr>sh_world := snd (nb_set_alt_setting nb n 0 (sh_world s))\<rparr>)"
| "thread_step nb t (KeepIface n c) s =
     Some (HaveIface n c, s\<lparr>sh_interfaces := insert n (sh_interfaces s)\<rparr>)"
| "thread_step nb t (HaveIface n (ForEndpoint ep len data k)) s =
     (case nb_endpoint nb n k ep (sh_world s) of
        (Inl e, w) \<Rightarrow> Some (Finished (GotData (Inl (Nusb e))), s\<lparr>sh_world := w\<rparr>)
      | (Inr _, w) \<Rightarrow> Some (Halt ep len data n k, s\<lparr>sh_world := w\<rparr>))"
| "thread_step nb t (HaveIface n (ForAlt alt)) s =
     (case nb_set_alt_setting nb n alt (sh_world s) of
        (Inl e, w) \<Rightarrow> Some (Finished (GotControl (Inl (Nusb e))), s\<lparr>sh_world := w\<rparr>)
      | (Inr _, w) \<Rightarrow> Some (RecordAlt n alt, s\<lparr>sh_world := w\<rparr>))"
| "thread_step nb t (Halt ep len data n k) s =
     Some (KeepEp ep len data n k, s\<lparr>sh_world := snd (nb_clear_halt nb ep (sh_world s))\<rparr>)"
| "thread_step nb t (KeepEp ep len data n k) s =
     (case insert_endpoint ep n k s of (h, s1) \<Rightarrow> Some (WaitEp ep len data h, s1))"
| "thread_step nb t (WaitEp ep len data h) s =
     (if sh_holder s h = None
      then Some (InTransfer ep len data h, s\<lparr>sh_holder := (sh_holder s)(h \<mapsto> t)\<rparr>) else None)"
| "thread_step nb t (InTransfer ep len data h) s =
     (case complete_transfer nb ep len data (sh_world s) of
        (r, w) \<Rightarrow> Some (Finished (GotData r), s\<lparr>sh_world := w, sh_holder := (sh_holder s)(h := None)\<rparr>))"
| "thread_step nb t (ClearIfaces cfg) s = Some (ClearAlts cfg, s\<lparr>sh_interfaces := {}\<rparr>)"
| "thread_step nb t (ClearAlts cfg) s = Some (SetConfig cfg, s\<lparr>sh_alts := Map.empty\<rparr>)"
| "thread_step nb t (SetConfig cfg) s =
     (case nb_set_configuration nb cfg (sh_world s) of
        (Inl e, w) \<Rightarrow> Some (Finished (GotControl (Inl (Nusb e))), s\<lparr>sh_world := w\<rparr>)
      | (Inr _, w) \<Rightarrow> Some (Finished (GotControl (Inr [])), s\<lparr>sh_world := w\<rparr>))"
| "thread_step nb t (RecordAlt n alt) s =
     Some (Finished (GotControl (Inr [])), s\<lparr>sh_alts := (sh_alts s)(n \<mapsto> alt)\<rparr>)"
| "thread_step nb t (WaitCancel ep h) s =
     (if sh_holder s h = None
      then Some (Finished CancelDone, s\<lparr>sh_world := nb_cancel_all nb ep (sh_world s)\<rparr>) else None)"
| "thread_step nb t (Finished r) s = None"

text \<open>All threads of a device: any of them may take the next step.\<close>

type_synonym 'w threads = "'w shared \<times> (nat \<rightharpoonup> pc)"

inductive dev_step :: "'w nusb \<Rightarrow> 'w threads \<Rightarrow> 'w threads \<Rightarrow> bool" for nb where
  Thread: "ths t = Some p \<Longrightarrow> thread_step nb t p s = Some (p', s') \<Longrightarrow>
     dev_step nb (s, ths) (s', ths(t \<mapsto> p'))"

inductive_cases dev_stepE: "dev_step nb (s, ths) x"

definition cache_handles :: "'w shared \<Rightarrow> bool" where
  "cache_handles s \<longleftrightarrow>
     (\<forall>ep h. sh_cache s ep = Some h \<longrightarrow> h < length (sh_handles s) \<and> eh_addr (sh_handles s ! h) = ep)"

text \<open>Finitely many calls on a device on which nothing is in progress.\<close>

definition dev_start :: "'w threads \<Rightarrow> bool" where
  "dev_start x \<longleftrightarrow> (case x of (s, ths) \<Rightarrow>
     finite (dom ths) \<and> (\<forall>t p. ths t = Some p \<longrightarrow> (\<exists>op. p = Begin op)) \<and>
     sh_holder s = Map.empty \<and> cache_handles s)"

section \<open>A thread on its own is the atomic method\<close>

fun run_alone :: "nat \<Rightarrow> 'w nusb \<Rightarrow> nat \<Rightarrow> pc \<times> 'w shared \<Rightarrow> pc \<times> 'w shared" where
  "run_alone 0 nb t x = x"
| "run_alone (Suc n) nb t (p, s) =
     (case thread_step nb t p s of None \<Rightarrow> (p, s) | Some x \<Rightarrow> run_alone n nb t x)"

text \<open>What the atomic methods answer.\<close>

fun atomic :: "'w nusb \<Rightarrow> dev_op \<Rightarrow> opened_device \<times> 'w \<Rightarrow> op_result \<times> opened_device \<times> 'w" where
  "atomic nb (OpData ep len data) s = (case data_transfer nb ep len data s of (r, d, w) \<Rightarrow> (GotData r, d, w))"
| "atomic nb (OpControl setup data) s = (case control_transfer nb setup data s of (r, d, w) \<Rightarrow> (GotControl r, d, w))"
| "atomic nb (OpCancel ep) s = (CancelDone, cancel_endpoint nb ep s)"

fun pc_rank :: "pc \<Rightarrow> nat" where
  "pc_rank (Begin op) = 12"
| "pc_rank (Config ep len data cfg) = 11"
| "pc_rank (Kind ep len data n k) = 10"
| "pc_rank (Iface n c) = 9"
| "pc_rank (Claim n c) = 8"
| "pc_rank (Alt0 n c) = 7"
| "pc_rank (KeepIface n c) = 6"
| "pc_rank (HaveIface n c) = 5"
| "pc_rank (Halt ep len data n k) = 4"
| "pc_rank (KeepEp ep len data n k) = 3"
| "pc_rank (WaitEp ep len data h) = 2"
| "pc_rank (InTransfer ep len data h) = 1"
| "pc_rank (ClearIfaces cfg) = 3"
| "pc_rank (ClearAlts cfg) = 2"
| "pc_rank (SetConfig cfg) = 1"
| "pc_rank (RecordAlt n alt) = 1"
| "pc_rank (WaitCancel ep h) = 1"
| "pc_rank (Finished r) = 0"

lemma give_up_rank [simp]: "pc_rank (give_up c e) = 0"
  by (cases c) simp_all

lemma thread_step_rank: "thread_step nb t p s = Some (p', s') \<Longrightarrow> pc_rank p' < pc_rank p"
  by (cases "(nb, t, p, s)" rule: thread_step.cases)
    (auto simp: Let_def split: if_splits prod.splits sum.splits option.splits)

definition alone :: "'w nusb \<Rightarrow> nat \<Rightarrow> pc \<times> 'w shared \<Rightarrow> pc \<times> 'w shared \<Rightarrow> bool" where
  "alone nb t x y \<longleftrightarrow> (case x of (p, s) \<Rightarrow> thread_step nb t p s = Some y)"

lemma alone_run:
  "(alone nb t)\<^sup>*\<^sup>* x (Finished r, s') \<Longrightarrow> pc_rank (fst x) \<le> n \<Longrightarrow> run_alone n nb t x = (Finished r, s')"
proof (induction x arbitrary: n rule: converse_rtranclp_induct)
  case base
  then show ?case by (cases n) simp_all
next
  case (step x y)
  obtain p s where x: "x = (p, s)" by (cases x) auto
  with step have y: "thread_step nb t p s = Some y" by (simp add: alone_def)
  then have r: "pc_rank (fst y) < pc_rank p" using thread_step_rank [of nb t p s "fst y" "snd y"] by simp
  with step.prems x obtain m where "n = Suc m" "pc_rank (fst y) \<le> m" by (cases n) auto
  with step.IH x y show ?case by simp
qed

lemma alone_step: "thread_step nb t p s = Some y \<Longrightarrow> (alone nb t)\<^sup>*\<^sup>* y z \<Longrightarrow> (alone nb t)\<^sup>*\<^sup>* (p, s) z"
  by (rule converse_rtranclp_into_rtranclp) (simp add: alone_def)

lemma view_simps [simp]:
  "view (s\<lparr>sh_world := w\<rparr>) = view s" "view (s\<lparr>sh_holder := hs\<rparr>) = view s"
  "view (s\<lparr>sh_interfaces := is\<rparr>) = (view s)\<lparr>od_interfaces := is\<rparr>"
  "view (s\<lparr>sh_alts := as\<rparr>) = (view s)\<lparr>od_alt_settings := as\<rparr>"
  "view (s\<lparr>sh_cache := Map.empty\<rparr>) = (view s)\<lparr>od_endpoints := Map.empty\<rparr>"
  "od_interfaces (view s) = sh_interfaces s" "od_alt_settings (view s) = sh_alts s"
  "od_endpoints (view s) ep = map_option (\<lambda>h. eh_entry (sh_handles s ! h)) (sh_cache s ep)"
  by (simp_all add: view_def)

lemma view_retain [simp]: "view (retain_others n s) = invalidate_interface_endpoints n (view s)"
  by (auto simp: view_def retain_others_def invalidate_interface_endpoints_def fun_eq_iff split: option.split)

lemma view_insert:
  assumes "cache_handles s" "sh_cache s ep = None" "insert_endpoint ep n k s = (h, s')"
  shows "view s' = (view s)\<lparr>od_endpoints := (od_endpoints (view s))(ep \<mapsto> \<lparr>ee_iface_num = n, ee_kind = k\<rparr>)\<rparr>"
    "sh_world s' = sh_world s" "sh_holder s' = sh_holder s"
proof -
  have s': "s' = s\<lparr>sh_handles := sh_handles s @ [\<lparr>eh_addr = ep, eh_entry = \<lparr>ee_iface_num = n, ee_kind = k\<rparr>\<rparr>],
      sh_cache := (sh_cache s)(ep \<mapsto> length (sh_handles s))\<rparr>"
    using assms(2,3) by (auto simp: insert_endpoint_def Let_def)
  have "map_option (\<lambda>h. eh_entry (sh_handles s' ! h)) (sh_cache s' a) =
      ((od_endpoints (view s))(ep \<mapsto> \<lparr>ee_iface_num = n, ee_kind = k\<rparr>)) a" for a
    using assms(1) by (cases "sh_cache s a") (auto simp: s' cache_handles_def nth_append)
  then show "view s' = (view s)\<lparr>od_endpoints := (od_endpoints (view s))(ep \<mapsto> \<lparr>ee_iface_num = n, ee_kind = k\<rparr>)\<rparr>"
    by (simp add: view_def s' fun_eq_iff)
  show "sh_world s' = sh_world s" "sh_holder s' = sh_holder s" by (simp_all add: s')
qed

text \<open>\<^verbatim>\<open>ensure_interface\<close> touches neither the cache nor a mutex.\<close>

definition same_endpoints :: "'w shared \<Rightarrow> 'w shared \<Rightarrow> bool" where
  "same_endpoints s s' \<longleftrightarrow>
     sh_cache s' = sh_cache s \<and> sh_handles s' = sh_handles s \<and> sh_holder s' = sh_holder s"

lemma alone_interface:
  assumes "ensure_interface nb n (view s, sh_world s) = (r, d, w)"
  obtains s' where "(alone nb t)\<^sup>*\<^sup>* (Iface n c, s) (case r of Inl e \<Rightarrow> give_up c e | Inr _ \<Rightarrow> HaveIface n c, s')"
    "view s' = d" "sh_world s' = w" "same_endpoints s s'"
proof (cases "n \<in> sh_interfaces s")
  case True
  with assms show thesis
    by (intro that [of s]) (auto simp: ensure_interface_def same_endpoints_def intro: alone_step)
next
  case False
  then have 1: "thread_step nb t (Iface n c) s = Some (Claim n c, s)" by simp
  obtain x w1 where x: "nb_claim_interface nb n (sh_world s) = (x, w1)" by fastforce
  show thesis
  proof (cases x)
    case (Inl e)
    with False x assms show thesis
      by (intro that [of "s\<lparr>sh_world := w1\<rparr>"] alone_step [OF 1] alone_step)
        (auto simp: ensure_interface_def same_endpoints_def)
  next
    case (Inr u)
    let ?s1 = "s\<lparr>sh_world := snd (nb_set_alt_setting nb n 0 w1)\<rparr>"
    from Inr x have 2: "thread_step nb t (Claim n c) s = Some (Alt0 n c, s\<lparr>sh_world := w1\<rparr>)" by simp
    have 3: "thread_step nb t (Alt0 n c) (s\<lparr>sh_world := w1\<rparr>) = Some (KeepIface n c, ?s1)" by simp
    have 4: "thread_step nb t (KeepIface n c) ?s1 =
        Some (HaveIface n c, ?s1\<lparr>sh_interfaces := insert n (sh_interfaces s)\<rparr>)" by simp
    have "(alone nb t)\<^sup>*\<^sup>* (Iface n c, s) (HaveIface n c, ?s1\<lparr>sh_interfaces := insert n (sh_interfaces s)\<rparr>)"
      by (rule alone_step [OF 1], rule alone_step [OF 2], rule alone_step [OF 3], rule alone_step [OF 4]) simp
    with False x Inr assms show thesis
      by (intro that [of "?s1\<lparr>sh_interfaces := insert n (sh_interfaces s)\<rparr>"])
        (auto simp: ensure_interface_def same_endpoints_def split: prod.splits)
  qed
qed

lemma data_transfer_complete:
  "data_transfer nb ep len data (d, w) =
     (case endpoint_kind nb d w ep of
        (Inl e, w0) \<Rightarrow> (Inl e, d, w0)
      | (Inr k, w0) \<Rightarrow>
          (case ensure_endpoint nb ep k (d, w0) of
             (Inl e, d1, w1) \<Rightarrow> (Inl e, d1, w1)
           | (Inr entry, d1, w1) \<Rightarrow>
               (case complete_transfer nb ep len data w1 of (r, w2) \<Rightarrow> (r, d1, w2))))"
  by (simp add: data_transfer_def complete_transfer_def Let_def split: sum.split prod.split)

lemma alone_kind:
  "(alone nb t)\<^sup>*\<^sup>* (Begin (OpData ep len data), s)
     (case fst (endpoint_kind nb (view s) (sh_world s) ep) of
        Inl e \<Rightarrow> Finished (GotData (Inl e))
      | Inr (n, k) \<Rightarrow> Kind ep len data n k, s\<lparr>sh_world := snd (endpoint_kind nb (view s) (sh_world s) ep)\<rparr>)"
proof -
  let ?cfg = "nb_active_configuration nb (sh_world s)"
  have "thread_step nb t (Begin (OpData ep len data)) s = Some (Config ep len data ?cfg, s)" by simp
  moreover have "thread_step nb t (Config ep len data ?cfg) s =
      Some (case fst (endpoint_kind nb (view s) (sh_world s) ep) of
        Inl e \<Rightarrow> Finished (GotData (Inl e))
      | Inr (n, k) \<Rightarrow> Kind ep len data n k, s\<lparr>sh_world := snd (endpoint_kind nb (view s) (sh_world s) ep)\<rparr>)"
    by (simp add: endpoint_kind_def split: option.split prod.split)
  ultimately show ?thesis by (meson alone_step rtranclp.rtrancl_refl)
qed

text \<open>Once it has the endpoint, a thread that meets no other one holding it completes the transfer.\<close>

lemma alone_transfer:
  assumes "sh_holder s h = None" "complete_transfer nb ep len data (sh_world s) = (r, w)"
  shows "(alone nb t)\<^sup>*\<^sup>* (WaitEp ep len data h, s) (Finished (GotData r), s\<lparr>sh_world := w\<rparr>)"
proof -
  have "thread_step nb t (WaitEp ep len data h) s =
      Some (InTransfer ep len data h, s\<lparr>sh_holder := (sh_holder s)(h \<mapsto> t)\<rparr>)"
    using assms(1) by simp
  moreover have "thread_step nb t (InTransfer ep len data h) (s\<lparr>sh_holder := (sh_holder s)(h \<mapsto> t)\<rparr>) =
      Some (Finished (GotData r), s\<lparr>sh_world := w\<rparr>)"
    using assms by (simp add: fun_upd_idem)
  ultimately show ?thesis by (meson alone_step rtranclp.rtrancl_refl)
qed

lemma alone_open:
  assumes "nb_endpoint nb n k ep (sh_world s) = (x, w)" "cache_handles s" "sh_cache s ep = None"
  obtains s' h where "(alone nb t)\<^sup>*\<^sup>* (HaveIface n (ForEndpoint ep len data k), s)
      (case x of Inl e \<Rightarrow> Finished (GotData (Inl (Nusb e))) | Inr _ \<Rightarrow> WaitEp ep len data h, s')"
    "view s' = (case x of Inl e \<Rightarrow> view s | Inr _ \<Rightarrow>
      (view s)\<lparr>od_endpoints := (od_endpoints (view s))(ep \<mapsto> \<lparr>ee_iface_num = n, ee_kind = k\<rparr>)\<rparr>)"
    "sh_world s' = (case x of Inl e \<Rightarrow> w | Inr _ \<Rightarrow> snd (nb_clear_halt nb ep w))" "sh_holder s' = sh_holder s"
proof (cases x)
  case (Inl e)
  with assms(1) show thesis
    by (intro that [of undefined "s\<lparr>sh_world := w\<rparr>"]) (simp_all add: r_into_rtranclp alone_def)
next
  case (Inr u)
  let ?s3 = "s\<lparr>sh_world := snd (nb_clear_halt nb ep w)\<rparr>"
  obtain h s4 where h: "insert_endpoint ep n k ?s3 = (h, s4)" by fastforce
  have c: "cache_handles ?s3" "sh_cache ?s3 ep = None"
    using assms(2,3) by (simp_all add: cache_handles_def)
  have 1: "thread_step nb t (HaveIface n (ForEndpoint ep len data k)) s = Some (Halt ep len data n k, s\<lparr>sh_world := w\<rparr>)"
    using assms(1) Inr by simp
  have 2: "thread_step nb t (Halt ep len data n k) (s\<lparr>sh_world := w\<rparr>) = Some (KeepEp ep len data n k, ?s3)" by simp
  have 3: "thread_step nb t (KeepEp ep len data n k) ?s3 = Some (WaitEp ep len data h, s4)" using h by simp
  have "(alone nb t)\<^sup>*\<^sup>* (HaveIface n (ForEndpoint ep len data k), s) (WaitEp ep len data h, s4)"
    by (rule alone_step [OF 1], rule alone_step [OF 2], rule alone_step [OF 3]) simp
  with view_insert [OF c h] Inr show thesis by (intro that [of h s4]) simp_all
qed

lemma alone_endpoint:
  assumes "ensure_endpoint nb ep (n, k) (view s, sh_world s) = (r, d, w)" "cache_handles s"
  obtains s' h where "(alone nb t)\<^sup>*\<^sup>* (Kind ep len data n k, s)
      (case r of Inl e \<Rightarrow> Finished (GotData (Inl e)) | Inr _ \<Rightarrow> WaitEp ep len data h, s')"
    "view s' = d" "sh_world s' = w" "sh_holder s' = sh_holder s"
proof (cases "sh_cache s ep")
  case (Some h)
  with assms(1) show thesis
    by (intro that [of h s]) (auto simp: ensure_endpoint_def alone_def intro!: r_into_rtranclp)
next
  case None
  then have 1: "thread_step nb t (Kind ep len data n k) s = Some (Iface n (ForEndpoint ep len data k), s)" by simp
  obtain r1 d1 w1 where i: "ensure_interface nb n (view s, sh_world s) = (r1, d1, w1)"
    by (cases "ensure_interface nb n (view s, sh_world s)") auto
  obtain s1 where s1: "(alone nb t)\<^sup>*\<^sup>* (Iface n (ForEndpoint ep len data k), s)
      (case r1 of Inl e \<Rightarrow> give_up (ForEndpoint ep len data k) e | Inr _ \<Rightarrow> HaveIface n (ForEndpoint ep len data k), s1)"
    "view s1 = d1" "sh_world s1 = w1" "same_endpoints s s1"
    by (rule alone_interface [OF i])
  show thesis
  proof (cases r1)
    case (Inl e)
    with alone_step [OF 1 s1(1)] s1(2-4) i assms(1) None show thesis
      by (intro that [of undefined s1]) (auto simp: ensure_endpoint_def same_endpoints_def)
  next
    case (Inr u)
    obtain x w2 where x: "nb_endpoint nb n k ep (sh_world s1) = (x, w2)" by fastforce
    have c: "cache_handles s1" "sh_cache s1 ep = None"
      using s1(4) assms(2) None by (simp_all add: same_endpoints_def cache_handles_def)
    obtain s' h where s': "(alone nb t)\<^sup>*\<^sup>* (HaveIface n (ForEndpoint ep len data k), s1)
        (case x of Inl e \<Rightarrow> Finished (GotData (Inl (Nusb e))) | Inr _ \<Rightarrow> WaitEp ep len data h, s')"
      "view s' = (case x of Inl e \<Rightarrow> view s1 | Inr _ \<Rightarrow>
        (view s1)\<lparr>od_endpoints := (od_endpoints (view s1))(ep \<mapsto> \<lparr>ee_iface_num = n, ee_kind = k\<rparr>)\<rparr>)"
      "sh_world s' = (case x of Inl e \<Rightarrow> w2 | Inr _ \<Rightarrow> snd (nb_clear_halt nb ep w2))" "sh_holder s' = sh_holder s1"
      by (rule alone_open [OF x c])
    have "(alone nb t)\<^sup>*\<^sup>* (Kind ep len data n k, s)
        (case x of Inl e \<Rightarrow> Finished (GotData (Inl (Nusb e))) | Inr _ \<Rightarrow> WaitEp ep len data h, s')"
      using alone_step [OF 1 s1(1)] s'(1) Inr by (simp add: rtranclp_trans)
    with s1(2-4) s'(2-4) i assms(1) None x Inr show thesis
      by (intro that [of h s'])
        (auto simp: ensure_endpoint_def same_endpoints_def Let_def split: prod.splits sum.splits)
  qed
qed

text \<open>The control requests.\<close>

lemma control_transfer_plain:
  "\<not> is_set_configuration setup \<Longrightarrow> \<not> is_set_interface setup \<Longrightarrow>
   control_transfer nb setup data (d, w) = (case plain_control nb setup data w of (r, w1) \<Rightarrow> (r, d, w1))"
  by (simp add: control_transfer_def plain_control_def Let_def split: sum.split prod.split)

lemma alone_set_configuration:
  assumes "is_set_configuration setup" "control_transfer nb setup data (view s, sh_world s) = (r, d, w)"
  obtains s' where "(alone nb t)\<^sup>*\<^sup>* (Begin (OpControl setup data), s) (Finished (GotControl r), s')"
    "view s' = d" "sh_world s' = w" "sh_holder s' = sh_holder s"
proof -
  let ?cfg = "ucast (w_value setup AND 0xFF) :: u8"
  let ?s1 = "s\<lparr>sh_cache := Map.empty\<rparr>"
  let ?s2 = "?s1\<lparr>sh_interfaces := {}\<rparr>"
  let ?s3 = "?s2\<lparr>sh_alts := Map.empty\<rparr>"
  have 1: "thread_step nb t (Begin (OpControl setup data)) s = Some (ClearIfaces ?cfg, ?s1)" using assms(1) by simp
  have 2: "thread_step nb t (ClearIfaces ?cfg) ?s1 = Some (ClearAlts ?cfg, ?s2)" by simp
  have 3: "thread_step nb t (ClearAlts ?cfg) ?s2 = Some (SetConfig ?cfg, ?s3)" by simp
  have 4: "thread_step nb t (SetConfig ?cfg) ?s3 = Some (Finished (GotControl r), ?s3\<lparr>sh_world := w\<rparr>)"
    using assms by (auto simp: control_transfer_def Let_def split: prod.splits sum.splits)
  have "(alone nb t)\<^sup>*\<^sup>* (Begin (OpControl setup data), s) (Finished (GotControl r), ?s3\<lparr>sh_world := w\<rparr>)"
    by (rule alone_step [OF 1], rule alone_step [OF 2], rule alone_step [OF 3], rule alone_step [OF 4]) simp
  moreover have "view (?s3\<lparr>sh_world := w\<rparr>) = d"
    using assms by (auto simp: control_transfer_def Let_def view_def split: prod.splits sum.splits)
  ultimately show thesis by (intro that [of "?s3\<lparr>sh_world := w\<rparr>"]) simp_all
qed

lemma alone_set_interface:
  assumes "is_set_interface setup" "control_transfer nb setup data (view s, sh_world s) = (r, d, w)"
  obtains s' where "(alone nb t)\<^sup>*\<^sup>* (Begin (OpControl setup data), s) (Finished (GotControl r), s')"
    "view s' = d" "sh_world s' = w" "sh_holder s' = sh_holder s"
proof -
  let ?alt = "ucast (w_value setup AND 0xFF) :: u8"
  let ?n = "ucast (w_index setup AND 0xFF) :: u8"
  let ?s1 = "retain_others ?n s"
  have nc: "\<not> is_set_configuration setup"
    using assms(1) by (auto simp: is_set_configuration_def is_set_interface_def)
  have w1: "sh_world ?s1 = sh_world s" "sh_holder ?s1 = sh_holder s" by (simp_all add: retain_others_def)
  have 1: "thread_step nb t (Begin (OpControl setup data)) s = Some (Iface ?n (ForAlt ?alt), ?s1)"
    using assms(1) nc by (simp add: Let_def)
  obtain r1 d1 w2 where i: "ensure_interface nb ?n (view ?s1, sh_world ?s1) = (r1, d1, w2)"
    by (cases "ensure_interface nb ?n (view ?s1, sh_world ?s1)") auto
  obtain s2 where s2: "(alone nb t)\<^sup>*\<^sup>* (Iface ?n (ForAlt ?alt), ?s1)
      (case r1 of Inl e \<Rightarrow> give_up (ForAlt ?alt) e | Inr _ \<Rightarrow> HaveIface ?n (ForAlt ?alt), s2)"
    "view s2 = d1" "sh_world s2 = w2" "same_endpoints ?s1 s2"
    by (rule alone_interface [OF i])
  note run = alone_step [OF 1 s2(1)]
  show thesis
  proof (cases r1)
    case (Inl e)
    with run s2 i w1 nc assms show thesis
      by (intro that [of s2]) (auto simp: control_transfer_def Let_def same_endpoints_def)
  next
    case (Inr u)
    obtain x w3 where x: "nb_set_alt_setting nb ?n ?alt w2 = (x, w3)" by fastforce
    show thesis
    proof (cases x)
      case (Inl e)
      have "thread_step nb t (HaveIface ?n (ForAlt ?alt)) s2 =
          Some (Finished (GotControl (Inl (Nusb e))), s2\<lparr>sh_world := w3\<rparr>)" using x Inl s2(3) by simp
      with run \<open>r1 = Inr u\<close> have "(alone nb t)\<^sup>*\<^sup>* (Begin (OpControl setup data), s)
          (Finished (GotControl (Inl (Nusb e))), s2\<lparr>sh_world := w3\<rparr>)"
        by (auto simp: alone_def intro: rtranclp.rtrancl_into_rtrancl)
      with Inl x \<open>r1 = Inr u\<close> s2 i w1 nc assms show thesis
        by (intro that [of "s2\<lparr>sh_world := w3\<rparr>"]) (auto simp: control_transfer_def Let_def same_endpoints_def)
    next
      case (Inr v)
      let ?s3 = "s2\<lparr>sh_world := w3\<rparr>"
      let ?s4 = "?s3\<lparr>sh_alts := (sh_alts s2)(?n \<mapsto> ?alt)\<rparr>"
      have 2: "thread_step nb t (HaveIface ?n (ForAlt ?alt)) s2 = Some (RecordAlt ?n ?alt, ?s3)" using x Inr s2(3) by simp
      have 3: "thread_step nb t (RecordAlt ?n ?alt) ?s3 = Some (Finished (GotControl (Inr [])), ?s4)" by simp
      have "(alone nb t)\<^sup>*\<^sup>* (HaveIface ?n (ForAlt ?alt), s2) (Finished (GotControl (Inr [])), ?s4)"
        by (rule alone_step [OF 2], rule alone_step [OF 3]) simp
      with run \<open>r1 = Inr u\<close> have "(alone nb t)\<^sup>*\<^sup>* (Begin (OpControl setup data), s) (Finished (GotControl (Inr [])), ?s4)"
        by simp
      with Inr x \<open>r1 = Inr u\<close> s2 i w1 nc assms show thesis
        by (intro that [of ?s4]) (auto simp: control_transfer_def Let_def same_endpoints_def)
    qed
  qed
qed

section \<open>Mutexes and handles under any interleaving\<close>

text \<open>The endpoint and handle a thread works with, and the mutex it holds.\<close>

fun uses :: "pc \<Rightarrow> (u8 \<times> nat) option" where
  "uses (WaitEp ep len data h) = Some (ep, h)"
| "uses (InTransfer ep len data h) = Some (ep, h)"
| "uses (WaitCancel ep h) = Some (ep, h)"
| "uses _ = None"

fun holds :: "pc \<Rightarrow> nat option" where
  "holds (InTransfer ep len data h) = Some h"
| "holds _ = None"

definition handle_ok :: "'w shared \<Rightarrow> pc \<Rightarrow> bool" where
  "handle_ok s p \<longleftrightarrow>
     (\<forall>ep h. uses p = Some (ep, h) \<longrightarrow> h < length (sh_handles s) \<and> eh_addr (sh_handles s ! h) = ep)"

definition dev_invar :: "'w threads \<Rightarrow> bool" where
  "dev_invar x \<longleftrightarrow> (case x of (s, ths) \<Rightarrow>
     finite (dom ths) \<and> cache_handles s \<and> (\<forall>t p. ths t = Some p \<longrightarrow> handle_ok s p) \<and>
     (\<forall>h t. sh_holder s h = Some t \<longleftrightarrow> (\<exists>p. ths t = Some p \<and> holds p = Some h)))"

lemma give_up_uses [simp]: "uses (give_up c e) = None" "holds (give_up c e) = None"
  by (cases c; simp)+

lemma step_locks:
  assumes "thread_step nb t p s = Some (p', s')"
  shows "holds p = None \<and> holds p' = None \<and> sh_holder s' = sh_holder s \<or>
    (\<exists>h. holds p = None \<and> holds p' = Some h \<and> sh_holder s h = None \<and> sh_holder s' = (sh_holder s)(h \<mapsto> t)) \<or>
    (\<exists>h. holds p = Some h \<and> holds p' = None \<and> sh_holder s' = (sh_holder s)(h := None))"
  using assms
  by (cases "(nb, t, p, s)" rule: thread_step.cases)
    (auto simp: Let_def retain_others_def insert_endpoint_def split: if_splits prod.splits sum.splits option.splits)

lemma step_handles:
  assumes "thread_step nb t p s = Some (p', s')"
  shows "\<exists>hs. sh_handles s' = sh_handles s @ hs"
  using assms
  by (cases "(nb, t, p, s)" rule: thread_step.cases)
    (auto simp: Let_def retain_others_def insert_endpoint_def split: if_splits prod.splits sum.splits option.splits)

lemma handle_ok_mono: "handle_ok s p \<Longrightarrow> sh_handles s' = sh_handles s @ hs \<Longrightarrow> handle_ok s' p"
  by (auto simp: handle_ok_def nth_append)

lemma step_cache:
  assumes "thread_step nb t p s = Some (p', s')" "cache_handles s" "handle_ok s p"
  shows "cache_handles s' \<and> handle_ok s' p'"
  using assms
  by (cases "(nb, t, p, s)" rule: thread_step.cases)
    (auto simp: Let_def retain_others_def insert_endpoint_def cache_handles_def handle_ok_def nth_append less_Suc_eq
      split: if_splits prod.splits sum.splits option.splits)

lemma dev_invar_step:
  assumes "dev_invar x" "dev_step nb x y"
  shows "dev_invar y"
  using assms(2)
proof (cases rule: dev_step.cases)
  case (Thread ths t p s p' s')
  have i: "finite (dom ths)" "cache_handles s" "\<And>t p. ths t = Some p \<Longrightarrow> handle_ok s p"
    "\<And>h t. sh_holder s h = Some t \<longleftrightarrow> (\<exists>p. ths t = Some p \<and> holds p = Some h)"
    using assms(1) unfolding Thread(1) dev_invar_def by auto
  obtain hs where "sh_handles s' = sh_handles s @ hs" using step_handles [OF Thread(4)] by blast
  then have "handle_ok s' q" if "ths u = Some q" for u q by (rule handle_ok_mono [OF i(3) [OF that]])
  moreover have "cache_handles s' \<and> handle_ok s' p'" by (rule step_cache [OF Thread(4) i(2) i(3) [OF Thread(3)]])
  moreover have "sh_holder s' h = Some u \<longleftrightarrow> (\<exists>q. (ths(t \<mapsto> p')) u = Some q \<and> holds q = Some h)" for h u
    using step_locks [OF Thread(4)] i(4) [of h u] i(4) [of h t] Thread(3) by (auto split: if_splits)
  ultimately show ?thesis using i(1) unfolding Thread(2) dev_invar_def by auto
qed

lemma dev_invar_start: "dev_start x \<Longrightarrow> dev_invar x"
  by (fastforce simp: dev_start_def dev_invar_def handle_ok_def)

text \<open>Every thread that is not finished can step, unless another one holds the mutex it waits for.\<close>

definition calls_done :: "'w threads \<Rightarrow> bool" where
  "calls_done x \<longleftrightarrow> (case x of (s, ths) \<Rightarrow>
     (\<forall>t p. ths t = Some p \<longrightarrow> (\<exists>r. p = Finished r)) \<and> sh_holder s = Map.empty)"

lemma thread_blocked:
  assumes "thread_step nb t p s = None"
  shows "(\<exists>r. p = Finished r) \<or> (\<exists>ep h u. uses p = Some (ep, h) \<and> holds p = None \<and> sh_holder s h = Some u)"
  using assms
  by (cases "(nb, t, p, s)" rule: thread_step.cases)
    (auto simp: Let_def split: if_splits prod.splits sum.splits option.splits)

lemma holder_steps:
  assumes "dev_invar (s, ths)" "sh_holder s h = Some u"
  shows "\<exists>y. dev_step nb (s, ths) y"
proof -
  obtain p where p: "ths u = Some p" "holds p = Some h"
    using assms by (auto simp: dev_invar_def)
  from p(2) have "thread_step nb u p s \<noteq> None" by (cases p) (auto split: prod.split)
  then obtain p' s' where "thread_step nb u p s = Some (p', s')" by auto
  with p(1) show ?thesis by (blast intro: Thread)
qed

lemma stuck_done:
  assumes "dev_invar (s, ths)" "\<nexists>y. dev_step nb (s, ths) y"
  shows "calls_done (s, ths)"
proof -
  have free: "sh_holder s = Map.empty"
    using holder_steps [OF assms(1)] assms(2) by (metis not_None_eq ext)
  moreover have "\<exists>r. p = Finished r" if "ths t = Some p" for t p
  proof -
    have "thread_step nb t p s = None"
      using that assms(2) Thread [of ths t p nb s] by (cases "thread_step nb t p s") auto
    from thread_blocked [OF this] free show ?thesis by auto
  qed
  ultimately show ?thesis by (simp add: calls_done_def)
qed

definition work_left :: "'w threads \<Rightarrow> nat" where
  "work_left x = (case x of (s, ths) \<Rightarrow> \<Sum>t \<in> dom ths. pc_rank (the (ths t)))"

lemma work_left_step:
  assumes "dev_invar x" "dev_step nb x y"
  shows "work_left y < work_left x"
  using assms(2)
proof (cases rule: dev_step.cases)
  case (Thread ths t p s p' s')
  have f: "finite (dom ths)" using assms(1) Thread(1) by (simp add: dev_invar_def)
  have d: "dom (ths(t \<mapsto> p')) = dom ths" "t \<in> dom ths" using Thread(3) by auto
  have "(\<Sum>u \<in> dom ths. pc_rank (the ((ths(t \<mapsto> p')) u))) < (\<Sum>u \<in> dom ths. pc_rank (the (ths u)))"
    using thread_step_rank [OF Thread(4)] Thread(3) by (intro sum_strict_mono_ex1 f) (auto simp: d)
  then show ?thesis unfolding Thread(1,2) work_left_def prod.case d(1) .
qed

interpretation thr: terminating_system dev_start "dev_step nb" dev_invar work_left less_than calls_done for nb
proof unfold_locales
  fix x :: "'a threads" assume "dev_start x"
  then show "dev_invar x" by (rule dev_invar_start)
next
  fix x y :: "'a threads" assume "dev_invar x" "dev_step nb x y"
  then show "dev_invar y" "(work_left y, work_left x) \<in> less_than"
    using dev_invar_step [of x nb y] work_left_step [of x nb y] by simp_all
next
  fix x :: "'a threads" assume "dev_invar x" "\<nexists>y. dev_step nb x y"
  then show "calls_done x" using stuck_done [of "fst x" "snd x" nb] by simp
qed simp

section \<open>Calls that do not reconfigure the device\<close>

fun reconfigures :: "pc \<Rightarrow> bool" where
  "reconfigures (Begin (OpControl setup data)) \<longleftrightarrow> is_set_configuration setup \<or> is_set_interface setup"
| "reconfigures (ClearIfaces cfg) \<longleftrightarrow> True"
| "reconfigures (ClearAlts cfg) \<longleftrightarrow> True"
| "reconfigures (SetConfig cfg) \<longleftrightarrow> True"
| "reconfigures (Iface n (ForAlt alt)) \<longleftrightarrow> True"
| "reconfigures (Claim n (ForAlt alt)) \<longleftrightarrow> True"
| "reconfigures (Alt0 n (ForAlt alt)) \<longleftrightarrow> True"
| "reconfigures (KeepIface n (ForAlt alt)) \<longleftrightarrow> True"
| "reconfigures (HaveIface n (ForAlt alt)) \<longleftrightarrow> True"
| "reconfigures (RecordAlt n alt) \<longleftrightarrow> True"
| "reconfigures _ \<longleftrightarrow> False"

text \<open>Without reconfiguration the cache only grows, and every thread works with the cached handle.\<close>

definition shares_handles :: "'w threads \<Rightarrow> bool" where
  "shares_handles x \<longleftrightarrow> (case x of (s, ths) \<Rightarrow>
     (\<forall>t p. ths t = Some p \<longrightarrow> \<not> reconfigures p \<and> (\<forall>ep h. uses p = Some (ep, h) \<longrightarrow> sh_cache s ep = Some h)))"

lemma give_up_reconf [simp]: "\<not> reconfigures (give_up c e)"
  by (cases c) simp_all

lemma reconf_interface [simp]:
  "\<not> reconfigures (Iface n c) \<Longrightarrow> \<not> reconfigures (HaveIface n c) \<and> \<not> reconfigures (Claim n c)"
  "\<not> reconfigures (Claim n c) \<Longrightarrow> \<not> reconfigures (Alt0 n c)"
  "\<not> reconfigures (Alt0 n c) \<Longrightarrow> \<not> reconfigures (KeepIface n c)"
  "\<not> reconfigures (KeepIface n c) \<Longrightarrow> \<not> reconfigures (HaveIface n c)"
  by (cases c; simp)+

lemma step_shares:
  assumes "thread_step nb t p s = Some (p', s')" "\<not> reconfigures p"
    and "\<And>ep h. uses p = Some (ep, h) \<Longrightarrow> sh_cache s ep = Some h"
  shows "\<not> reconfigures p' \<and> (\<forall>ep h. uses p' = Some (ep, h) \<longrightarrow> sh_cache s' ep = Some h) \<and>
    (\<forall>ep h. sh_cache s ep = Some h \<longrightarrow> sh_cache s' ep = Some h)"
  using assms
  by (cases "(nb, t, p, s)" rule: thread_step.cases)
    (auto simp: Let_def insert_endpoint_def split: if_splits prod.splits sum.splits option.splits)

interpretation shr: safe_system
  "\<lambda>x. dev_start x \<and> (\<forall>t p. snd x t = Some p \<longrightarrow> \<not> reconfigures p)" "dev_step nb" shares_handles for nb
proof unfold_locales
  fix x :: "'a threads" assume "dev_start x \<and> (\<forall>t p. snd x t = Some p \<longrightarrow> \<not> reconfigures p)"
  then show "shares_handles x" by (fastforce simp: dev_start_def shares_handles_def)
next
  fix x y :: "'a threads" assume sh: "shares_handles x" and "dev_step nb x y"
  from this(2) show "shares_handles y"
  proof (cases rule: dev_step.cases)
    case (Thread ths t p s p' s')
    then have "\<not> reconfigures p" "\<And>ep h. uses p = Some (ep, h) \<Longrightarrow> sh_cache s ep = Some h"
      using sh by (auto simp: shares_handles_def)
    note step = step_shares [OF Thread(4) this]
    with sh show ?thesis unfolding Thread(1,2) shares_handles_def by auto
  qed
qed

section \<open>Runs\<close>

lemma alone_lift:
  assumes "(alone nb t)\<^sup>*\<^sup>* (p, s) (p', s')" "ths t = Some p"
  shows "(dev_step nb)\<^sup>*\<^sup>* (s, ths) (s', ths(t \<mapsto> p'))"
  using assms(1)
proof (induction "(p', s')" arbitrary: p' s' rule: rtranclp_induct)
  case base
  then show ?case using assms(2) by (simp add: fun_upd_idem)
next
  case (step y)
  obtain q u where y: "y = (q, u)" by (cases y) auto
  with step have "(dev_step nb)\<^sup>*\<^sup>* (s, ths) (u, ths(t \<mapsto> q))" by simp
  moreover have "dev_step nb (u, ths(t \<mapsto> q)) (s', ths(t \<mapsto> p'))"
    using step(2) y Thread [of "ths(t \<mapsto> q)" t q nb u p' s'] by (simp add: alone_def)
  ultimately show ?case by simp
qed

text \<open>A thread that has opened an endpoint and is about to put it into the cache.\<close>

lemma alone_opened:
  assumes "endpoint_kind nb (view s) (sh_world s) ep = (Inr (n, k), w0)" "sh_cache s ep = None" "n \<in> sh_interfaces s"
    and "nb_endpoint nb n k ep w0 = (Inr u, w)"
  shows "(alone nb t)\<^sup>*\<^sup>* (Begin (OpData ep len data), s)
    (KeepEp ep len data n k, s\<lparr>sh_world := snd (nb_clear_halt nb ep w)\<rparr>)"
proof -
  let ?s = "s\<lparr>sh_world := w0\<rparr>"
  have 1: "thread_step nb t (Kind ep len data n k) ?s = Some (Iface n (ForEndpoint ep len data k), ?s)" using assms(2) by simp
  have 2: "thread_step nb t (Iface n (ForEndpoint ep len data k)) ?s = Some (HaveIface n (ForEndpoint ep len data k), ?s)"
    using assms(3) by simp
  have 3: "thread_step nb t (HaveIface n (ForEndpoint ep len data k)) ?s = Some (Halt ep len data n k, s\<lparr>sh_world := w\<rparr>)"
    using assms(4) by simp
  have 4: "thread_step nb t (Halt ep len data n k) (s\<lparr>sh_world := w\<rparr>) =
      Some (KeepEp ep len data n k, s\<lparr>sh_world := snd (nb_clear_halt nb ep w)\<rparr>)" by simp
  have "(alone nb t)\<^sup>*\<^sup>* (Begin (OpData ep len data), s) (Kind ep len data n k, ?s)"
    using alone_kind [of nb t ep len data s] assms(1) by simp
  moreover have "(alone nb t)\<^sup>*\<^sup>* (Kind ep len data n k, ?s) (KeepEp ep len data n k, s\<lparr>sh_world := snd (nb_clear_halt nb ep w)\<rparr>)"
    by (rule alone_step [OF 1], rule alone_step [OF 2], rule alone_step [OF 3], rule alone_step [OF 4]) simp
  ultimately show ?thesis by (rule rtranclp_trans)
qed

text \<open>The rest of such a thread, whatever has happened in between, if the endpoint is not cached.\<close>

lemma alone_keep:
  assumes "cache_handles s" "sh_cache s ep = None" "sh_holder s = Map.empty"
  obtains s' r where "(alone nb t)\<^sup>*\<^sup>* (KeepEp ep len data n k, s) (Finished (GotData r), s')"
    "view s' = (view s)\<lparr>od_endpoints := (od_endpoints (view s))(ep \<mapsto> \<lparr>ee_iface_num = n, ee_kind = k\<rparr>)\<rparr>"
proof -
  obtain h s1 where h: "insert_endpoint ep n k s = (h, s1)" by fastforce
  note s1 = view_insert [OF assms(1,2) h]
  obtain r w where c: "complete_transfer nb ep len data (sh_world s1) = (r, w)" by fastforce
  have "thread_step nb t (KeepEp ep len data n k) s = Some (WaitEp ep len data h, s1)" using h by simp
  from alone_step [OF this alone_transfer [OF _ c]] assms(3) s1(3)
  have "(alone nb t)\<^sup>*\<^sup>* (KeepEp ep len data n k, s) (Finished (GotData r), s1\<lparr>sh_world := w\<rparr>)" by simp
  with s1(1) show thesis by (intro that [of r "s1\<lparr>sh_world := w\<rparr>"]) simp_all
qed

text \<open>\<^verbatim>\<open>SET_INTERFACE\<close> on an interface that is already claimed.\<close>

lemma alone_switch:
  assumes "is_set_interface setup" "ucast (w_index setup AND 0xFF) = n" "ucast (w_value setup AND 0xFF) = alt"
    and "n \<in> sh_interfaces s" "nb_set_alt_setting nb n alt (sh_world s) = (Inr u, w)"
  shows "(alone nb t)\<^sup>*\<^sup>* (Begin (OpControl setup data), s)
    (Finished (GotControl (Inr [])), (retain_others n s)\<lparr>sh_world := w, sh_alts := (sh_alts s)(n \<mapsto> alt)\<rparr>)"
proof -
  let ?s1 = "retain_others n s"
  have nc: "\<not> is_set_configuration setup"
    using assms(1) by (auto simp: is_set_configuration_def is_set_interface_def)
  have f: "sh_interfaces ?s1 = sh_interfaces s" "sh_world ?s1 = sh_world s" "sh_alts ?s1 = sh_alts s"
    by (simp_all add: retain_others_def)
  have 1: "thread_step nb t (Begin (OpControl setup data)) s = Some (Iface n (ForAlt alt), ?s1)"
    using assms(1-3) nc by (simp add: Let_def)
  have 2: "thread_step nb t (Iface n (ForAlt alt)) ?s1 = Some (HaveIface n (ForAlt alt), ?s1)" using assms(4) f by simp
  have 3: "thread_step nb t (HaveIface n (ForAlt alt)) ?s1 = Some (RecordAlt n alt, ?s1\<lparr>sh_world := w\<rparr>)"
    using assms(5) f by simp
  have 4: "thread_step nb t (RecordAlt n alt) (?s1\<lparr>sh_world := w\<rparr>) =
      Some (Finished (GotControl (Inr [])), ?s1\<lparr>sh_world := w, sh_alts := (sh_alts s)(n \<mapsto> alt)\<rparr>)" using f by simp
  show ?thesis
    by (rule alone_step [OF 1], rule alone_step [OF 2], rule alone_step [OF 3], rule alone_step [OF 4]) simp
qed

section \<open>Whole methods on their own\<close>

lemma alone_data:
  assumes "cache_handles s" "sh_holder s = Map.empty" "data_transfer nb ep len data (view s, sh_world s) = (r, d, w)"
  obtains s' where "(alone nb t)\<^sup>*\<^sup>* (Begin (OpData ep len data), s) (Finished (GotData r), s')"
    "view s' = d" "sh_world s' = w" "sh_holder s' = sh_holder s"
proof (cases "endpoint_kind nb (view s) (sh_world s) ep" rule: resolved_cases)
  case (Failed e w0)
  with assms(3) alone_kind [of nb t ep len data s] show thesis
    by (intro that [of "s\<lparr>sh_world := w0\<rparr>"]) (auto simp: data_transfer_complete)
next
  case (Found nk w0)
  then obtain n k where nk: "endpoint_kind nb (view s) (sh_world s) ep = (Inr (n, k), w0)" by (cases nk) auto
  let ?s = "s\<lparr>sh_world := w0\<rparr>"
  have kind: "(alone nb t)\<^sup>*\<^sup>* (Begin (OpData ep len data), s) (Kind ep len data n k, ?s)"
    using alone_kind [of nb t ep len data s] nk by simp
  have ch: "cache_handles ?s" using assms(1) by (simp add: cache_handles_def)
  obtain r1 d1 w1 where e: "ensure_endpoint nb ep (n, k) (view ?s, sh_world ?s) = (r1, d1, w1)"
    by (cases "ensure_endpoint nb ep (n, k) (view ?s, sh_world ?s)") auto
  obtain s1 h where s1: "(alone nb t)\<^sup>*\<^sup>* (Kind ep len data n k, ?s)
      (case r1 of Inl e \<Rightarrow> Finished (GotData (Inl e)) | Inr _ \<Rightarrow> WaitEp ep len data h, s1)"
    "view s1 = d1" "sh_world s1 = w1" "sh_holder s1 = sh_holder ?s"
    by (rule alone_endpoint [OF e ch])
  note run = rtranclp_trans [OF kind s1(1)]
  show thesis
  proof (cases r1)
    case (Inl x)
    with run nk e s1 assms(3) show thesis by (intro that [of s1]) (auto simp: data_transfer_complete)
  next
    case (Inr entry)
    obtain r2 w2 where c: "complete_transfer nb ep len data (sh_world s1) = (r2, w2)" by fastforce
    have "(alone nb t)\<^sup>*\<^sup>* (WaitEp ep len data h, s1) (Finished (GotData r2), s1\<lparr>sh_world := w2\<rparr>)"
      by (rule alone_transfer [OF _ c]) (simp add: s1(4) assms(2))
    with run Inr have "(alone nb t)\<^sup>*\<^sup>* (Begin (OpData ep len data), s) (Finished (GotData r2), s1\<lparr>sh_world := w2\<rparr>)"
      by simp
    with Inr nk e c s1(2-4) assms(3) show thesis
      by (intro that [of "s1\<lparr>sh_world := w2\<rparr>"]) (auto simp: data_transfer_complete)
  qed
qed

lemma alone_control:
  assumes "control_transfer nb setup data (view s, sh_world s) = (r, d, w)"
  obtains s' where "(alone nb t)\<^sup>*\<^sup>* (Begin (OpControl setup data), s) (Finished (GotControl r), s')"
    "view s' = d" "sh_world s' = w" "sh_holder s' = sh_holder s"
proof (cases "is_set_configuration setup")
  case True
  then show thesis by (rule alone_set_configuration [OF _ assms]) (rule that)
next
  case nc: False
  show thesis
  proof (cases "is_set_interface setup")
    case True
    then show thesis by (rule alone_set_interface [OF _ assms]) (rule that)
  next
    case False
    with nc assms have "thread_step nb t (Begin (OpControl setup data)) s = Some (Finished (GotControl r), s\<lparr>sh_world := w\<rparr>)"
      "view s = d" by (auto simp: control_transfer_plain split: prod.splits)
    then show thesis by (intro that [of "s\<lparr>sh_world := w\<rparr>"]) (auto simp: alone_def)
  qed
qed

lemma alone_cancel:
  assumes "sh_holder s = Map.empty" "cancel_endpoint nb ep (view s, sh_world s) = (d, w)"
  obtains s' where "(alone nb t)\<^sup>*\<^sup>* (Begin (OpCancel ep), s) (Finished CancelDone, s')"
    "view s' = d" "sh_world s' = w" "sh_holder s' = sh_holder s"
proof (cases "sh_cache s ep")
  case None
  with assms show thesis by (intro that [of s]) (auto simp: cancel_endpoint_def alone_def)
next
  case (Some h)
  let ?s1 = "s\<lparr>sh_world := nb_cancel_all nb ep (sh_world s)\<rparr>"
  have 1: "thread_step nb t (Begin (OpCancel ep)) s = Some (WaitCancel ep h, s)" using Some by simp
  have 2: "thread_step nb t (WaitCancel ep h) s = Some (Finished CancelDone, ?s1)" using assms(1) by simp
  have "(alone nb t)\<^sup>*\<^sup>* (Begin (OpCancel ep), s) (Finished CancelDone, ?s1)"
    by (rule alone_step [OF 1], rule alone_step [OF 2]) simp
  with Some assms(2) show thesis by (intro that [of ?s1]) (auto simp: cancel_endpoint_def)
qed

lemma alone_any:
  assumes "cache_handles s" "sh_holder s = Map.empty" "atomic nb op (view s, sh_world s) = (r, d, w)"
  obtains s' where "(alone nb t)\<^sup>*\<^sup>* (Begin op, s) (Finished r, s')"
    "view s' = d" "sh_world s' = w" "sh_holder s' = sh_holder s"
proof (cases op)
  case (OpData ep len data)
  then obtain r' where "r = GotData r'" "data_transfer nb ep len data (view s, sh_world s) = (r', d, w)"
    using assms(3) by (auto split: prod.splits)
  with OpData show thesis using alone_data [OF assms(1,2)] that by metis
next
  case (OpControl req data)
  then obtain r' where "r = GotControl r'" "control_transfer nb req data (view s, sh_world s) = (r', d, w)"
    using assms(3) by (auto split: prod.splits)
  with OpControl show thesis using alone_control that by metis
next
  case (OpCancel ep)
  then have "r = CancelDone" "cancel_endpoint nb ep (view s, sh_world s) = (d, w)" using assms(3) by auto
  with OpCancel show thesis using alone_cancel [OF assms(2)] that by metis
qed

section \<open>Properties\<close>

definition sample_shared :: "unit shared" where
  "sample_shared = \<lparr>sh_base = sample_device, sh_interfaces = {0}, sh_alts = Map.empty, sh_cache = Map.empty,
     sh_handles = [], sh_holder = Map.empty, sh_world = ()\<rparr>"

lemma sample_shared_ok: "cache_handles sample_shared" "sh_holder sample_shared = Map.empty"
  by (simp_all add: sample_shared_def cache_handles_def)

text \<open>
  C16: A method that no other thread disturbs is its atomic model. Run on its own, from any consistent
  state with no endpoint in use, a transfer, control request or cancellation finishes within twelve
  critical sections and calls into the stack, with the answer, the caches and the state of the USB
  stack that the atomic definition of the method gives.
\<close>

theorem alone_is_atomic:
  assumes "cache_handles s" "sh_holder s = Map.empty" "atomic nb op (view s, sh_world s) = (r, d, w)"
  shows "\<exists>s'. run_alone 12 nb t (Begin op, s) = (Finished r, s') \<and> view s' = d \<and> sh_world s' = w \<and>
    sh_holder s' = Map.empty"
proof -
  obtain s' where s': "(alone nb t)\<^sup>*\<^sup>* (Begin op, s) (Finished r, s')"
    "view s' = d" "sh_world s' = w" "sh_holder s' = sh_holder s"
    by (rule alone_any [OF assms])
  from alone_run [OF s'(1), of 12] s'(2-4) assms(2) show ?thesis by simp
qed

theorem alone_is_atomic_witness:
  "\<exists>s'. run_alone 12 sample_nusb 0 (Begin (OpControl sample_set_interface []), sample_shared) =
     (Finished (GotControl (Inr [])), s') \<and> od_alt_settings (view s') 0 = Some 1"
proof -
  have "atomic sample_nusb (OpControl sample_set_interface []) (view sample_shared, sh_world sample_shared) =
      (GotControl (Inr []), (view sample_shared)\<lparr>od_alt_settings := [0 \<mapsto> 1]\<rparr>, ())"
    by (simp add: control_transfer_def ensure_interface_def sample_set_interface_def sample_nusb_def sample_shared_def
      setup_from_bytes_def from_le_bytes16_def from_be_bytes16_def is_set_configuration_def view_def
      is_set_interface_def setup_is_in_def sample_device_def invalidate_interface_endpoints_def)
  from alone_is_atomic [OF sample_shared_ok this, of 0] show ?thesis
    by (auto simp del: view_simps intro: exI)
qed

text \<open>
  Three calls at once on an endpoint that is not open yet: two transfers, which both open it, and a
  cancellation, which comes while the first transfer is in flight.
\<close>

definition sample_calls :: "nat \<rightharpoonup> pc" where
  "sample_calls = [0 \<mapsto> Begin (OpData 0x81 8 []), 1 \<mapsto> Begin (OpData 0x81 8 []), 2 \<mapsto> Begin (OpCancel 0x81)]"

definition sample_contended :: "unit shared" where
  "sample_contended = sample_shared\<lparr>sh_cache := [0x81 \<mapsto> 0],
     sh_handles := [\<lparr>eh_addr = 0x81, eh_entry = \<lparr>ee_iface_num = 0, ee_kind = Interrupt\<rparr>\<rparr>], sh_holder := [0 \<mapsto> 0]\<rparr>"

lemma sample_calls_start: "dev_start (sample_shared, sample_calls)"
  "\<forall>t p. sample_calls t = Some p \<longrightarrow> \<not> reconfigures p"
  using sample_shared_ok by (auto simp: dev_start_def sample_calls_def split: if_splits)

lemma sample_kind: "endpoint_kind sample_nusb (view sample_shared) () 0x81 = (Inr (0, Interrupt), ())"
  by (simp add: endpoint_kind_def active_alt_def sample_nusb_def sample_configuration_def sample_shared_def)

lemma sample_opened:
  "(alone sample_nusb t)\<^sup>*\<^sup>* (Begin (OpData 0x81 8 []), sample_shared) (KeepEp 0x81 8 [] 0 Interrupt, sample_shared)"
  using alone_opened [of sample_nusb sample_shared "0x81" 0 Interrupt "()" "()" "()" t 8 "[]"] sample_kind
  by (simp add: sample_shared_def sample_nusb_def)

lemma sample_contention:
  "(dev_step sample_nusb)\<^sup>*\<^sup>* (sample_shared, sample_calls)
     (sample_contended, [0 \<mapsto> InTransfer 0x81 8 [] 0, 1 \<mapsto> WaitEp 0x81 8 [] 0, 2 \<mapsto> WaitCancel 0x81 0])"
proof -
  let ?c1 = "sample_calls(0 \<mapsto> KeepEp 0x81 8 [] 0 Interrupt)"
  let ?c2 = "?c1(1 \<mapsto> KeepEp 0x81 8 [] 0 Interrupt)"
  let ?c3 = "?c2(0 \<mapsto> InTransfer 0x81 8 [] 0)"
  let ?c4 = "?c3(1 \<mapsto> WaitEp 0x81 8 [] 0)"
  have r1: "(dev_step sample_nusb)\<^sup>*\<^sup>* (sample_shared, sample_calls) (sample_shared, ?c1)"
    by (rule alone_lift [OF sample_opened]) (simp add: sample_calls_def)
  have r2: "(dev_step sample_nusb)\<^sup>*\<^sup>* (sample_shared, ?c1) (sample_shared, ?c2)"
    by (rule alone_lift [OF sample_opened]) (simp add: sample_calls_def)
  have k: "thread_step sample_nusb 0 (KeepEp 0x81 8 [] 0 Interrupt) sample_shared =
      Some (WaitEp 0x81 8 [] 0, sample_contended\<lparr>sh_holder := Map.empty\<rparr>)"
    by (simp add: insert_endpoint_def sample_shared_def sample_contended_def)
  have h: "thread_step sample_nusb 0 (WaitEp 0x81 8 [] 0) (sample_contended\<lparr>sh_holder := Map.empty\<rparr>) =
      Some (InTransfer 0x81 8 [] 0, sample_contended)"
    by (simp add: sample_contended_def)
  have "(alone sample_nusb 0)\<^sup>*\<^sup>* (KeepEp 0x81 8 [] 0 Interrupt, sample_shared) (InTransfer 0x81 8 [] 0, sample_contended)"
    by (rule alone_step [OF k], rule alone_step [OF h]) simp
  then have r3: "(dev_step sample_nusb)\<^sup>*\<^sup>* (sample_shared, ?c2) (sample_contended, ?c3)"
    by (rule alone_lift) simp
  have r4: "(dev_step sample_nusb)\<^sup>*\<^sup>* (sample_contended, ?c3) (sample_contended, ?c4)"
    by (rule r_into_rtranclp, rule Thread [of _ 1 "KeepEp 0x81 8 [] 0 Interrupt"]) (simp_all add: insert_endpoint_def sample_contended_def)
  have r5: "(dev_step sample_nusb)\<^sup>*\<^sup>* (sample_contended, ?c4) (sample_contended, ?c4(2 \<mapsto> WaitCancel 0x81 0))"
    by (rule r_into_rtranclp, rule Thread [of _ 2 "Begin (OpCancel 0x81)"]) (simp_all add: sample_contended_def sample_calls_def)
  have eq: "?c4(2 \<mapsto> WaitCancel 0x81 0) = [0 \<mapsto> InTransfer 0x81 8 [] 0, 1 \<mapsto> WaitEp 0x81 8 [] 0, 2 \<mapsto> WaitCancel 0x81 0]"
    by (simp add: sample_calls_def fun_eq_iff)
  show ?thesis
    unfolding eq [symmetric]
    by (rule rtranclp_trans [OF r1], rule rtranclp_trans [OF r2], rule rtranclp_trans [OF r3],
      rule rtranclp_trans [OF r4], rule r5)
qed

text \<open>
  C17: Concurrent calls on a device complete. Whatever finite set of transfers, control requests and
  cancellations runs at once, and in whatever order the threads take their steps, there is no
  infinite run and no deadlock: a state in which no thread can go on is one in which every call has
  returned and every endpoint mutex is free, and such a state can be reached from everywhere.
\<close>

theorem concurrent_calls_complete:
  assumes "dev_start x" "(dev_step nb)\<^sup>*\<^sup>* x y"
  shows "(\<forall>f. f 0 = x \<longrightarrow> (\<exists>n. \<not> dev_step nb (f n) (f (Suc n)))) \<and>
    ((\<nexists>z. dev_step nb y z) \<longrightarrow> calls_done y) \<and> (\<exists>z. (dev_step nb)\<^sup>*\<^sup>* y z \<and> calls_done z)"
proof (intro conjI allI impI)
  fix f :: "nat \<Rightarrow> 'a threads" assume "f 0 = x"
  then show "\<exists>n. \<not> dev_step nb (f n) (f (Suc n))" using thr.no_infinite_run [of f nb] assms(1) by simp
next
  assume "\<nexists>z. dev_step nb y z"
  then show "calls_done y" by (rule thr.stuck_reachable_quiet [OF assms])
next
  show "\<exists>z. (dev_step nb)\<^sup>*\<^sup>* y z \<and> calls_done z"
    using thr.reaches_quiet [OF thr.invar_reachable [OF assms]] by blast
qed

theorem concurrent_calls_complete_witness:
  "\<exists>z. (dev_step sample_nusb)\<^sup>*\<^sup>* (sample_contended, [0 \<mapsto> InTransfer 0x81 8 [] 0, 1 \<mapsto> WaitEp 0x81 8 [] 0,
     2 \<mapsto> WaitCancel 0x81 0]) z \<and> calls_done z"
  using concurrent_calls_complete [OF sample_calls_start(1) sample_contention] by blast

text \<open>
  C18: Transfers on one endpoint are serialised. As long as the calls that run at once do not
  reconfigure the device, all of them that work on an endpoint use the handle in the cache, also when
  several of them opened the endpoint at the same time, so at most one transfer per endpoint
  address is in flight.
\<close>

theorem transfers_serialised:
  assumes "dev_start (s0, ths0)" "\<forall>t p. ths0 t = Some p \<longrightarrow> \<not> reconfigures p"
    and "(dev_step nb)\<^sup>*\<^sup>* (s0, ths0) (s, ths)"
  shows "(\<forall>t p h. ths t = Some p \<and> uses p = Some (ep, h) \<longrightarrow> sh_cache s ep = Some h) \<and>
    card {t. \<exists>len data h. ths t = Some (InTransfer ep len data h)} \<le> 1"
proof -
  have "shares_handles (s, ths)" using assms by (intro shr.invar_reachable [OF _ assms(3)]) simp
  then have c: "sh_cache s ep = Some h" if "ths t = Some p" "uses p = Some (ep, h)" for t p h
    using that by (auto simp: shares_handles_def)
  have i: "dev_invar (s, ths)" by (rule thr.invar_reachable [OF assms(1,3)])
  have "t = u" if "ths t = Some (InTransfer ep len data h)" "ths u = Some (InTransfer ep len' data' h')" for t u len data h len' data' h'
  proof -
    from c [OF that(1)] c [OF that(2)] have "h = h'" by simp
    moreover have "sh_holder s h = Some t" "sh_holder s h' = Some u"
      using that i unfolding dev_invar_def by fastforce+
    ultimately show ?thesis by simp
  qed
  then have "card {t. \<exists>len data h. ths t = Some (InTransfer ep len data h)} \<le> Suc 0"
    by (subst card_le_Suc0_iff_eq) (use i in \<open>auto simp: dev_invar_def intro: finite_subset [of _ "dom ths"]\<close>)
  with c show ?thesis by auto
qed

theorem transfers_serialised_witness:
  "\<exists>s ths. (dev_step sample_nusb)\<^sup>*\<^sup>* (sample_shared, sample_calls) (s, ths) \<and>
     ths 0 = Some (InTransfer 0x81 8 [] 0) \<and> ths 1 = Some (WaitEp 0x81 8 [] 0) \<and>
     card {t. \<exists>len data h. ths t = Some (InTransfer 0x81 len data h)} \<le> 1"
  using transfers_serialised [OF sample_calls_start sample_contention, of "0x81"] sample_contention
  by (intro exI conjI) (assumption, simp, simp, blast)

text \<open>
  C37: A cancellation never interrupts a transfer. While a transfer is in flight on the endpoint that a
  cancellation has looked up, the cancellation cannot go on, and the transfer completes by a step of
  its own that does not depend on it: \<^verbatim>\<open>cancel_all\<close> is only called once there is nothing to cancel.
\<close>

theorem cancel_waits_for_transfer:
  assumes "dev_start x" "(dev_step nb)\<^sup>*\<^sup>* x (s, ths)"
    and "ths c = Some (WaitCancel ep h)" "ths t = Some (InTransfer ep' len data h)"
  shows "thread_step nb c (WaitCancel ep h) s = None \<and> ep' = ep \<and>
    (\<exists>s'. thread_step nb t (InTransfer ep' len data h) s =
       Some (Finished (GotData (fst (complete_transfer nb ep' len data (sh_world s)))), s') \<and>
     thread_step nb c (WaitCancel ep h) s' =
       Some (Finished CancelDone, s'\<lparr>sh_world := nb_cancel_all nb ep (sh_world s')\<rparr>))"
proof -
  have i: "dev_invar (s, ths)" by (rule thr.invar_reachable [OF assms(1,2)])
  then have "sh_holder s h = Some t" using assms(4) unfolding dev_invar_def by fastforce
  moreover have "handle_ok s (WaitCancel ep h)" "handle_ok s (InTransfer ep' len data h)"
    using i assms(3,4) by (auto simp: dev_invar_def)
  ultimately show ?thesis by (auto simp: handle_ok_def split: prod.split)
qed

theorem cancel_waits_for_transfer_witness:
  "thread_step sample_nusb 2 (WaitCancel 0x81 0) sample_contended = None"
  using cancel_waits_for_transfer [OF sample_calls_start(1) sample_contention, of 2 "0x81" 0 0 "0x81" 8 "[]"]
  by simp

text \<open>
  What reconfiguration adds. On a stack that lets the alternate setting change while an
  endpoint of the former one is open, reconfiguration races with the opening of endpoints: a
  transfer that has opened its endpoint under the old setting puts it into the cache after
  \<^verbatim>\<open>SET_INTERFACE\<close> has removed the endpoints of the interface; both calls succeed, and the cache
  holds an endpoint that is not the one the new setting prescribes. The code itself orders the two
  in no way; that this does not happen rests on the stack refusing the change.
\<close>

theorem stale_endpoint_race:
  assumes "cache_handles s" "sh_holder s = Map.empty" "sh_cache s ep = None" "n \<in> sh_interfaces s"
    and "endpoint_kind nb (view s) (sh_world s) ep = (Inr (n, k), w0)" "nb_endpoint nb n k ep w0 = (Inr u, w1)"
    and "is_set_interface req" "ucast (w_index req AND 0xFF) = n" "ucast (w_value req AND 0xFF) = alt"
    and "nb_set_alt_setting nb n alt (snd (nb_clear_halt nb ep w1)) = (Inr v, w2)"
    and "\<And>w. fst (endpoint_kind nb ((view s)\<lparr>od_alt_settings := (sh_alts s)(n \<mapsto> alt)\<rparr>) w ep) \<noteq> Inr (n, k)"
  shows "\<exists>s' r. (dev_step nb)\<^sup>*\<^sup>* (s, [0 \<mapsto> Begin (OpData ep len data), 1 \<mapsto> Begin (OpControl req out)])
      (s', [0 \<mapsto> Finished (GotData r), 1 \<mapsto> Finished (GotControl (Inr []))]) \<and>
    od_alt_settings (view s') n = Some alt \<and> od_endpoints (view s') ep = Some \<lparr>ee_iface_num = n, ee_kind = k\<rparr> \<and>
    fst (endpoint_kind nb (view s') (sh_world s') ep) \<noteq> Inr (n, k)"
proof -
  let ?s1 = "s\<lparr>sh_world := snd (nb_clear_halt nb ep w1)\<rparr>"
  let ?s2 = "(retain_others n ?s1)\<lparr>sh_world := w2, sh_alts := (sh_alts s)(n \<mapsto> alt)\<rparr>"
  let ?b = "[0 \<mapsto> Begin (OpData ep len data), 1 \<mapsto> Begin (OpControl req out)] :: nat \<rightharpoonup> pc"
  have 1: "(alone nb 0)\<^sup>*\<^sup>* (Begin (OpData ep len data), s) (KeepEp ep len data n k, ?s1)"
    by (rule alone_opened [OF assms(5,3,4,6)])
  have 2: "(alone nb 1)\<^sup>*\<^sup>* (Begin (OpControl req out), ?s1) (Finished (GotControl (Inr [])), ?s2)"
    using alone_switch [OF assms(7-9), of ?s1 nb v w2 1 out] assms(4,10) by simp
  have c: "cache_handles ?s2" "sh_cache ?s2 ep = None" "sh_holder ?s2 = Map.empty"
    using assms(1-3) by (auto simp: retain_others_def cache_handles_def split: option.splits if_splits)
  obtain s' r where 3: "(alone nb 0)\<^sup>*\<^sup>* (KeepEp ep len data n k, ?s2) (Finished (GotData r), s')"
    and v: "view s' = (view ?s2)\<lparr>od_endpoints := (od_endpoints (view ?s2))(ep \<mapsto> \<lparr>ee_iface_num = n, ee_kind = k\<rparr>)\<rparr>"
    by (rule alone_keep [OF c])
  let ?b1 = "?b(0 \<mapsto> KeepEp ep len data n k)"
  let ?b2 = "?b1(1 \<mapsto> Finished (GotControl (Inr [])))"
  have "(dev_step nb)\<^sup>*\<^sup>* (s, ?b) (?s1, ?b1)" by (rule alone_lift [OF 1]) simp
  moreover have "(dev_step nb)\<^sup>*\<^sup>* (?s1, ?b1) (?s2, ?b2)" by (rule alone_lift [OF 2]) simp
  moreover have "(dev_step nb)\<^sup>*\<^sup>* (?s2, ?b2) (s', ?b2(0 \<mapsto> Finished (GotData r)))" by (rule alone_lift [OF 3]) simp
  moreover have "?b2(0 \<mapsto> Finished (GotData r)) = [0 \<mapsto> Finished (GotData r), 1 \<mapsto> Finished (GotControl (Inr []))]"
    by (simp add: fun_eq_iff)
  ultimately have "(dev_step nb)\<^sup>*\<^sup>* (s, ?b) (s', [0 \<mapsto> Finished (GotData r), 1 \<mapsto> Finished (GotControl (Inr []))])"
    by (simp only: rtranclp_trans [of "dev_step nb"])
  moreover have a: "od_alt_settings (view s') = (sh_alts s)(n \<mapsto> alt)" by (simp only: v) simp
  moreover have "endpoint_kind nb (view s') (sh_world s') ep =
      endpoint_kind nb ((view s)\<lparr>od_alt_settings := (sh_alts s)(n \<mapsto> alt)\<rparr>) (sh_world s') ep"
    using a by (intro endpoint_kind_alts) simp
  moreover have "od_endpoints (view s') ep = Some \<lparr>ee_iface_num = n, ee_kind = k\<rparr>" by (simp only: v) simp
  ultimately show ?thesis using assms(11) by (intro exI [of _ s'] exI [of _ r]) simp
qed

lemma sample_kind_alt:
  "endpoint_kind sample_nusb ((view sample_shared)\<lparr>od_alt_settings := [0 \<mapsto> 1]\<rparr>) w 0x81 = (Inr (0, Bulk), w)"
  by (simp add: endpoint_kind_def active_alt_def sample_nusb_def sample_configuration_def sample_shared_def)

theorem stale_endpoint_race_witness:
  "\<exists>s' r. (dev_step sample_nusb)\<^sup>*\<^sup>* (sample_shared, [0 \<mapsto> Begin (OpData 0x81 8 []),
       1 \<mapsto> Begin (OpControl sample_set_interface [])])
      (s', [0 \<mapsto> Finished (GotData r), 1 \<mapsto> Finished (GotControl (Inr []))]) \<and>
    od_alt_settings (view s') 0 = Some 1 \<and>
    od_endpoints (view s') 0x81 = Some \<lparr>ee_iface_num = 0, ee_kind = Interrupt\<rparr> \<and>
    fst (endpoint_kind sample_nusb (view s') (sh_world s') 0x81) \<noteq> Inr (0, Interrupt)"
  by (rule stale_endpoint_race [OF sample_shared_ok, where u = "()" and v = "()" and ?w0.0 = "()" and ?w1.0 = "()" and ?w2.0 = "()"])
    (use sample_kind sample_kind_alt sample_set_interface_fields in
      \<open>simp_all add: sample_shared_def sample_nusb_def\<close>)

end
