(* ===== verification/Thread_Coherence.thy ===== *)
theory Thread_Coherence
  imports Device_Threads
begin

text \<open>
  The endpoint cache stays transparent under concurrency. Cache coherence is proved of the atomic
  methods elsewhere; here it is carried over to threads that interleave between resolving an
  endpoint, opening it and entering it into the cache, as long as none of them reconfigures the
  device. The invariant says of a thread in between that what it has resolved is still what fresh
  resolution would give.
\<close>

section \<open>What a thread has resolved\<close>

fun cont_resolved :: "u8 \<Rightarrow> cont \<Rightarrow> (u8 \<times> u8 \<times> ep_kind) option" where
  "cont_resolved n (ForEndpoint ep len data k) = Some (ep, n, k)"
| "cont_resolved n (ForAlt alt) = None"

fun resolved :: "pc \<Rightarrow> (u8 \<times> u8 \<times> ep_kind) option" where
  "resolved (Kind ep len data n k) = Some (ep, n, k)"
| "resolved (Iface n c) = cont_resolved n c"
| "resolved (Claim n c) = cont_resolved n c"
| "resolved (Alt0 n c) = cont_resolved n c"
| "resolved (KeepIface n c) = cont_resolved n c"
| "resolved (HaveIface n c) = cont_resolved n c"
| "resolved (Halt ep len data n k) = Some (ep, n, k)"
| "resolved (KeepEp ep len data n k) = Some (ep, n, k)"
| "resolved _ = None"

fun read_config :: "pc \<Rightarrow> configuration option option" where
  "read_config (Config ep len data cfg) = Some cfg"
| "read_config _ = None"

text \<open>The thread's view of the descriptors is current.\<close>

definition thread_current :: "'w nusb \<Rightarrow> 'w shared \<Rightarrow> pc \<Rightarrow> bool" where
  "thread_current nb s p \<longleftrightarrow>
     (\<forall>ep n k. resolved p = Some (ep, n, k) \<longrightarrow> fst (endpoint_kind nb (view s) (sh_world s) ep) = Inr (n, k)) \<and>
     (\<forall>cfg. read_config p = Some cfg \<longrightarrow> cfg = nb_active_configuration nb (sh_world s))"

text \<open>Two states in which every endpoint resolves alike.\<close>

definition same_descriptors :: "'w nusb \<Rightarrow> 'w shared \<Rightarrow> 'w shared \<Rightarrow> bool" where
  "same_descriptors nb s s' \<longleftrightarrow> sh_alts s' = sh_alts s \<and>
     nb_active_configuration nb (sh_world s') = nb_active_configuration nb (sh_world s)"

lemma same_descriptors_refl [simp]: "same_descriptors nb s s"
  by (simp add: same_descriptors_def)

lemma same_descriptors_trans [trans]:
  "same_descriptors nb s s' \<Longrightarrow> same_descriptors nb s' s'' \<Longrightarrow> same_descriptors nb s s''"
  by (simp add: same_descriptors_def)

lemma same_descriptors_kind:
  "stack_contract nb \<Longrightarrow> same_descriptors nb s s' \<Longrightarrow>
   fst (endpoint_kind nb (view s') (sh_world s') ep) = fst (endpoint_kind nb (view s) (sh_world s) ep)"
  by (intro endpoint_kind_cong) (simp_all add: same_descriptors_def)

lemma thread_current_cong:
  "stack_contract nb \<Longrightarrow> same_descriptors nb s s' \<Longrightarrow> thread_current nb s' p = thread_current nb s p"
  by (auto simp: thread_current_def same_descriptors_kind) (auto simp: same_descriptors_def)

section \<open>Steps\<close>

lemma complete_transfer_config:
  "config_stable nb \<Longrightarrow>
   nb_active_configuration nb (snd (complete_transfer nb ep len data w)) = nb_active_configuration nb w"
  by (auto simp: complete_transfer_def config_stable_def Let_def split: prod.splits sum.splits) (metis snd_conv)+

lemma plain_control_config:
  "config_stable nb \<Longrightarrow>
   nb_active_configuration nb (snd (plain_control nb req data w)) = nb_active_configuration nb w"
  by (auto simp: plain_control_def config_stable_def Let_def split: prod.splits sum.splits) (metis snd_conv)+

lemma config_stable_eqs:
  assumes "config_stable nb"
  shows "nb_claim_interface nb n w = (r, w') \<Longrightarrow> nb_active_configuration nb w' = nb_active_configuration nb w"
    "nb_endpoint nb n k ep w = (r', w') \<Longrightarrow> nb_active_configuration nb w' = nb_active_configuration nb w"
    "complete_transfer nb ep len data w = (r'', w') \<Longrightarrow> nb_active_configuration nb w' = nb_active_configuration nb w"
    "plain_control nb req data w = (r3, w') \<Longrightarrow> nb_active_configuration nb w' = nb_active_configuration nb w"
    "nb_active_configuration nb (snd (nb_set_alt_setting nb n a w)) = nb_active_configuration nb w"
    "nb_active_configuration nb (snd (nb_clear_halt nb ep w)) = nb_active_configuration nb w"
    "nb_active_configuration nb (nb_cancel_all nb ep w) = nb_active_configuration nb w"
    "nb_order nb ns w = (os, w') \<Longrightarrow> nb_active_configuration nb w' = nb_active_configuration nb w"
  using assms complete_transfer_config [OF assms, of ep len data w] plain_control_config [OF assms, of req data w]
  by (auto simp: config_stable_def) (metis snd_conv)+

lemma step_descriptors:
  assumes "config_stable nb" "thread_step nb t p s = Some (p', s')" "\<not> reconfigures p"
  shows "same_descriptors nb s s'"
  using assms(2,3)
  by (cases "(nb, t, p, s)" rule: thread_step.cases)
    (auto simp: same_descriptors_def Let_def insert_endpoint_def config_stable_eqs [OF assms(1)]
      split: if_splits prod.splits sum.splits option.splits)

lemma cont_give_up [simp]: "resolved (give_up c e) = None" "read_config (give_up c e) = None"
  by (cases c; simp)+

lemma step_current:
  assumes "thread_step nb t p s = Some (p', s')" "\<not> reconfigures p" "thread_current nb s p"
  shows "thread_current nb s p'"
  using assms
  by (cases "(nb, t, p, s)" rule: thread_step.cases)
    (auto simp: thread_current_def Let_def endpoint_kind_def
      split: if_splits prod.splits sum.splits option.splits)

text \<open>A step adds to the cache at most what the thread has resolved.\<close>

lemma step_cached:
  assumes "thread_step nb t p s = Some (p', s')" "\<not> reconfigures p" "cache_handles s"
    and "od_endpoints (view s') ep = Some e"
  shows "od_endpoints (view s) ep = Some e \<or> resolved p = Some (ep, ee_iface_num e, ee_kind e)"
  using assms
  by (cases "(nb, t, p, s)" rule: thread_step.cases)
    (auto simp: Let_def insert_endpoint_def cache_handles_def nth_append
      split: if_splits prod.splits sum.splits option.splits)

section \<open>The invariant\<close>

definition threads_coherent :: "'w nusb \<Rightarrow> 'w shared \<Rightarrow> 'w threads \<Rightarrow> bool" where
  "threads_coherent nb s0 x \<longleftrightarrow> (case x of (s, ths) \<Rightarrow>
     dev_invar x \<and> shares_handles x \<and> stack_contract nb \<and> same_descriptors nb s0 s \<and>
     coherent nb (view s) (sh_world s) \<and> (\<forall>t p. ths t = Some p \<longrightarrow> thread_current nb s p))"

lemma threads_coherent_step:
  assumes "threads_coherent nb s0 (s, ths)" "ths t = Some p" "thread_step nb t p s = Some (p', s')"
  shows "threads_coherent nb s0 (s', ths(t \<mapsto> p'))"
proof -
  have x: "dev_invar (s, ths)" "shares_handles (s, ths)" "stack_contract nb" "same_descriptors nb s0 s"
    "coherent nb (view s) (sh_world s)" "\<And>t p. ths t = Some p \<Longrightarrow> thread_current nb s p"
    using assms(1) by (auto simp: threads_coherent_def)
  have p: "\<not> reconfigures p" "cache_handles s"
    using x(1,2) assms(2) by (auto simp: shares_handles_def dev_invar_def)
  have step: "dev_step nb (s, ths) (s', ths(t \<mapsto> p'))" using assms(2,3) by (rule Thread)
  have st: "config_stable nb" using x(3) by (simp add: stack_contract_def)
  note d = step_descriptors [OF st assms(3) p(1)]
  have "coherent nb (view s') (sh_world s')"
  proof (rule coherent_cong [OF x(3,5)])
    fix ep e assume "od_endpoints (view s') ep = Some e"
    from step_cached [OF assms(3) p this] x(6) [OF assms(2)]
    show "od_endpoints (view s) ep = Some e \<or>
        fst (endpoint_kind nb (view s) (sh_world s) ep) = Inr (ee_iface_num e, ee_kind e)"
      by (auto simp: thread_current_def)
  qed (use d in \<open>simp_all add: same_descriptors_def\<close>)
  moreover have "thread_current nb s' q" if "(ths(t \<mapsto> p')) u = Some q" for u q
    using that x(6) step_current [OF assms(3) p(1) x(6) [OF assms(2)]]
    by (auto simp: thread_current_cong [OF x(3) d] split: if_splits)
  ultimately show ?thesis
    using thr.invar_trans [OF x(1) step] shr.invar_trans [OF x(2) step] x(3) same_descriptors_trans [OF x(4) d]
    by (simp add: threads_coherent_def)
qed

interpretation tco: safe_system
  "\<lambda>x. dev_start x \<and> (\<forall>t p. snd x t = Some p \<longrightarrow> \<not> reconfigures p) \<and> fst x = s0 \<and> stack_contract nb \<and>
     coherent nb (view s0) (sh_world s0)"
  "dev_step nb" "threads_coherent nb s0" for nb s0
proof unfold_locales
  fix x :: "'a threads"
  assume x: "dev_start x \<and> (\<forall>t p. snd x t = Some p \<longrightarrow> \<not> reconfigures p) \<and> fst x = s0 \<and> stack_contract nb \<and>
     coherent nb (view s0) (sh_world s0)"
  then have "thread_current nb s0 p" if "snd x t = Some p" for t p
    using that by (fastforce simp: dev_start_def thread_current_def)
  with x thr.invar_init [of x] shr.invar_init [of x] show "threads_coherent nb s0 x"
    by (auto simp: threads_coherent_def split: prod.split)
next
  fix x y :: "'a threads"
  assume "threads_coherent nb s0 x" "dev_step nb x y"
  then show "threads_coherent nb s0 y" by (cases x) (auto elim!: dev_stepE intro: threads_coherent_step)
qed

text \<open>
  C19: The endpoint cache is transparent under concurrency. Start any calls that do not reconfigure the
  device on a device whose cache is coherent, on a stack whose active configuration changes only
  when it is set and in whose configurations no two interfaces share an endpoint address. In every
  interleaving, also when several threads open one endpoint at once, a thread that transfers on an
  endpoint, or is about to, holds a handle of exactly the interface and the transfer type to which
  the endpoint resolves, whatever iteration order a resolution draws, now as before the calls, and
  the cache stays coherent.
\<close>

theorem concurrent_cache_transparent:
  assumes "stack_contract nb" "coherent nb (view s0) (sh_world s0)"
    and "dev_start (s0, ths0)" "\<forall>t p. ths0 t = Some p \<longrightarrow> \<not> reconfigures p"
    and "(dev_step nb)\<^sup>*\<^sup>* (s0, ths0) (s, ths)"
    and "nb_active_configuration nb w = nb_active_configuration nb (sh_world s)"
  shows "coherent nb (view s) (sh_world s) \<and>
    (\<forall>t p h. ths t = Some p \<and> uses p = Some (ep, h) \<longrightarrow>
       fst (endpoint_kind nb (view s) w ep) =
         Inr (ee_iface_num (eh_entry (sh_handles s ! h)), ee_kind (eh_entry (sh_handles s ! h)))) \<and>
    fst (endpoint_kind nb (view s) w ep) = fst (endpoint_kind nb (view s0) (sh_world s0) ep)"
proof -
  have i: "threads_coherent nb s0 (s, ths)" using tco.invar_reachable [OF _ assms(5)] assms(1-4) by simp
  then have co: "coherent nb (view s) (sh_world s)" and d: "same_descriptors nb s0 s"
    and sh: "shares_handles (s, ths)" by (auto simp: threads_coherent_def)
  note w = endpoint_kind_cong [OF assms(1) refl assms(6), of "view s" ep]
  have "fst (endpoint_kind nb (view s) w ep) =
      Inr (ee_iface_num (eh_entry (sh_handles s ! h)), ee_kind (eh_entry (sh_handles s ! h)))"
    if "ths t = Some p" "uses p = Some (ep, h)" for t p h
    unfolding w using that sh co by (auto simp: shares_handles_def coherent_def)
  with co same_descriptors_kind [OF assms(1) d] w show ?thesis by metis
qed

theorem concurrent_cache_transparent_witness:
  "\<exists>s ths h. (dev_step sample_nusb)\<^sup>*\<^sup>* (sample_shared, sample_calls) (s, ths) \<and>
     ths 1 = Some (WaitEp 0x81 8 [] h) \<and> coherent sample_nusb (view s) (sh_world s) \<and>
     fst (endpoint_kind sample_nusb (view s) (sh_world s) 0x81) =
       Inr (ee_iface_num (eh_entry (sh_handles s ! h)), ee_kind (eh_entry (sh_handles s ! h)))"
proof -
  have "coherent sample_nusb (view sample_shared) (sh_world sample_shared)"
    by (simp add: coherent_def sample_shared_def)
  from concurrent_cache_transparent [OF sample_stack_contract this sample_calls_start sample_contention refl, of "0x81"]
  show ?thesis using sample_contention by (intro exI conjI) (assumption, simp, blast, force)
qed

end
