(* ===== verification/Events_Hub.thy ===== *)
theory Events_Hub
  imports Daemon_Session
begin

text \<open>
  The hotplug stream (\<^verbatim>\<open>usbipd/src/events.rs\<close>): event lines, the map from hotplug ids to announced
  devices, the hub with its snapshot, subscribers, and the concurrent run of publisher and accept
  loop as a step relation.

  Code outside the repository appears as follows. The broadcast channel of tokio is the sequence of
  values sent so far; a receiver is the position at which it subscribed, and \<open>delivers\<close> is the
  documented relation between the values sent after that position and what \<^verbatim>\<open>recv\<close> returns. The JSON
  printer is an argument. The hotplug watch of nusb is the sequence of its events. The values of a
  \<^verbatim>\<open>HashMap\<close> come in an order that is an argument.
\<close>

section \<open>Event lines\<close>

record added_device =
  ad_busid :: rstr
  ad_vendor_id :: rstr
  ad_product_id :: rstr
  ad_manufacturer :: "rstr option"
  ad_product :: "rstr option"
  ad_serial :: "rstr option"
  ad_class :: u8
  ad_subclass :: u8
  ad_protocol :: u8
  ad_speed :: u32

record removed_device =
  rm_busid :: rstr
  rm_vendor_id :: rstr
  rm_product_id :: rstr

datatype event_line = Added added_device | Removed removed_device

definition removed_from :: "added_device \<Rightarrow> removed_device" where
  "removed_from a =
     \<lparr>rm_busid = ad_busid a, rm_vendor_id = ad_vendor_id a, rm_product_id = ad_product_id a\<rparr>"

definition added_from_host :: "usb_device \<Rightarrow> added_device" where
  "added_from_host d =
     \<lparr>ad_busid = ud_busid d, ad_vendor_id = fmt_04x (ud_vendor_id d),
      ad_product_id = fmt_04x (ud_product_id d), ad_manufacturer = ud_manufacturer d,
      ad_product = ud_product d, ad_serial = ud_serial d, ad_class = ud_class d,
      ad_subclass = ud_subclass d, ad_protocol = ud_protocol d, ad_speed = ud_speed d\<rparr>"

definition encode_line :: "(event_line \<Rightarrow> rstr) \<Rightarrow> event_line \<Rightarrow> rstr" where
  "encode_line to_json ev = to_json ev @ [10]"

section \<open>Announced devices by hotplug id\<close>

record id_map =
  by_id :: "device_id \<rightharpoonup> removed_device"

definition id_map_new :: id_map where
  "id_map_new = \<lparr>by_id = Map.empty\<rparr>"

definition note_added :: "device_id \<Rightarrow> removed_device \<Rightarrow> id_map \<Rightarrow> id_map" where
  "note_added i dev m = m\<lparr>by_id := (by_id m)(i \<mapsto> dev)\<rparr>"

definition note_removed :: "device_id \<Rightarrow> id_map \<Rightarrow> removed_device option \<times> id_map" where
  "note_removed i m = (by_id m i, m\<lparr>by_id := (by_id m)(i := None)\<rparr>)"

section \<open>The hub\<close>

record hub =
  hb_snapshot :: "rstr \<rightharpoonup> added_device"
  hb_sent :: "event_line list"

definition hub_new :: hub where
  "hub_new = \<lparr>hb_snapshot = Map.empty, hb_sent = []\<rparr>"

text \<open>A publication has two parts: the update of the snapshot under its lock, and the send.\<close>

fun store :: "event_line \<Rightarrow> hub \<Rightarrow> hub" where
  "store (Added dev) h = h\<lparr>hb_snapshot := (hb_snapshot h)(ad_busid dev \<mapsto> dev)\<rparr>"
| "store (Removed dev) h = h\<lparr>hb_snapshot := (hb_snapshot h)(rm_busid dev := None)\<rparr>"

definition tx_send :: "event_line \<Rightarrow> hub \<Rightarrow> hub" where
  "tx_send ev h = h\<lparr>hb_sent := hb_sent h @ [ev]\<rparr>"

definition publish_added :: "added_device \<Rightarrow> hub \<Rightarrow> hub" where
  "publish_added dev h = tx_send (Added dev) (store (Added dev) h)"

definition publish_removed :: "removed_device \<Rightarrow> hub \<Rightarrow> hub" where
  "publish_removed dev h = tx_send (Removed dev) (store (Removed dev) h)"

text \<open>The snapshot in the iteration order \<open>order\<close> of its keys.\<close>

definition snapshot_added :: "rstr list \<Rightarrow> hub \<Rightarrow> event_line list" where
  "snapshot_added order h = map Added (List.map_filter (hb_snapshot h) order)"

definition subscribe :: "hub \<Rightarrow> nat" where
  "subscribe h = length (hb_sent h)"

section \<open>A subscriber\<close>

datatype recv_result = Got event_line | Closed | Lagged nat

definition write_line :: "(event_line \<Rightarrow> rstr) \<Rightarrow> event_line \<Rightarrow> writer \<Rightarrow> (io_kind + unit) \<times> writer" where
  "write_line to_json ev w = write_all (encode_line to_json ev) w"

fun replay :: "(event_line \<Rightarrow> rstr) \<Rightarrow> event_line list \<Rightarrow> writer \<Rightarrow> bool \<times> writer" where
  "replay to_json [] w = (True, w)"
| "replay to_json (ev # evs) w =
     (case write_line to_json ev w of
        (Inl _, w') \<Rightarrow> (False, w')
      | (Inr _, w') \<Rightarrow> replay to_json evs w')"

text \<open>The receive loop, as far as the results go; \<^const>\<open>None\<close> while it waits for the next one.\<close>

fun forward :: "(event_line \<Rightarrow> rstr) \<Rightarrow> recv_result list \<Rightarrow> writer \<Rightarrow> unit option \<times> writer" where
  "forward to_json [] w = (None, w)"
| "forward to_json (Got ev # rs) w =
     (case write_line to_json ev w of
        (Inl _, w') \<Rightarrow> (Some (), w')
      | (Inr _, w') \<Rightarrow> forward to_json rs w')"
| "forward to_json (Closed # rs) w = (Some (), w)"
| "forward to_json (Lagged n # rs) w = forward to_json rs w"

definition serve_subscriber ::
  "(event_line \<Rightarrow> rstr) \<Rightarrow> event_line list \<Rightarrow> recv_result list \<Rightarrow> writer \<Rightarrow> unit option \<times> writer" where
  "serve_subscriber to_json initial rs w =
     (case replay to_json initial w of
        (False, w') \<Rightarrow> (Some (), w')
      | (True, w') \<Rightarrow> forward to_json rs w')"

section \<open>The publisher\<close>

datatype watch_event = Connected device_info | Disconnected device_id

text \<open>What a hotplug event makes the publisher publish, with the updated id map.\<close>

definition announce :: "device_info \<Rightarrow> added_device" where
  "announce info = added_from_host (from_info info)"

fun publisher_event :: "watch_event \<Rightarrow> id_map \<Rightarrow> event_line option \<times> id_map" where
  "publisher_event (Connected info) m =
     (Some (Added (announce info)), note_added (di_id info) (removed_from (announce info)) m)"
| "publisher_event (Disconnected i) m =
     (case note_removed i m of (r, m') \<Rightarrow> (map_option Removed r, m'))"

fun publish :: "event_line \<Rightarrow> hub \<Rightarrow> hub" where
  "publish (Added dev) h = publish_added dev h"
| "publish (Removed dev) h = publish_removed dev h"

definition publisher_step :: "watch_event \<Rightarrow> id_map \<times> hub \<Rightarrow> id_map \<times> hub" where
  "publisher_step w s =
     (case publisher_event w (fst s) of
        (None, m') \<Rightarrow> (m', snd s)
      | (Some ev, m') \<Rightarrow> (m', publish ev (snd s)))"

section \<open>Start-up\<close>

text \<open>
  Binding the socket, starting the watch, and announcing the devices of the first listing, which
  is done exactly as for a \<^const>\<open>Connected\<close> event.
\<close>

record events_env =
  ev_lstat :: "rstr \<Rightarrow> bool option"
  ev_bind_ok :: bool
  ev_chmod_ok :: bool
  ev_watch_ok :: bool
  ev_listing :: listing

datatype events_error =
    EvNotASocket rstr
  | EvBindFailed
  | WatchFailed
  | ListFailed nusb_error

definition bind_listener :: "events_env \<Rightarrow> rstr \<Rightarrow> serve_action list \<times> (events_error + unit)" where
  "bind_listener env path =
     (if ev_lstat env path = Some False then ([], Inl (EvNotASocket path))
      else
        let stale = (if ev_lstat env path = Some True then [RemoveFile path (Some True)] else [])
        in if \<not> ev_bind_ok env then (stale @ [BindUnix path], Inl EvBindFailed)
           else (stale @ [BindUnix path, SetMode path SOCKET_MODE (ev_chmod_ok env)], Inr ()))"

definition seed :: "device_info list \<Rightarrow> id_map \<times> hub" where
  "seed infos = fold (\<lambda>info. publisher_step (Connected info)) infos (id_map_new, hub_new)"

definition events_setup ::
  "events_env \<Rightarrow> rstr \<Rightarrow> serve_action list \<times> (events_error + id_map \<times> hub)" where
  "events_setup env path =
     (case bind_listener env path of
        (acts, Inl e) \<Rightarrow> (acts, Inl e)
      | (acts, Inr _) \<Rightarrow>
          if \<not> ev_watch_ok env then (acts, Inl WatchFailed)
          else (case ev_listing env of
                  Inl e \<Rightarrow> (acts, Inl (ListFailed e))
                | Inr infos \<Rightarrow> (acts, Inr (seed infos))))"

section \<open>Publisher and accept loop together\<close>

text \<open>
  The publisher and the accept loop are two tasks that share the hub. \<open>es_publishing\<close> is an event
  whose snapshot update is done and whose send is not; \<open>es_accepting\<close> is the receiver of a
  connection for which the accept loop has subscribed and not yet taken the snapshot. A subscriber
  is its receiver with the events it replays first. \<open>es_socket\<close> says whether the socket file is still
  there. Aborting the publisher does not separate an
  update from its send: there is no await between them.
\<close>

record events_state =
  es_hub :: hub
  es_idmap :: id_map
  es_publishing :: "event_line option"
  es_accepting :: "nat option"
  es_subscribers :: "(nat \<times> event_line list) list"
  es_watching :: bool
  es_running :: bool
  es_socket :: bool

definition events_start :: "id_map \<times> hub \<Rightarrow> events_state" where
  "events_start s =
     \<lparr>es_hub = snd s, es_idmap = fst s, es_publishing = None, es_accepting = None,
      es_subscribers = [], es_watching = True, es_running = True, es_socket = True\<rparr>"

definition begin_publish :: "event_line \<Rightarrow> id_map \<Rightarrow> events_state \<Rightarrow> events_state" where
  "begin_publish ev m s = s\<lparr>es_idmap := m, es_hub := store ev (es_hub s), es_publishing := Some ev\<rparr>"

definition end_publish :: "event_line \<Rightarrow> events_state \<Rightarrow> events_state" where
  "end_publish ev s = s\<lparr>es_hub := tx_send ev (es_hub s), es_publishing := None\<rparr>"

definition begin_accept :: "events_state \<Rightarrow> events_state" where
  "begin_accept s = s\<lparr>es_accepting := Some (subscribe (es_hub s))\<rparr>"

definition spawn_subscriber :: "rstr list \<Rightarrow> nat \<Rightarrow> events_state \<Rightarrow> events_state" where
  "spawn_subscriber order rx s =
     s\<lparr>es_accepting := None,
       es_subscribers := es_subscribers s @ [(rx, snapshot_added order (es_hub s))]\<rparr>"

definition stop_events :: "events_state \<Rightarrow> events_state" where
  "stop_events s = s\<lparr>es_running := False, es_watching := False, es_socket := False\<rparr>"

inductive events_step :: "events_state \<Rightarrow> events_state \<Rightarrow> bool" where
  Watch: "es_watching s \<Longrightarrow> es_publishing s = None \<Longrightarrow> publisher_event w (es_idmap s) = (Some ev, m) \<Longrightarrow>
      events_step s (begin_publish ev m s)"
| WatchUnknown: "es_watching s \<Longrightarrow> es_publishing s = None \<Longrightarrow> publisher_event w (es_idmap s) = (None, m) \<Longrightarrow>
      events_step s (s\<lparr>es_idmap := m\<rparr>)"
| Send: "es_publishing s = Some ev \<Longrightarrow> events_step s (end_publish ev s)"
| WatchEnd: "es_watching s \<Longrightarrow> es_publishing s = None \<Longrightarrow> events_step s (s\<lparr>es_watching := False\<rparr>)"
| Accept: "es_running s \<Longrightarrow> es_accepting s = None \<Longrightarrow> events_step s (begin_accept s)"
| Snapshot: "es_accepting s = Some rx \<Longrightarrow> distinct order \<Longrightarrow> set order = dom (hb_snapshot (es_hub s)) \<Longrightarrow>
      events_step s (spawn_subscriber order rx s)"
| AcceptError: "es_running s \<Longrightarrow> es_accepting s = None \<Longrightarrow> events_step s s"
| Stop: "es_running s \<Longrightarrow> es_accepting s = None \<Longrightarrow> events_step s (stop_events s)"

section \<open>What a consumer makes of the lines\<close>

text \<open>The device set of a consumer that follows the documentation: \<open>added\<close> is idempotent.\<close>

fun apply_event :: "event_line \<Rightarrow> (rstr \<rightharpoonup> added_device) \<Rightarrow> (rstr \<rightharpoonup> added_device)" where
  "apply_event (Added a) m = m(ad_busid a \<mapsto> a)"
| "apply_event (Removed r) m = m(rm_busid r := None)"

definition view :: "event_line list \<Rightarrow> (rstr \<rightharpoonup> added_device)" where
  "view evs = fold apply_event evs Map.empty"

text \<open>
  What a receiver may return for the values sent since it subscribed: each in order, or a notice
  that some were skipped. Results that have not been asked for yet are missing at the end.
\<close>

fun delivers :: "event_line list \<Rightarrow> recv_result list \<Rightarrow> bool" where
  "delivers evs [] = True"
| "delivers evs (Got ev # rs) = (case evs of [] \<Rightarrow> False | e # es \<Rightarrow> e = ev \<and> delivers es rs)"
| "delivers evs (Closed # rs) = (evs = [] \<and> rs = [])"
| "delivers evs (Lagged n # rs) = (0 < n \<and> n \<le> length evs \<and> delivers (drop n evs) rs)"

fun event_busid :: "event_line \<Rightarrow> rstr" where
  "event_busid (Added a) = ad_busid a"
| "event_busid (Removed r) = rm_busid r"

lemma apply_event_other: "event_busid ev \<noteq> b \<Longrightarrow> apply_event ev m b = m b"
  by (cases ev) auto

lemma apply_event_same: "event_busid ev = b \<Longrightarrow> apply_event ev m b = apply_event ev m' b"
  by (cases ev) auto

lemma fold_apply_untouched: "b \<notin> event_busid ` set evs \<Longrightarrow> fold apply_event evs m b = m b"
  by (induction evs arbitrary: m) (auto simp: apply_event_other)

lemma fold_apply_touched:
  "b \<in> event_busid ` set evs \<Longrightarrow> fold apply_event evs m b = fold apply_event evs m' b"
proof (induction evs rule: rev_induct)
  case (snoc ev evs)
  then show ?case
    by (cases "event_busid ev = b") (auto simp: apply_event_other intro: apply_event_same)
qed simp

text \<open>Applying the last events of a history once more changes nothing.\<close>

lemma fold_apply_again:
  "fold apply_event ys (fold apply_event (xs @ ys) m) = fold apply_event (xs @ ys) m"
proof
  fix b
  show "fold apply_event ys (fold apply_event (xs @ ys) m) b = fold apply_event (xs @ ys) m b"
    by (cases "b \<in> event_busid ` set ys") (auto simp: fold_apply_untouched intro: fold_apply_touched)
qed

lemma view_append: "view (xs @ ys) = fold apply_event ys (view xs)"
  by (simp add: view_def)

lemma view_again: "view (xs @ ys) = m \<Longrightarrow> fold apply_event ys m = m"
  using fold_apply_again [of ys xs Map.empty] by (auto simp: view_def)

lemma view_key: "view evs b = Some a \<Longrightarrow> ad_busid a = b"
proof (induction evs arbitrary: a rule: rev_induct)
  case (snoc ev evs)
  then show ?case by (cases ev) (auto simp: view_append split: if_splits)
qed (simp add: view_def)

lemma fold_snapshot:
  assumes "\<And>b a. m b = Some a \<Longrightarrow> ad_busid a = b"
  shows "fold apply_event (map Added (List.map_filter m ks)) n =
    (\<lambda>b. if b \<in> set ks \<and> m b \<noteq> None then m b else n b)"
proof (induction ks arbitrary: n)
  case (Cons k ks)
  then show ?case
    using assms [of k] by (cases "m k") (auto simp: map_filter_simps fun_eq_iff)
qed (simp add: map_filter_simps)

lemma view_snapshot:
  assumes "hb_snapshot h = view evs" "set order = dom (hb_snapshot h)"
  shows "view (snapshot_added order h) = hb_snapshot h"
proof -
  have "view (snapshot_added order h) =
      (\<lambda>b. if b \<in> set order \<and> hb_snapshot h b \<noteq> None then hb_snapshot h b else None)"
    unfolding view_def snapshot_added_def
    by (rule fold_snapshot) (metis assms(1) view_key)
  also have "\<dots> = hb_snapshot h" by (auto simp: assms(2) fun_eq_iff domIff)
  finally show ?thesis .
qed

lemma store_snapshot [simp]: "hb_snapshot (store ev h) = apply_event ev (hb_snapshot h)"
  by (cases ev) simp_all

lemma hub_frame [simp]:
  "hb_sent (store ev h) = hb_sent h"
  "hb_snapshot (tx_send ev h) = hb_snapshot h"
  "hb_sent (tx_send ev h) = hb_sent h @ [ev]"
  by (cases ev; simp add: tx_send_def)+

lemma publish_eq: "publish ev h = tx_send ev (store ev h)"
  by (cases ev) (simp_all add: publish_added_def publish_removed_def)

section \<open>Invariants of the run\<close>

definition pending :: "events_state \<Rightarrow> event_line list" where
  "pending s = (case es_publishing s of None \<Rightarrow> [] | Some ev \<Rightarrow> [ev])"

text \<open>
  The snapshot is what the history of events amounts to, and so is what each subscriber replays
  followed by everything sent since it subscribed.
\<close>

definition hub_wf :: "events_state \<Rightarrow> bool" where
  "hub_wf s \<longleftrightarrow> hb_snapshot (es_hub s) = view (hb_sent (es_hub s) @ pending s)"

definition caught_up :: "events_state \<Rightarrow> nat \<times> event_line list \<Rightarrow> bool" where
  "caught_up s sub \<longleftrightarrow> fst sub \<le> length (hb_sent (es_hub s)) \<and>
     view (snd sub @ drop (fst sub) (hb_sent (es_hub s)) @ pending s) = hb_snapshot (es_hub s)"

definition subscribers_wf :: "events_state \<Rightarrow> bool" where
  "subscribers_wf s \<longleftrightarrow>
     (\<forall>sub \<in> set (es_subscribers s). caught_up s sub) \<and>
     (\<forall>rx. es_accepting s = Some rx \<longrightarrow> rx \<le> length (hb_sent (es_hub s)))"

text \<open>Every device that can be announced as removed was announced as added before.\<close>

definition announced :: "event_line list \<Rightarrow> removed_device set" where
  "announced evs = {r. \<exists>a. Added a \<in> set evs \<and> removed_from a = r}"

definition removals_wf :: "event_line list \<Rightarrow> bool" where
  "removals_wf evs \<longleftrightarrow> (\<forall>pre r post. evs = pre @ Removed r # post \<longrightarrow> r \<in> announced pre)"

definition announced_wf :: "id_map \<Rightarrow> event_line list \<Rightarrow> bool" where
  "announced_wf m evs \<longleftrightarrow> ran (by_id m) \<subseteq> announced evs \<and> removals_wf evs"

definition events_wf :: "events_state \<Rightarrow> bool" where
  "events_wf s \<longleftrightarrow> hub_wf s \<and> subscribers_wf s \<and> announced_wf (es_idmap s) (hb_sent (es_hub s) @ pending s)"

lemmas events_step_defs [trans_defs] =
  begin_publish_def end_publish_def begin_accept_def spawn_subscriber_def stop_events_def

lemma hub_wf_step: "events_step s t \<Longrightarrow> hub_wf s \<Longrightarrow> hub_wf t"
  by (induction rule: events_step.induct) (auto simp: hub_wf_def pending_def view_append trans_defs)

lemma caught_up_store:
  assumes "es_publishing s = None" "caught_up s sub"
  shows "caught_up (begin_publish ev m s) sub"
  using assms by (simp add: caught_up_def pending_def view_append trans_defs)

lemma caught_up_send:
  assumes "es_publishing s = Some ev" "caught_up s sub"
  shows "caught_up (end_publish ev s) sub"
  using assms by (simp add: caught_up_def pending_def trans_defs)

lemma caught_up_spawn:
  assumes "hub_wf s" "rx \<le> length (hb_sent (es_hub s))" "set order = dom (hb_snapshot (es_hub s))"
  shows "caught_up s (rx, snapshot_added order (es_hub s))"
proof -
  let ?h = "es_hub s"
  have h: "hb_snapshot ?h = view (take rx (hb_sent ?h) @ (drop rx (hb_sent ?h) @ pending s))"
    using assms(1) unfolding hub_wf_def append_assoc [symmetric] append_take_drop_id .
  have "view (snapshot_added order ?h) = hb_snapshot ?h" by (rule view_snapshot [OF h assms(3)])
  then have "view (snapshot_added order ?h @ drop rx (hb_sent ?h) @ pending s) = hb_snapshot ?h"
    using view_again [OF h [symmetric]] by (simp add: view_append)
  with assms(2) show ?thesis by (simp add: caught_up_def)
qed

lemma caught_up_frame [simp]:
  "caught_up (s\<lparr>es_idmap := m\<rparr>) = caught_up s"
  "caught_up (s\<lparr>es_watching := b\<rparr>) = caught_up s"
  "caught_up (begin_accept s) = caught_up s"
  "caught_up (stop_events s) = caught_up s"
  "caught_up (spawn_subscriber order rx s) = caught_up s"
  by (simp_all add: caught_up_def pending_def trans_defs fun_eq_iff)

lemma subscribers_wf_step: "events_step s t \<Longrightarrow> hub_wf s \<Longrightarrow> subscribers_wf s \<Longrightarrow> subscribers_wf t"
proof (induction rule: events_step.induct)
  case (Watch s w ev m)
  then show ?case using caught_up_store [of s _ ev m]
    by (auto simp: subscribers_wf_def begin_publish_def)
next
  case (Send s ev)
  then show ?case using caught_up_send [of s ev]
    by (fastforce simp: subscribers_wf_def end_publish_def)
next
  case (Snapshot s rx order)
  then have "caught_up s (rx, snapshot_added order (es_hub s))"
    using caught_up_spawn by (simp add: subscribers_wf_def)
  moreover have "set (es_subscribers (spawn_subscriber order rx s)) =
      insert (rx, snapshot_added order (es_hub s)) (set (es_subscribers s))"
    "es_accepting (spawn_subscriber order rx s) = None" by (simp_all add: spawn_subscriber_def)
  ultimately show ?case using Snapshot by (simp add: subscribers_wf_def)
next
  case (Accept s)
  then show ?case by (simp add: subscribers_wf_def) (simp add: begin_accept_def subscribe_def)
next
  case (Stop s)
  then show ?case by (simp add: subscribers_wf_def) (simp add: stop_events_def)
qed (simp_all add: subscribers_wf_def)

lemma announced_append: "announced (xs @ ys) = announced xs \<union> announced ys"
  by (auto simp: announced_def)

lemma announced_single [simp]:
  "announced [Added a] = {removed_from a}" "announced [Removed r] = {}" "announced [] = {}"
  by (auto simp: announced_def)

lemma removals_wf_snoc:
  assumes "removals_wf evs" "\<And>r. ev = Removed r \<Longrightarrow> r \<in> announced evs"
  shows "removals_wf (evs @ [ev])"
  unfolding removals_wf_def
proof (intro allI impI)
  fix pre r post assume eq: "evs @ [ev] = pre @ Removed r # post"
  show "r \<in> announced pre"
  proof (cases post rule: rev_cases)
    case Nil
    with eq assms(2) show ?thesis by simp
  next
    case (snoc post' e)
    with eq have "evs = pre @ Removed r # post'" by simp
    with assms(1) show ?thesis by (auto simp: removals_wf_def)
  qed
qed

lemma ran_subset_upd: "ran (m(i := v)) \<subseteq> ran m \<union> set_option v"
  by (auto simp: ran_def split: if_splits)

lemma announced_publish:
  assumes "announced_wf m evs" "publisher_event w m = (Some ev, m')"
  shows "announced_wf m' (evs @ [ev])"
proof (cases w)
  case (Connected info)
  with assms have ev: "ev = Added (announce info)"
    "by_id m' = (by_id m)(di_id info \<mapsto> removed_from (announce info))" by (auto simp: note_added_def)
  with assms(1) show ?thesis
    using ran_subset_upd [of "by_id m" "di_id info" "Some (removed_from (announce info))"]
    by (auto simp: announced_wf_def announced_append intro!: removals_wf_snoc)
next
  case (Disconnected i)
  with assms obtain r where ev: "ev = Removed r" "by_id m i = Some r" "by_id m' = (by_id m)(i := None)"
    by (auto simp: note_removed_def)
  moreover have "r \<in> announced evs"
    using assms(1) ev(2) by (auto simp: announced_wf_def ran_def)
  ultimately show ?thesis
    using assms(1) ran_subset_upd [of "by_id m" i None]
    by (auto simp: announced_wf_def announced_append intro!: removals_wf_snoc)
qed

lemma announced_quiet:
  assumes "announced_wf m evs" "publisher_event w m = (None, m')"
  shows "announced_wf m' evs"
proof (cases w)
  case (Disconnected i)
  with assms show ?thesis
    using ran_subset_upd [of "by_id m" i None] by (auto simp: announced_wf_def note_removed_def)
qed (use assms in simp)

lemma announced_wf_step:
  "events_step s t \<Longrightarrow> announced_wf (es_idmap s) (hb_sent (es_hub s) @ pending s) \<Longrightarrow>
   announced_wf (es_idmap t) (hb_sent (es_hub t) @ pending t)"
proof (induction rule: events_step.induct)
  case (Watch s w ev m)
  then show ?case using announced_publish [of "es_idmap s" "hb_sent (es_hub s)" w ev m]
    by (simp add: pending_def begin_publish_def)
next
  case (WatchUnknown s w m)
  then show ?case using announced_quiet [of "es_idmap s" "hb_sent (es_hub s)" w m]
    by (simp add: pending_def)
qed (simp_all add: pending_def trans_defs)

lemma publisher_step_wf:
  assumes "hb_snapshot (snd s) = view (hb_sent (snd s))" "announced_wf (fst s) (hb_sent (snd s))"
  shows "hb_snapshot (snd (publisher_step w s)) = view (hb_sent (snd (publisher_step w s)))"
    and "announced_wf (fst (publisher_step w s)) (hb_sent (snd (publisher_step w s)))"
proof -
  obtain oev m where p: "publisher_event w (fst s) = (oev, m)" by fastforce
  show "hb_snapshot (snd (publisher_step w s)) = view (hb_sent (snd (publisher_step w s)))"
    using assms(1) by (cases oev) (simp_all add: publisher_step_def p publish_eq view_append)
  show "announced_wf (fst (publisher_step w s)) (hb_sent (snd (publisher_step w s)))"
    using announced_publish [OF assms(2)] announced_quiet [OF assms(2)] p
    by (cases oev) (simp_all add: publisher_step_def publish_eq)
qed

definition seeded_wf :: "id_map \<times> hub \<Rightarrow> bool" where
  "seeded_wf s \<longleftrightarrow> hb_snapshot (snd s) = view (hb_sent (snd s)) \<and> announced_wf (fst s) (hb_sent (snd s))"

lemma publisher_steps_wf: "seeded_wf s \<Longrightarrow> seeded_wf (fold publisher_step ws s)"
  by (induction ws arbitrary: s) (simp_all add: seeded_wf_def publisher_step_wf)

lemma seeded_wf_new: "seeded_wf (id_map_new, hub_new)"
  by (simp add: seeded_wf_def id_map_new_def hub_new_def announced_wf_def removals_wf_def view_def)

lemma seed_steps: "seed infos = fold publisher_step (map Connected infos) (id_map_new, hub_new)"
  by (simp add: seed_def fold_map comp_def)

lemma seed_wf: "seeded_wf (seed infos)"
  unfolding seed_steps by (intro publisher_steps_wf seeded_wf_new)

interpretation evs: safe_system "\<lambda>s. \<exists>infos. s = events_start (seed infos)" events_step events_wf
proof unfold_locales
  fix s assume "\<exists>infos. s = events_start (seed infos)"
  then show "events_wf s"
    using seed_wf by (auto simp: events_wf_def hub_wf_def subscribers_wf_def seeded_wf_def
        events_start_def pending_def)
next
  fix s t assume "events_wf s" "events_step s t"
  then show "events_wf t"
    unfolding events_wf_def using hub_wf_step subscribers_wf_step announced_wf_step by blast
qed

section \<open>Lines on the wire\<close>

text \<open>How a consumer cuts the stream into lines.\<close>

fun lines_of :: "rstr \<Rightarrow> rstr \<Rightarrow> rstr list" where
  "lines_of acc [] = []"
| "lines_of acc (b # bs) = (if b = 10 then acc # lines_of [] bs else lines_of (acc @ [b]) bs)"

lemma lines_of_line: "10 \<notin> set l \<Longrightarrow> lines_of acc (l @ 10 # rest) = (acc @ l) # lines_of [] rest"
  by (induction l arbitrary: acc) auto

lemma lines_of_encoded:
  assumes "\<And>ev. 10 \<notin> set (to_json ev)"
  shows "lines_of [] (concat (map (encode_line to_json) evs)) = map to_json evs"
  by (induction evs) (simp_all add: encode_line_def lines_of_line assms)

lemma write_line_open:
  "wr_room w = None \<Longrightarrow> write_line to_json ev w = (Inr (), w\<lparr>wr_sent := wr_sent w @ encode_line to_json ev\<rparr>)"
  by (simp add: write_line_def write_all_def)

lemma replay_open:
  "wr_room w = None \<Longrightarrow>
   replay to_json evs w = (True, w\<lparr>wr_sent := wr_sent w @ concat (map (encode_line to_json) evs)\<rparr>)"
  by (induction evs arbitrary: w) (simp_all add: write_line_open)

lemma forward_open:
  "wr_room w = None \<Longrightarrow>
   forward to_json (map Got evs) w = (None, w\<lparr>wr_sent := wr_sent w @ concat (map (encode_line to_json) evs)\<rparr>)"
  by (induction evs arbitrary: w) (simp_all add: write_line_open)

lemma delivers_all:
  "delivers evs rs \<Longrightarrow> \<forall>r \<in> set rs. \<exists>ev. r = Got ev \<Longrightarrow> length rs = length evs \<Longrightarrow> rs = map Got evs"
  by (induction evs rs rule: delivers.induct) (auto split: list.splits)

lemma forward_lag:
  "forward to_json (filter (\<lambda>r. \<forall>n. r \<noteq> Lagged n) rs) w = forward to_json rs w"
proof (induction rs arbitrary: w)
  case (Cons r rs)
  then show ?case by (cases r) (simp_all split: prod.split sum.split)
qed simp

section \<open>The devices that are connected\<close>

fun attach_event :: "watch_event \<Rightarrow> (device_id \<rightharpoonup> device_info) \<Rightarrow> (device_id \<rightharpoonup> device_info)" where
  "attach_event (Connected info) c = c(di_id info \<mapsto> info)"
| "attach_event (Disconnected i) c = c(i := None)"

text \<open>
  A sequence of hotplug events in which a port is vacated before another device is announced on
  it: a new id never takes the busid of a device that has not been reported as disconnected.
\<close>

fun orderly :: "watch_event list \<Rightarrow> (device_id \<rightharpoonup> device_info) \<Rightarrow> bool" where
  "orderly [] c = True"
| "orderly (Connected info # ws) c =
     ((\<forall>i y. c i = Some y \<longrightarrow> (format_busid y = format_busid info \<longleftrightarrow> i = di_id info)) \<and>
      orderly ws (c(di_id info \<mapsto> info)))"
| "orderly (Disconnected i # ws) c = orderly ws (c(i := None))"

lemma announce_busid [simp]:
  "ad_busid (announce info) = format_busid info" "rm_busid (removed_from a) = ad_busid a"
  by (simp_all add: announce_def added_from_host_def from_info_def from_nusb_def removed_from_def
      split: prod.splits)

definition tracks :: "(device_id \<rightharpoonup> device_info) \<Rightarrow> id_map \<times> hub \<Rightarrow> bool" where
  "tracks c s \<longleftrightarrow>
     (\<forall>i j x y. c i = Some x \<longrightarrow> c j = Some y \<longrightarrow> format_busid x = format_busid y \<longrightarrow> i = j) \<and>
     (\<forall>i. by_id (fst s) i = map_option (\<lambda>info. removed_from (announce info)) (c i)) \<and>
     (\<forall>b a. hb_snapshot (snd s) b = Some a \<longleftrightarrow>
        (\<exists>i info. c i = Some info \<and> a = announce info \<and> format_busid info = b))"

lemma tracksD:
  assumes "tracks c s"
  shows "c i = Some x \<Longrightarrow> c j = Some y \<Longrightarrow> format_busid x = format_busid y \<Longrightarrow> i = j"
    and "by_id (fst s) i = map_option (\<lambda>info. removed_from (announce info)) (c i)"
    and "hb_snapshot (snd s) b = Some a \<longleftrightarrow>
      (\<exists>i info. c i = Some info \<and> a = announce info \<and> format_busid info = b)"
  using assms unfolding tracks_def by blast+

lemma tracks_connected:
  assumes "tracks c s"
    and fresh: "\<forall>i y. c i = Some y \<longrightarrow> (format_busid y = format_busid info \<longleftrightarrow> i = di_id info)"
  shows "tracks (c(di_id info \<mapsto> info)) (publisher_step (Connected info) s)"
  unfolding tracks_def
proof (intro conjI allI)
  have busid: "i = di_id info" if "c i = Some y" "format_busid y = format_busid info" for i y
    using fresh that by blast
  fix i j x y
  have upd: "k = di_id info \<and> z = info \<or> k \<noteq> di_id info \<and> c k = Some z"
    if "(c(di_id info \<mapsto> info)) k = Some z" for k z
    using that by (cases "k = di_id info") simp_all
  show "(c(di_id info \<mapsto> info)) i = Some x \<longrightarrow> (c(di_id info \<mapsto> info)) j = Some y \<longrightarrow>
      format_busid x = format_busid y \<longrightarrow> i = j"
    using upd [of i x] upd [of j y] busid [of i x] busid [of j y] tracksD(1) [OF assms(1), of i x j y]
    by metis
next
  fix i
  show "by_id (fst (publisher_step (Connected info) s)) i =
      map_option (\<lambda>info. removed_from (announce info)) ((c(di_id info \<mapsto> info)) i)"
    using tracksD(2) [OF assms(1)] by (simp add: publisher_step_def note_added_def)
next
  fix b a
  show "hb_snapshot (snd (publisher_step (Connected info) s)) b = Some a \<longleftrightarrow>
      (\<exists>i y. (c(di_id info \<mapsto> info)) i = Some y \<and> a = announce y \<and> format_busid y = b)"
    using fresh tracksD(3) [OF assms(1), of b a]
    by (auto simp: publisher_step_def publish_eq split: if_splits)
qed

lemma tracks_disconnected:
  assumes "tracks c s"
  shows "tracks (c(i := None)) (publisher_step (Disconnected i) s)"
proof (cases "c i")
  case None
  then have "by_id (fst s) i = None" using tracksD(2) [OF assms, of i] by simp
  moreover from None have "c(i := None) = c" by auto
  ultimately have "snd (publisher_step (Disconnected i) s) = snd s"
    "by_id (fst (publisher_step (Disconnected i) s)) = by_id (fst s)" "c(i := None) = c"
    by (auto simp: publisher_step_def note_removed_def)
  with assms show ?thesis by (simp add: tracks_def)
next
  case (Some x)
  then have x: "by_id (fst s) i = Some (removed_from (announce x))"
    using tracksD(2) [OF assms, of i] by simp
  then have p: "snd (publisher_step (Disconnected i) s) = publish (Removed (removed_from (announce x))) (snd s)"
    "by_id (fst (publisher_step (Disconnected i) s)) = (by_id (fst s))(i := None)"
    by (auto simp: publisher_step_def note_removed_def)
  have busids: "format_busid y \<noteq> format_busid x" if "c j = Some y" "j \<noteq> i" for j y
    using tracksD(1) [OF assms that(1) Some] that(2) by blast
  show ?thesis
    unfolding tracks_def
  proof (intro conjI allI)
    fix j k y z
    show "(c(i := None)) j = Some y \<longrightarrow> (c(i := None)) k = Some z \<longrightarrow> format_busid y = format_busid z \<longrightarrow> j = k"
      using tracksD(1) [OF assms, of j y k z] by simp
  next
    fix j
    show "by_id (fst (publisher_step (Disconnected i) s)) j =
        map_option (\<lambda>info. removed_from (announce info)) ((c(i := None)) j)"
      using tracksD(2) [OF assms, of j] by (simp add: p)
  next
    fix b a
    show "hb_snapshot (snd (publisher_step (Disconnected i) s)) b = Some a \<longleftrightarrow>
        (\<exists>j y. (c(i := None)) j = Some y \<and> a = announce y \<and> format_busid y = b)"
    proof (cases "b = format_busid x")
      case True
      then show ?thesis using busids by (auto simp: p publish_eq)
    next
      case False
      then have "(\<exists>j y. (c(i := None)) j = Some y \<and> a = announce y \<and> format_busid y = b) \<longleftrightarrow>
          (\<exists>j y. c j = Some y \<and> a = announce y \<and> format_busid y = b)"
        using Some by (metis fun_upd_apply option.distinct(1) option.inject)
      with False show ?thesis using tracksD(3) [OF assms, of b a] by (simp add: p publish_eq)
    qed
  qed
qed

lemma tracks_steps:
  "orderly ws c \<Longrightarrow> tracks c s \<Longrightarrow> tracks (fold attach_event ws c) (fold publisher_step ws s)"
proof (induction ws c arbitrary: s rule: orderly.induct)
  case (2 info ws c)
  then have "orderly ws (c(di_id info \<mapsto> info))"
    "tracks (c(di_id info \<mapsto> info)) (publisher_step (Connected info) s)"
    using tracks_connected [of c s info] by simp_all
  from "2.IH" [OF this] show ?case by (simp add: fun_upd_def)
next
  case (3 i ws c)
  then have "orderly ws (c(i := None))" "tracks (c(i := None)) (publisher_step (Disconnected i) s)"
    using tracks_disconnected [of c s i] by simp_all
  from "3.IH" [OF this] show ?case by (simp add: fun_upd_def)
qed simp

lemma tracks_new: "tracks Map.empty (id_map_new, hub_new)"
  by (simp add: tracks_def id_map_new_def hub_new_def)

lemma seed_snoc: "seed (infos @ [info]) = publisher_step (Connected info) (seed infos)"
  by (simp add: seed_def)

lemma seed_members:
  "seed infos = (m, h) \<Longrightarrow> info \<in> set infos \<Longrightarrow>
   (\<exists>r. by_id m (di_id info) = Some r) \<and> (\<exists>a. hb_snapshot h (format_busid info) = Some a)"
proof (induction infos arbitrary: m h rule: rev_induct)
  case (snoc x infos)
  obtain m0 h0 where p: "seed infos = (m0, h0)" by fastforce
  with snoc show ?case
    by (auto simp: seed_snoc publisher_step_def note_added_def publish_eq)
qed simp

section \<open>Properties\<close>

text \<open>A run used by the witnesses: a connection is accepted while a keyboard is being announced.\<close>

definition kind_json :: "event_line \<Rightarrow> rstr" where
  "kind_json ev = (case ev of Added _ \<Rightarrow> lit ''added'' | Removed _ \<Rightarrow> lit ''removed'')"

definition keyboard_added :: added_device where
  "keyboard_added = announce keyboard_info"

definition racing_hub :: hub where
  "racing_hub = \<lparr>hb_snapshot = [ad_busid keyboard_added \<mapsto> keyboard_added], hb_sent = [Added keyboard_added]\<rparr>"

definition racing_state :: events_state where
  "racing_state = \<lparr>es_hub = racing_hub,
     es_idmap = \<lparr>by_id = [di_id keyboard_info \<mapsto> removed_from keyboard_added]\<rparr>,
     es_publishing = None, es_accepting = None, es_subscribers = [(0, [Added keyboard_added])],
     es_watching = True, es_running = True, es_socket = True\<rparr>"

lemma racing_run: "events_step\<^sup>*\<^sup>* (events_start (seed [])) racing_state"
proof -
  let ?s0 = "events_start (seed [])"
  let ?m = "note_added (di_id keyboard_info) (removed_from keyboard_added) id_map_new"
  let ?s1 = "begin_accept ?s0"
  let ?s2 = "begin_publish (Added keyboard_added) ?m ?s1"
  let ?s3 = "spawn_subscriber [ad_busid keyboard_added] 0 ?s2"
  let ?s4 = "end_publish (Added keyboard_added) ?s3"
  have "events_step ?s0 ?s1"
    by (rule Accept) (simp_all add: events_start_def)
  moreover have "events_step ?s1 ?s2"
    by (rule Watch [of _ "Connected keyboard_info"])
      (simp_all add: events_start_def begin_accept_def seed_def keyboard_added_def)
  moreover have "events_step ?s2 ?s3"
    by (rule Snapshot) (simp_all add: trans_defs events_start_def seed_def hub_new_def subscribe_def)
  moreover have "events_step ?s3 ?s4"
    by (rule Send) (simp add: trans_defs)
  moreover have "?s4 = racing_state"
    by (simp add: trans_defs events_start_def seed_def hub_new_def racing_state_def racing_hub_def
        id_map_new_def note_added_def tx_send_def snapshot_added_def map_filter_simps subscribe_def)
  ultimately show ?thesis
    by (metis (no_types) converse_rtranclp_into_rtranclp r_into_rtranclp)
qed

text \<open>
  C23: No subscriber misses a change. In every interleaving of hotplug events and connections, a
  subscriber whose connection works and that has received everything sent since it subscribed has
  been sent lines from which a consumer that treats \<open>added\<close> as idempotent computes exactly the
  current device set of the hub, provided the JSON printer does not emit line breaks inside a line.
\<close>

theorem subscriber_converges:
  assumes "events_step\<^sup>*\<^sup>* (events_start (seed infos)) s"
    and "(rx, initial) \<in> set (es_subscribers s)" and "es_publishing s = None"
    and "delivers (drop rx (hb_sent (es_hub s))) rs" and "\<forall>r \<in> set rs. \<exists>ev. r = Got ev"
    and "length rs = length (hb_sent (es_hub s)) - rx"
    and "\<And>ev. 10 \<notin> set (to_json ev)" and "wr_room w = None" and "wr_sent w = []"
  shows "\<exists>evs w'. serve_subscriber to_json initial rs w = (None, w') \<and>
    lines_of [] (wr_sent w') = map to_json evs \<and> view evs = hb_snapshot (es_hub s)"
proof -
  let ?sent = "drop rx (hb_sent (es_hub s))"
  have "events_wf s" using evs.invar_reachable [OF _ assms(1)] by blast
  then have "caught_up s (rx, initial)"
    using assms(2) by (auto simp: events_wf_def subscribers_wf_def)
  then have v: "view (initial @ ?sent) = hb_snapshot (es_hub s)"
    using assms(3) by (simp add: caught_up_def pending_def)
  have rs: "rs = map Got ?sent" using assms(4,5,6) by (intro delivers_all) simp_all
  have "serve_subscriber to_json initial rs w =
      (None, w\<lparr>wr_sent := concat (map (encode_line to_json) (initial @ ?sent))\<rparr>)"
    using assms(8,9) by (simp add: serve_subscriber_def replay_open rs forward_open)
  moreover have "lines_of [] (concat (map (encode_line to_json) (initial @ ?sent))) =
      map to_json (initial @ ?sent)"
    by (rule lines_of_encoded) (rule assms(7))
  ultimately show ?thesis
    using v by (intro exI [of _ "initial @ ?sent"]
        exI [of _ "w\<lparr>wr_sent := concat (map (encode_line to_json) (initial @ ?sent))\<rparr>"]) simp
qed

theorem subscriber_converges_witness:
  "\<exists>evs w'. serve_subscriber kind_json [Added keyboard_added] [Got (Added keyboard_added)]
      \<lparr>wr_sent = [], wr_room = None\<rparr> = (None, w') \<and>
    lines_of [] (wr_sent w') = map kind_json evs \<and> view evs = hb_snapshot racing_hub"
proof -
  have "10 \<notin> set (kind_json ev)" for ev by (cases ev) (simp_all add: kind_json_def)
  then show ?thesis
    using subscriber_converges [OF racing_run, of 0 "[Added keyboard_added]"
        "[Got (Added keyboard_added)]" kind_json "\<lparr>wr_sent = [], wr_room = None\<rparr>"]
    by (simp add: racing_state_def racing_hub_def)
qed

text \<open>
  A removal is only ever announced for a device that was announced as added before, with the
  same busid, vendor id and product id, in every interleaving.
\<close>

theorem removals_follow_additions:
  assumes "events_step\<^sup>*\<^sup>* (events_start (seed infos)) s"
    and "hb_sent (es_hub s) = pre @ Removed r # post"
  shows "\<exists>a. Added a \<in> set pre \<and> removed_from a = r"
proof -
  have "events_wf s" using evs.invar_reachable [OF _ assms(1)] by blast
  then have "removals_wf (hb_sent (es_hub s) @ pending s)"
    by (simp add: events_wf_def announced_wf_def)
  moreover have "hb_sent (es_hub s) @ pending s = pre @ Removed r # (post @ pending s)"
    using assms(2) by simp
  ultimately have "r \<in> announced pre" unfolding removals_wf_def by blast
  then show ?thesis by (auto simp: announced_def)
qed

theorem removals_follow_additions_witness:
  "\<exists>s. events_step\<^sup>*\<^sup>* (events_start (seed [])) s \<and>
     hb_sent (es_hub s) = [Added keyboard_added, Removed (removed_from keyboard_added)] \<and>
     (\<exists>a. Added a \<in> set [Added keyboard_added] \<and> removed_from a = removed_from keyboard_added)"
proof -
  let ?r = "removed_from keyboard_added"
  let ?s1 = "begin_publish (Removed ?r) (snd (note_removed (di_id keyboard_info) (es_idmap racing_state))) racing_state"
  let ?s2 = "end_publish (Removed ?r) ?s1"
  have "events_step racing_state ?s1"
    by (rule Watch [of _ "Disconnected (di_id keyboard_info)"])
      (simp_all add: racing_state_def note_removed_def)
  moreover have "events_step ?s1 ?s2" by (rule Send) (simp add: trans_defs)
  ultimately have run: "events_step\<^sup>*\<^sup>* (events_start (seed [])) ?s2"
    using racing_run by (meson rtranclp.rtrancl_into_rtrancl)
  have sent: "hb_sent (es_hub ?s2) = [Added keyboard_added] @ Removed ?r # []"
    by (simp add: trans_defs racing_state_def racing_hub_def)
  show ?thesis using run sent removals_follow_additions [OF run sent] by auto
qed

text \<open>
  C24: The hub follows the hardware. When every port is reported vacated before another device is
  reported on it, then after the first listing and any sequence of hotplug events the device set
  of the hub is exactly the set of devices connected, each under its busid.
\<close>

theorem hub_tracks_connected:
  assumes "orderly (map Connected infos @ ws) Map.empty"
  shows "hb_snapshot (snd (fold publisher_step ws (seed infos))) b = Some a \<longleftrightarrow>
    (\<exists>i info. fold attach_event (map Connected infos @ ws) Map.empty i = Some info \<and>
       a = announce info \<and> format_busid info = b)"
proof -
  have "tracks (fold attach_event (map Connected infos @ ws) Map.empty) (fold publisher_step ws (seed infos))"
    using tracks_steps [OF assms tracks_new] by (simp add: seed_steps)
  then show ?thesis by (rule tracksD(3))
qed

definition replugged :: device_info where
  "replugged = keyboard_info\<lparr>di_id := 2, di_registry_entry_id := 101\<rparr>"

lemma replugged_ids [simp]: "di_id keyboard_info = 1" "di_id replugged = 2"
  "format_busid replugged = format_busid keyboard_info"
  by (simp_all add: replugged_def keyboard_info_def format_busid_def)

theorem hub_tracks_connected_witness:
  "hb_snapshot (snd (fold publisher_step [Disconnected 1, Connected replugged] (seed [keyboard_info])))
     (format_busid keyboard_info) = Some (announce replugged)"
  using hub_tracks_connected [of "[keyboard_info]" "[Disconnected 1, Connected replugged]"
      "format_busid keyboard_info" "announce replugged"]
  by simp

text \<open>
  When a device that comes back on the same port under a new id is reported before the
  departure of its former self, the late departure removes the device that is present from the hub
  although its id is still noted; subscribers are told that it is gone.
\<close>

theorem late_departure_hides_device:
  assumes "di_id old \<noteq> di_id new" "format_busid old = format_busid new"
  shows "case fold publisher_step [Connected new, Disconnected (di_id old)] (seed [old]) of
    (m, h) \<Rightarrow> by_id m (di_id new) = Some (removed_from (announce new)) \<and>
      hb_snapshot h (format_busid new) = None \<and>
      last (hb_sent h) = Removed (removed_from (announce old))"
  using assms
  by (simp add: seed_def publisher_step_def note_added_def note_removed_def publish_eq split: prod.split)

theorem late_departure_hides_device_witness:
  "hb_snapshot (snd (fold publisher_step [Connected replugged, Disconnected 1] (seed [keyboard_info])))
     (format_busid keyboard_info) = None"
  using late_departure_hides_device [of keyboard_info replugged] by (simp split: prod.splits)

text \<open>
  A subscriber that falls behind is not told: its stream is byte for byte the stream it would
  get if the skipped events had never been published, so a consumer cannot see that its device set
  is stale.
\<close>

theorem lag_is_silent:
  "serve_subscriber to_json initial (filter (\<lambda>r. \<forall>n. r \<noteq> Lagged n) rs) w =
   serve_subscriber to_json initial rs w"
  by (simp add: serve_subscriber_def forward_lag split: prod.split bool.split)

text \<open>
  Start-up of the stream. A file at the socket path that is not a socket is left alone and
  nothing is bound; the socket is bound and restricted to its owner before anything is announced,
  unless its mode cannot be set, which only leaves a warning; and when the
  start-up succeeds, the devices of the first listing are in the hub and can all be reported as
  removed later.
\<close>

theorem events_setup_safe:
  assumes "events_setup env path = (acts, r)"
  shows "(ev_lstat env path = Some False \<longrightarrow> acts = [] \<and> r = Inl (EvNotASocket path)) \<and>
    (RemoveFile path entry \<in> set acts \<longrightarrow> ev_lstat env path = Some True \<and> entry = Some True) \<and>
    (\<forall>m h. r = Inr (m, h) \<longrightarrow>
      (\<exists>pre infos. acts = pre @ [BindUnix path, SetMode path 384 (ev_chmod_ok env)] \<and> ev_listing env = Inr infos \<and>
        (\<forall>info \<in> set infos. by_id m (di_id info) \<noteq> None \<and> hb_snapshot h (format_busid info) \<noteq> None)))"
proof -
  obtain ba br where b: "bind_listener env path = (ba, br)" by fastforce
  have bind: "(ev_lstat env path = Some False \<longrightarrow> ba = [] \<and> br = Inl (EvNotASocket path)) \<and>
      (RemoveFile path entry \<in> set ba \<longrightarrow> ev_lstat env path = Some True \<and> entry = Some True) \<and>
      (br = Inr () \<longrightarrow> (\<exists>pre. ba = pre @ [BindUnix path, SetMode path 384 (ev_chmod_ok env)]))"
    using b by (auto simp: bind_listener_def Let_def SOCKET_MODE_def split: if_splits)
  have acts: "acts = ba" "\<And>e. br = Inl e \<Longrightarrow> r = Inl e"
    using assms b by (auto simp: events_setup_def split: sum.splits if_splits)
  have ok: "\<exists>infos. br = Inr () \<and> ev_listing env = Inr infos \<and> seed infos = (m, h)" if "r = Inr (m, h)" for m h
    using assms b that by (auto simp: events_setup_def split: sum.splits if_splits)
  have seeded: "\<exists>pre infos. acts = pre @ [BindUnix path, SetMode path 384 (ev_chmod_ok env)] \<and> ev_listing env = Inr infos \<and>
        (\<forall>info \<in> set infos. by_id m (di_id info) \<noteq> None \<and> hb_snapshot h (format_busid info) \<noteq> None)"
    if "r = Inr (m, h)" for m h
    using ok [OF that] bind seed_members acts(1) by blast
  show ?thesis using bind acts seeded by blast
qed

theorem events_setup_safe_witness:
  "\<exists>m h. events_setup \<lparr>ev_lstat = (\<lambda>_. Some True), ev_bind_ok = True, ev_chmod_ok = True, ev_watch_ok = True,
      ev_listing = Inr [keyboard_info]\<rparr> (lit ''/s'') =
      ([RemoveFile (lit ''/s'') (Some True), BindUnix (lit ''/s''), SetMode (lit ''/s'') 384 True], Inr (m, h)) \<and>
    by_id m 1 \<noteq> None \<and> hb_snapshot h (format_busid keyboard_info) \<noteq> None"
proof -
  let ?env = "\<lparr>ev_lstat = (\<lambda>_. Some True), ev_bind_ok = True, ev_chmod_ok = True, ev_watch_ok = True,
      ev_listing = Inr [keyboard_info]\<rparr>"
  obtain m h where s: "events_setup ?env (lit ''/s'') =
      ([RemoveFile (lit ''/s'') (Some True), BindUnix (lit ''/s''), SetMode (lit ''/s'') 384 True], Inr (m, h))"
    by (cases "seed [keyboard_info]") (simp add: events_setup_def bind_listener_def SOCKET_MODE_def)
  show ?thesis using s events_setup_safe [OF s] by simp
qed

end
