(* ===== verification/Sudoers.thy ===== *)
theory Sudoers
  imports Rust_Str
begin

text \<open>
  The sudoers fragment (\<^verbatim>\<open>usbipd/src/sudoers.rs\<close>): validation of the inputs, escaping, and the text of
  the rule. A path is a byte string that need not be UTF-8. The messages of the errors are left
  out: an error is the check that failed, with the offending character where there is one.

  The specification side is a reader of a \<^verbatim>\<open>Cmnd\<close> that splits at unescaped blanks and drops the
  escapes, as \<^verbatim>\<open>sudoers(5)\<close> describes it.
\<close>

record sudoers_spec =
  sp_group :: rstr
  sp_binary :: bytes
  sp_args :: "rstr list"

datatype sudoers_error =
    EmptyGroup
  | InvalidGroup rstr
  | RelativeBinary
  | NonUtf8Binary
  | InvalidBinary rstr
  | NoArguments
  | EmptyArgument
  | InvalidArgument rstr rstr

section \<open>Validation\<close>

definition is_ascii_alphanumeric :: "u8 \<Rightarrow> bool" where
  "is_ascii_alphanumeric b \<longleftrightarrow> 48 \<le> b \<and> b \<le> 57 \<or> 65 \<le> b \<and> b \<le> 90 \<or> 97 \<le> b \<and> b \<le> 122"

definition is_safe_byte :: "u8 \<Rightarrow> bool" where
  "is_safe_byte b \<longleftrightarrow> is_ascii_alphanumeric b \<or> b \<in> set (lit ''./:=-_+@%'')"

text \<open>A character is its UTF-8 encoding; every safe one is a single byte.\<close>

definition is_safe_char :: "rstr \<Rightarrow> bool" where
  "is_safe_char c = (case c of [b] \<Rightarrow> is_safe_byte b | _ \<Rightarrow> False)"

definition invalid_chars :: "rstr \<Rightarrow> rstr option" where
  "invalid_chars s = find (\<lambda>c. \<not> is_safe_char c) (str_chars s)"

definition needs_escape :: "rstr \<Rightarrow> bool" where
  "needs_escape c \<longleftrightarrow> (case c of [b] \<Rightarrow> b \<in> set (lit '':,=!()'') \<or> b = 92 | _ \<Rightarrow> False)"

definition escape_sudoers :: "rstr \<Rightarrow> rstr" where
  "escape_sudoers s = concat (map (\<lambda>c. if needs_escape c then 92 # c else c) (str_chars s))"

fun check_args :: "rstr list \<Rightarrow> sudoers_error option" where
  "check_args [] = None"
| "check_args (a # as) =
     (if a = [] then Some EmptyArgument
      else (case invalid_chars a of
              Some c \<Rightarrow> Some (InvalidArgument a c)
            | None \<Rightarrow> check_args as))"

section \<open>Rendering\<close>

definition fragment_header :: rstr where
  "fragment_header =
     lit ''# Generated by `usbipd sudoers` '' @ [0xE2, 0x80, 0x94] @ lit '' do not edit by hand.'' @ [10] @
     lit ''# Install with:  usbipd sudoers ... | sudo tee /etc/sudoers.d/usbipd'' @ [10] @
     lit ''# Re-run whenever the binary path or daemon arguments change.'' @ [10] @ [10]"

definition rule_prefix :: "rstr \<Rightarrow> rstr" where
  "rule_prefix grp = lit ''%'' @ grp @ lit '' ALL=(root:wheel) NOPASSWD:NOSETENV: ''"

definition rule_command :: "rstr \<Rightarrow> rstr list \<Rightarrow> rstr" where
  "rule_command binary args =
     escape_sudoers binary @ concat (map (\<lambda>a. lit '' '' @ escape_sudoers a) args)"

definition render :: "sudoers_spec \<Rightarrow> sudoers_error + rstr" where
  "render spec =
     (if sp_group spec = [] then Inl EmptyGroup
      else case invalid_chars (sp_group spec) of
        Some c \<Rightarrow> Inl (InvalidGroup c)
      | None \<Rightarrow>
          if \<not> (sp_binary spec \<noteq> [] \<and> hd (sp_binary spec) = 47) then Inl RelativeBinary
          else if \<not> utf8_valid (sp_binary spec) then Inl NonUtf8Binary
          else (case invalid_chars (sp_binary spec) of
                  Some c \<Rightarrow> Inl (InvalidBinary c)
                | None \<Rightarrow>
                    if sp_args spec = [] then Inl NoArguments
                    else (case check_args (sp_args spec) of
                            Some e \<Rightarrow> Inl e
                          | None \<Rightarrow>
                              Inr (fragment_header @ rule_prefix (sp_group spec) @
                                   rule_command (sp_binary spec) (sp_args spec) @ [10]))))"

text \<open>
  The message of an error. How \<^verbatim>\<open>{:?}\<close> shows a string, a path and a character depends on the Unicode
  tables of the standard library: the three printers are arguments.
\<close>

fun sudoers_error_text ::
  "(rstr \<Rightarrow> rstr) \<Rightarrow> (bytes \<Rightarrow> rstr) \<Rightarrow> (rstr \<Rightarrow> rstr) \<Rightarrow> sudoers_spec \<Rightarrow> sudoers_error \<Rightarrow> rstr" where
  "sudoers_error_text str path chr spec EmptyGroup = lit ''group must not be empty''"
| "sudoers_error_text str path chr spec (InvalidGroup c) =
     lit ''group '' @ str (sp_group spec) @ lit '' contains invalid character '' @ chr c"
| "sudoers_error_text str path chr spec RelativeBinary =
     lit ''binary path '' @ path (sp_binary spec) @ lit '' must be absolute (sudoers ignores PATH lookup)''"
| "sudoers_error_text str path chr spec NonUtf8Binary =
     lit ''binary path '' @ path (sp_binary spec) @ lit '' is not valid UTF-8''"
| "sudoers_error_text str path chr spec (InvalidBinary c) =
     lit ''binary path '' @ str (sp_binary spec) @ lit '' contains character '' @ chr c @
       lit '' that cannot appear in a sudoers Cmnd''"
| "sudoers_error_text str path chr spec NoArguments =
     lit ''args must not be empty (need at least a subcommand)''"
| "sudoers_error_text str path chr spec EmptyArgument =
     lit ''empty argument is not representable in sudoers''"
| "sudoers_error_text str path chr spec (InvalidArgument a c) =
     lit ''argument '' @ str a @ lit '' contains character '' @ chr c @
       lit '' that cannot appear in a sudoers Cmnd''"

text \<open>
  The path of the running binary: \<^verbatim>\<open>current_exe\<close> and \<^verbatim>\<open>canonicalize\<close> are what the operating system
  answers, \<open>argv0\<close> is the first argument of the process where there is one.
\<close>

definition self_path :: "bytes option \<Rightarrow> (bytes \<Rightarrow> bytes option) \<Rightarrow> bytes option \<Rightarrow> bytes" where
  "self_path current_exe canonicalize argv0 =
     (case Option.bind current_exe canonicalize of
        Some p \<Rightarrow> p
      | None \<Rightarrow> (case argv0 of None \<Rightarrow> lit ''usbipd'' | Some a \<Rightarrow> a))"

section \<open>Safe words\<close>

definition safe_word :: "rstr \<Rightarrow> bool" where
  "safe_word s \<longleftrightarrow> (\<forall>b \<in> set s. is_safe_byte b)"

lemma safe_byte_ascii: "is_safe_byte b \<Longrightarrow> b < 128"
  by (auto simp: is_safe_byte_def is_ascii_alphanumeric_def word_le_nat_alt word_less_nat_alt)

lemma unsafe_bytes: "\<not> is_safe_byte 32" "\<not> is_safe_byte 92" "\<not> is_safe_byte 10"
  by (simp_all add: is_safe_byte_def is_ascii_alphanumeric_def)

lemma safe_byte_not: "is_safe_byte b \<Longrightarrow> b \<noteq> 32 \<and> b \<noteq> 92 \<and> b \<noteq> 10"
  using unsafe_bytes by metis

lemma safe_word_ascii: "safe_word s \<Longrightarrow> ascii s"
  by (simp add: safe_word_def ascii_def safe_byte_ascii)

lemma is_safe_char_bytes: "is_safe_char c \<Longrightarrow> b \<in> set c \<Longrightarrow> is_safe_byte b"
  by (cases c; cases "tl c") (simp_all add: is_safe_char_def)

lemma invalid_chars_None: "invalid_chars s = None \<longleftrightarrow> safe_word s"
proof
  assume "invalid_chars s = None"
  then have "\<forall>c \<in> set (str_chars s). is_safe_char c" by (auto simp: invalid_chars_def find_None_iff)
  then have "\<forall>b \<in> set (concat (str_chars s)). is_safe_byte b"
    unfolding set_concat using is_safe_char_bytes by blast
  then show "safe_word s" by (simp add: safe_word_def)
next
  assume s: "safe_word s"
  then have "str_chars s = map (\<lambda>b. [b]) s" by (simp add: safe_word_ascii str_chars_ascii)
  with s show "invalid_chars s = None"
    by (auto simp: invalid_chars_def find_None_iff is_safe_char_def safe_word_def)
qed

lemma check_args_None: "check_args as = None \<longleftrightarrow> (\<forall>a \<in> set as. a \<noteq> [] \<and> safe_word a)"
proof (induction as)
  case (Cons a as)
  then show ?case using invalid_chars_None [of a] by (cases "invalid_chars a") auto
qed simp

section \<open>Reading a command specification\<close>

fun cmnd_words :: "rstr \<Rightarrow> rstr \<Rightarrow> rstr list" where
  "cmnd_words acc [] = [acc]"
| "cmnd_words acc (b # r) =
     (if b = 92 then (case r of [] \<Rightarrow> [acc] | c # r' \<Rightarrow> cmnd_words (acc @ [c]) r')
      else if b = 32 then acc # cmnd_words [] r
      else cmnd_words (acc @ [b]) r)"

text \<open>The characters that end a word unless they are escaped.\<close>

fun terminators :: "rstr \<Rightarrow> rstr" where
  "terminators [] = []"
| "terminators (b # r) =
     (if b = 92 then (case r of [] \<Rightarrow> [92] | c # r' \<Rightarrow> terminators r')
      else if needs_escape [b] then b # terminators r
      else terminators r)"

lemma escape_Cons:
  "safe_word (b # s) \<Longrightarrow>
   escape_sudoers (b # s) = (if needs_escape [b] then [92, b] else [b]) @ escape_sudoers s"
  using safe_word_ascii [of "b # s"] safe_word_ascii [of s]
  by (simp add: escape_sudoers_def str_chars_ascii safe_word_def)

lemma cmnd_words_escape:
  "safe_word s \<Longrightarrow> cmnd_words acc (escape_sudoers s @ rest) = cmnd_words (acc @ s) rest"
proof (induction s arbitrary: acc)
  case Nil
  then show ?case by (simp add: escape_sudoers_def)
next
  case (Cons b s)
  then have "safe_word s" "b \<noteq> 92" "b \<noteq> 32" by (auto simp: safe_word_def dest: safe_byte_not)
  with Cons show ?case by (auto simp: escape_Cons)
qed

lemma terminators_escape: "safe_word s \<Longrightarrow> terminators (escape_sudoers s @ rest) = terminators rest"
proof (induction s)
  case Nil
  then show ?case by (simp add: escape_sudoers_def)
next
  case (Cons b s)
  then have "safe_word s" "b \<noteq> 92" by (auto simp: safe_word_def dest: safe_byte_not)
  with Cons show ?case by (auto simp: escape_Cons)
qed

lemma args_words:
  "\<forall>a \<in> set as. safe_word a \<Longrightarrow>
   cmnd_words acc (concat (map (\<lambda>a. 32 # escape_sudoers a) as)) = acc # as"
proof (induction as arbitrary: acc)
  case (Cons a as)
  then show ?case using cmnd_words_escape [of a "[]"] by simp
qed simp

lemma args_terminators:
  "\<forall>a \<in> set as. safe_word a \<Longrightarrow> terminators (concat (map (\<lambda>a. 32 # escape_sudoers a) as)) = []"
  by (induction as) (simp_all add: terminators_escape needs_escape_def)

lemma escape_no_newline: "safe_word s \<Longrightarrow> 10 \<notin> set (escape_sudoers s)"
proof (induction s)
  case Nil
  then show ?case by (simp add: escape_sudoers_def)
next
  case (Cons b s)
  then have "safe_word s" "b \<noteq> 10" by (auto simp: safe_word_def dest: safe_byte_not)
  with Cons show ?case by (simp add: escape_Cons)
qed

section \<open>Properties\<close>

text \<open>What the checks of the renderer amount to.\<close>

definition acceptable :: "sudoers_spec \<Rightarrow> bool" where
  "acceptable spec \<longleftrightarrow>
     sp_group spec \<noteq> [] \<and> safe_word (sp_group spec) \<and>
     sp_binary spec \<noteq> [] \<and> hd (sp_binary spec) = 47 \<and> safe_word (sp_binary spec) \<and>
     sp_args spec \<noteq> [] \<and> (\<forall>a \<in> set (sp_args spec). a \<noteq> [] \<and> safe_word a)"

lemma render_acceptable:
  "acceptable spec \<Longrightarrow>
   render spec = Inr (fragment_header @ rule_prefix (sp_group spec) @
                      rule_command (sp_binary spec) (sp_args spec) @ [10])"
  by (simp add: acceptable_def render_def iffD2 [OF invalid_chars_None] iffD2 [OF check_args_None]
      ascii_utf8_valid safe_word_ascii)

lemma render_Inr_acceptable: "render spec = Inr t \<Longrightarrow> acceptable spec"
  by (auto simp: render_def acceptable_def invalid_chars_None check_args_None
      split: if_splits option.splits)

lemma rule_command_no_newline:
  assumes "safe_word binary" "\<forall>a \<in> set args. safe_word a"
  shows "10 \<notin> set (rule_command binary args)"
  using assms by (auto simp: rule_command_def escape_no_newline)

lemma rule_prefix_no_newline: "safe_word grp \<Longrightarrow> 10 \<notin> set (rule_prefix grp)"
  by (auto simp: rule_prefix_def safe_word_def dest: safe_byte_not)

lemma render_command:
  assumes "render spec = Inr t"
  defines "cmnd \<equiv> rule_command (sp_binary spec) (sp_args spec)"
  shows "t = fragment_header @ rule_prefix (sp_group spec) @ cmnd @ [10]"
    and "cmnd_words [] cmnd = sp_binary spec # sp_args spec"
    and "terminators cmnd = []"
    and "10 \<notin> set (rule_prefix (sp_group spec) @ cmnd)"
proof -
  have a: "acceptable spec" by (rule render_Inr_acceptable [OF assms(1)])
  then have w: "safe_word (sp_group spec)" "safe_word (sp_binary spec)"
    "\<forall>a \<in> set (sp_args spec). safe_word a" by (auto simp: acceptable_def)
  show "t = fragment_header @ rule_prefix (sp_group spec) @ cmnd @ [10]"
    using assms render_acceptable [OF a] by simp
  show "cmnd_words [] cmnd = sp_binary spec # sp_args spec"
    using w by (simp add: cmnd_def rule_command_def cmnd_words_escape args_words)
  show "terminators cmnd = []"
    using w by (simp add: cmnd_def rule_command_def terminators_escape args_terminators)
  show "10 \<notin> set (rule_prefix (sp_group spec) @ cmnd)"
    using w by (simp add: cmnd_def rule_command_no_newline rule_prefix_no_newline)
qed

text \<open>
  C31: A fragment is rendered exactly for the specifications whose group, absolute binary path and
  arguments (at least one) are non-empty words of the safe alphabet. What is rendered is the fixed
  comment header and one rule on a line of its own, whose command, read the way sudoers reads it,
  is the binary and the argument list that were given, word for word, with no unescaped separator
  in it: no argument can widen the rule or add a second one.
\<close>

theorem sudoers_rule_exact:
  "((\<exists>t. render spec = Inr t) \<longleftrightarrow> acceptable spec) \<and>
   (\<forall>t. render spec = Inr t \<longrightarrow>
     (\<exists>rule cmnd. t = fragment_header @ rule @ [10] \<and> 10 \<notin> set rule \<and>
       rule = rule_prefix (sp_group spec) @ cmnd \<and>
       cmnd_words [] cmnd = sp_binary spec # sp_args spec \<and> terminators cmnd = []))"
proof (intro conjI allI impI)
  show "(\<exists>t. render spec = Inr t) \<longleftrightarrow> acceptable spec"
    using render_acceptable [of spec] render_Inr_acceptable [of spec] by blast
next
  fix t
  assume r: "render spec = Inr t"
  show "\<exists>rule cmnd. t = fragment_header @ rule @ [10] \<and> 10 \<notin> set rule \<and>
       rule = rule_prefix (sp_group spec) @ cmnd \<and>
       cmnd_words [] cmnd = sp_binary spec # sp_args spec \<and> terminators cmnd = []"
    using render_command [OF r] by (intro exI conjI) simp_all
qed

definition sample_spec :: sudoers_spec where
  "sample_spec = \<lparr> sp_group = lit ''admin'', sp_binary = lit ''/usr/bin/usbipd'',
     sp_args = [lit ''daemon'', lit ''--allow'', lit ''0781:5530''] \<rparr>"

lemma sample_spec_acceptable: "acceptable sample_spec"
  by (simp add: acceptable_def sample_spec_def safe_word_def is_safe_byte_def is_ascii_alphanumeric_def)

theorem sudoers_rule_exact_witness:
  "\<exists>t rule cmnd. render sample_spec = Inr t \<and> t = fragment_header @ rule @ [10] \<and> 10 \<notin> set rule \<and>
     rule = rule_prefix (lit ''admin'') @ cmnd \<and>
     cmnd_words [] cmnd = [lit ''/usr/bin/usbipd'', lit ''daemon'', lit ''--allow'', lit ''0781:5530''] \<and>
     terminators cmnd = []"
proof -
  obtain t where t: "render sample_spec = Inr t"
    using sudoers_rule_exact [of sample_spec] sample_spec_acceptable by blast
  show ?thesis using t conjunct2 [OF sudoers_rule_exact [of sample_spec]] by (simp add: sample_spec_def)
qed

end
