(* ===== verification/Cli.thy ===== *)
theory Cli
  imports Events_Hub Sudoers
begin

text \<open>
  The command line of the daemon (\<^verbatim>\<open>usbipd/src/main.rs\<close>): the parser of \<^verbatim>\<open>VID:PID\<close> values, the
  configuration that \<^verbatim>\<open>main\<close> builds from the flags, the argument list that \<^verbatim>\<open>usbipd sudoers\<close> pins,
  and the listing. Splitting the command line into the fields of a subcommand is the work of clap:
  a value of type \<open>cmd\<close> is what it returns.
\<close>

section \<open>Arguments\<close>

datatype vid_pid_error =
    ExpectedVidPid rstr
  | BadVid rstr int_error
  | BadPid rstr int_error

definition parse_vid_pid :: "rstr \<Rightarrow> vid_pid_error + u16 \<times> u16" where
  "parse_vid_pid s =
     (case split_once (of_char CHR '':'') s of
        None \<Rightarrow> Inl (ExpectedVidPid s)
      | Some (v, p) \<Rightarrow>
          (case from_str_radix 16 65535 v of
             Inl e \<Rightarrow> Inl (BadVid v e)
           | Inr vid \<Rightarrow>
               (case from_str_radix 16 65535 p of
                  Inl e \<Rightarrow> Inl (BadPid p e)
                | Inr pid \<Rightarrow> Inr (of_nat vid, of_nat pid))))"

text \<open>The values of a repeated \<^verbatim>\<open>--allow\<close> flag: the first that does not parse ends the program.\<close>

fun parse_allow_flags :: "rstr list \<Rightarrow> vid_pid_error + (u16 \<times> u16) list" where
  "parse_allow_flags [] = Inr []"
| "parse_allow_flags (s # ss) =
     (case parse_vid_pid s of
        Inl e \<Rightarrow> Inl e
      | Inr x \<Rightarrow>
          (case parse_allow_flags ss of
             Inl e \<Rightarrow> Inl e
           | Inr xs \<Rightarrow> Inr (x # xs)))"

definition DEFAULT_PORT :: u16 where "DEFAULT_PORT = 3240"

definition default_listen :: socket_addr where
  "default_listen = \<lparr>sa_ip = V4 127 0 0 1, sa_port = DEFAULT_PORT\<rparr>"

datatype cmd =
    List (cm_json: bool)
  | Daemon (cm_listen: socket_addr) (cm_socket: "rstr option") (cm_allow: "(u16 \<times> u16) list")
      (cm_allow_all: bool) (cm_allow_public: bool)
  | Events (cm_events_socket: rstr)
  | SudoersCmd (cm_grp: rstr) (cm_binary: "bytes option") (cm_daemon_args: "rstr list")
  | ReleaseCaptureCmd (cm_busid: rstr)

definition policy_of :: "bool \<Rightarrow> (u16 \<times> u16) list \<Rightarrow> access_policy" where
  "policy_of all_flag allowed =
     (if all_flag then AllowAll
      else if allowed = [] then DenyAll
      else AllowList (set allowed))"

definition endpoint_of :: "socket_addr \<Rightarrow> rstr option \<Rightarrow> endpoint" where
  "endpoint_of addr sock = (case sock of Some path \<Rightarrow> Unix path | None \<Rightarrow> Tcp addr)"

definition config_of ::
  "socket_addr \<Rightarrow> rstr option \<Rightarrow> (u16 \<times> u16) list \<Rightarrow> bool \<Rightarrow> bool \<Rightarrow> daemon_config" where
  "config_of addr sock allowed all_flag public_flag =
     \<lparr>dc_endpoint = endpoint_of addr sock, dc_policy = policy_of all_flag allowed,
      dc_allow_public_bind = public_flag\<rparr>"

section \<open>The sudoers subcommand\<close>

definition sudoers_argv :: "rstr list \<Rightarrow> rstr list" where
  "sudoers_argv args =
     (case args of
        [] \<Rightarrow> [lit ''daemon'']
      | a # _ \<Rightarrow> (if a \<noteq> lit ''daemon'' then [lit ''daemon''] else []) @ args)"

text \<open>What the subcommand prints, or why it fails; \<open>self\<close> is the path of the running binary.\<close>

definition emit_sudoers :: "bytes \<Rightarrow> rstr \<Rightarrow> bytes option \<Rightarrow> rstr list \<Rightarrow> sudoers_error + rstr" where
  "emit_sudoers self grp_name bin args =
     render \<lparr>sp_group = grp_name, sp_binary = (case bin of Some p \<Rightarrow> p | None \<Rightarrow> self),
             sp_args = sudoers_argv args\<rparr>"

section \<open>The listing\<close>

record json_device =
  jd_busid :: rstr
  jd_vendor_id :: rstr
  jd_product_id :: rstr
  jd_manufacturer :: "rstr option"
  jd_product :: "rstr option"
  jd_class :: u8
  jd_subclass :: u8
  jd_protocol :: u8
  jd_speed :: u32

definition json_device_from :: "usb_device \<Rightarrow> json_device" where
  "json_device_from d =
     \<lparr>jd_busid = ud_busid d, jd_vendor_id = fmt_04x (ud_vendor_id d),
      jd_product_id = fmt_04x (ud_product_id d), jd_manufacturer = ud_manufacturer d,
      jd_product = ud_product d, jd_class = ud_class d, jd_subclass = ud_subclass d,
      jd_protocol = ud_protocol d, jd_speed = ud_speed d\<rparr>"

definition vid_pid_text :: "usb_device \<Rightarrow> rstr" where
  "vid_pid_text d = fmt_04x (ud_vendor_id d) @ lit '':'' @ fmt_04x (ud_product_id d)"

definition device_text :: "usb_device \<Rightarrow> rstr" where
  "device_text d =
     (let vendor = (case ud_manufacturer d of Some s \<Rightarrow> s | None \<Rightarrow> lit ''(unknown vendor)'');
          product = (case ud_product d of Some s \<Rightarrow> s | None \<Rightarrow> lit ''(unknown product)'')
      in lit '' - busid '' @ ud_busid d @ lit '' ('' @ vid_pid_text d @ lit '')'' @ [10] @
         lit ''     '' @ vendor @ lit '' : '' @ product @ [10] @
         lit ''     class='' @ fmt_02x (ud_class d) @ lit ''/'' @ fmt_02x (ud_subclass d) @
           lit ''/'' @ fmt_02x (ud_protocol d) @ [10] @
         lit ''     allow with: --allow '' @ vid_pid_text d @ [10])"

definition list_text :: "usb_device list \<Rightarrow> rstr" where
  "list_text devices =
     lit ''Local USB devices'' @ [10] @ lit ''================='' @ [10] @
     (if devices = [] then lit '' (none)'' @ [10] else concat (map device_text devices))"

text \<open>
  The subcommand: what it prints, and whether it succeeds. The listing and the JSON printer
  (serde\_json, whose writer may fail part way) are arguments.
\<close>

definition list_cmd ::
  "host_error + usb_device list \<Rightarrow> (json_device list \<Rightarrow> rstr \<times> bool) \<Rightarrow> bool \<Rightarrow> rstr \<times> bool" where
  "list_cmd devices to_writer_pretty as_json =
     (case devices of
        Inl e \<Rightarrow> ([], False)
      | Inr ds \<Rightarrow>
          if as_json then
            (case to_writer_pretty (map json_device_from ds) of
               (out, True) \<Rightarrow> (out @ [10], True)
             | (out, False) \<Rightarrow> (out, False))
          else (list_text ds, True))"

section \<open>Dispatch\<close>

text \<open>
  What the program meets when it runs: the listing of \<^verbatim>\<open>usbipd list\<close> with the JSON printer, the worlds
  of the two servers, the path of the binary, and the host environment of a manual release.
\<close>

record cli_env =
  ce_listing :: listing
  ce_json :: "json_device list \<Rightarrow> rstr \<times> bool"
  ce_serve :: serve_env
  ce_events :: events_env
  ce_self :: bytes
  ce_root :: bool
  ce_iokit :: iokit

datatype cli_outcome =
    Printed rstr bool
  | Served "serve_action list" "(serve_error + unit) option"
  | Streaming "serve_action list" "events_error + id_map \<times> hub"
  | Released "io_call list" rstr "(host_error + unit) option"

definition release_capture_cmd :: "cli_env \<Rightarrow> rstr \<Rightarrow> cli_outcome" where
  "release_capture_cmd env b =
     (case release_capture (ce_root env) (ce_iokit env) (ce_listing env) b of
        (calls, r) \<Rightarrow>
          Released calls
            (if r = Some (Inr ()) then lit ''released capture for busid '' @ b @ [10] else []) r)"

fun main_cmd :: "cli_env \<Rightarrow> cmd \<Rightarrow> cli_outcome" where
  "main_cmd env (List as_json) =
     (case list_cmd (list_devices (ce_listing env)) (ce_json env) as_json of (out, ok) \<Rightarrow> Printed out ok)"
| "main_cmd env (Daemon addr sock allowed all_flag public_flag) =
     (case serve (ce_serve env) (config_of addr sock allowed all_flag public_flag) of
        (acts, r) \<Rightarrow> Served acts r)"
| "main_cmd env (Events path) = (case events_setup (ce_events env) path of (acts, r) \<Rightarrow> Streaming acts r)"
| "main_cmd env (SudoersCmd grp_name bin args) =
     (case emit_sudoers (ce_self env) grp_name bin args of
        Inl _ \<Rightarrow> Printed [] False
      | Inr t \<Rightarrow> Printed t True)"
| "main_cmd env (ReleaseCaptureCmd b) = release_capture_cmd env b"

section \<open>Facts\<close>

lemma parse_vid_pid_text: "parse_vid_pid (vid_pid_text d) = Inr (ud_vendor_id d, ud_product_id d)"
  using split_once_append [OF fmt_04x_no_colon, of "ud_vendor_id d" "fmt_04x (ud_product_id d)"]
  by (simp add: parse_vid_pid_def vid_pid_text_def from_str_radix_fmt_04x)

lemma parse_allow_flags_text:
  "parse_allow_flags (map vid_pid_text ds) = Inr (map (\<lambda>d. (ud_vendor_id d, ud_product_id d)) ds)"
  by (induction ds) (simp_all add: parse_vid_pid_text)

lemma permits_policy_of: "permits (policy_of all_flag allowed) v p \<longleftrightarrow> all_flag \<or> (v, p) \<in> set allowed"
  by (cases allowed) (simp_all add: policy_of_def)

lemma accept_loop_no_bind: "accept_loop es = (acts, r) \<Longrightarrow> BindTcp a \<notin> set acts"
  by (induction es arbitrary: acts rule: accept_loop.induct) (auto split: prod.splits)

lemma device_text_hint:
  "\<exists>pre. device_text d = pre @ lit ''     allow with: --allow '' @ vid_pid_text d @ [10]"
  unfolding device_text_def Let_def append_assoc [symmetric] by blast

lemma list_text_hint:
  assumes "d \<in> set ds"
  shows "\<exists>pre post. list_text ds = pre @ lit ''     allow with: --allow '' @ vid_pid_text d @ [10] @ post"
proof -
  obtain xs ys where ds: "ds = xs @ d # ys" using assms by (auto simp: in_set_conv_decomp)
  obtain pre where d: "device_text d = pre @ lit ''     allow with: --allow '' @ vid_pid_text d @ [10]"
    using device_text_hint by blast
  have "list_text ds = (lit ''Local USB devices'' @ [10] @ lit ''================='' @ [10] @
      concat (map device_text xs) @ pre) @ lit ''     allow with: --allow '' @ vid_pid_text d @ [10] @
      concat (map device_text ys)"
    unfolding list_text_def ds by (simp add: d)
  then show ?thesis by blast
qed

section \<open>Properties\<close>

text \<open>
  C32: The flags mean what they say. For every device of a text listing the listing contains an
  \<^verbatim>\<open>--allow\<close> hint; the value of that hint is accepted by the parser of the flag and yields the
  vendor and product id of the device; and a daemon started with the hints of some devices exports
  exactly the devices with one of those pairs of ids, no more and no fewer.
\<close>

theorem allow_hint_exact:
  assumes "d \<in> set ds"
  shows "(\<exists>pre post. list_text ds = pre @ lit ''     allow with: --allow '' @ vid_pid_text d @ [10] @ post) \<and>
    parse_vid_pid (vid_pid_text d) = Inr (ud_vendor_id d, ud_product_id d) \<and>
    (\<exists>pairs. parse_allow_flags (map vid_pid_text hints) = Inr pairs \<and>
      policy_filter (policy_of False pairs) ds =
        filter (\<lambda>e. \<exists>h \<in> set hints. ud_vendor_id h = ud_vendor_id e \<and> ud_product_id h = ud_product_id e) ds)"
proof (intro conjI)
  show "\<exists>pre post. list_text ds = pre @ lit ''     allow with: --allow '' @ vid_pid_text d @ [10] @ post"
    by (rule list_text_hint [OF assms])
  show "parse_vid_pid (vid_pid_text d) = Inr (ud_vendor_id d, ud_product_id d)"
    by (rule parse_vid_pid_text)
  show "\<exists>pairs. parse_allow_flags (map vid_pid_text hints) = Inr pairs \<and>
      policy_filter (policy_of False pairs) ds =
        filter (\<lambda>e. \<exists>h \<in> set hints. ud_vendor_id h = ud_vendor_id e \<and> ud_product_id h = ud_product_id e) ds"
    by (auto simp: parse_allow_flags_text policy_filter_def permits_policy_of image_iff eq_commute
        intro!: filter_cong)
qed

definition listed_device :: usb_device where
  "listed_device = \<lparr>ud_busid = lit ''20-1'', ud_busnum = 20, ud_devnum = 1, ud_speed = 3,
     ud_vendor_id = 0x1050, ud_product_id = 0x0407, ud_bcd_device = 0x0543, ud_class = 0,
     ud_subclass = 0, ud_protocol = 0, ud_configuration_value = 1, ud_num_configurations = 1,
     ud_manufacturer = None, ud_product = None, ud_serial = None, ud_interfaces = []\<rparr>"

definition other_device :: usb_device where
  "other_device = listed_device\<lparr>ud_busid := lit ''20-2'', ud_product_id := 0x0408\<rparr>"

theorem allow_hint_exact_witness:
  "(\<exists>pre post. list_text [listed_device, other_device] =
      pre @ lit ''     allow with: --allow '' @ lit ''1050:0407'' @ [10] @ post) \<and>
   parse_vid_pid (lit ''1050:0407'') = Inr (0x1050, 0x0407) \<and>
   (\<exists>pairs. parse_allow_flags [lit ''1050:0407''] = Inr pairs \<and>
     policy_filter (policy_of False pairs) [listed_device, other_device] = [listed_device])"
proof -
  have t: "vid_pid_text listed_device = lit ''1050:0407''"
    by (simp add: vid_pid_text_def listed_device_def fmt_04x_def hex_digit_def)
  have devices: "ud_vendor_id listed_device = 0x1050" "ud_product_id listed_device = 0x0407"
    "ud_vendor_id other_device = 0x1050" "ud_product_id other_device = 0x0408"
    by (simp_all add: listed_device_def other_device_def)
  have exported: "filter (\<lambda>e. \<exists>h \<in> set [listed_device].
      ud_vendor_id h = ud_vendor_id e \<and> ud_product_id h = ud_product_id e) [listed_device, other_device] =
    [listed_device]" by (simp add: devices)
  have "listed_device \<in> set [listed_device, other_device]" by simp
  from allow_hint_exact [OF this, of "[listed_device]"] show ?thesis
    unfolding exported unfolding list.map t devices(1,2) .
qed

text \<open>
  A daemon started with no flags is closed. It exports no device and listens on the loopback
  interface only. Naming a socket path makes it bind that path and no TCP address, and a TCP address
  that is not a loopback address is refused before any action unless the user acknowledges it
  with \<^verbatim>\<open>--allow-public\<close>.
\<close>

theorem daemon_defaults_closed:
  assumes "main_cmd env (Daemon addr sock allowed all_flag public_flag) = Served acts r"
  shows "(\<not> all_flag \<and> allowed = [] \<longrightarrow>
       policy_filter (dc_policy (config_of addr sock allowed all_flag public_flag)) ds = []) \<and>
    (\<forall>a. BindTcp a \<in> set acts \<longrightarrow> sock = None \<and> a = addr \<and> (is_loopback a \<or> public_flag)) \<and>
    (sock = None \<and> \<not> is_loopback addr \<and> \<not> public_flag \<longrightarrow> acts = [] \<and> r = Some (Inl (RefuseBind addr))) \<and>
    (sock = None \<and> addr = default_listen \<longrightarrow> BindTcp default_listen \<in> set acts)"
proof -
  have s: "serve (ce_serve env) (config_of addr sock allowed all_flag public_flag) = (acts, r)"
    using assms by (simp split: prod.splits)
  show ?thesis
    using s by (cases sock) (auto simp: config_of_def endpoint_of_def policy_of_def policy_filter_def
        refused_addr_def default_listen_def is_loopback_def serve_def serve_endpoint_def accept_loop_unix_def Let_def
        split: if_splits prod.splits option.splits sum.splits dest: accept_loop_no_bind)
qed

definition quiet_serve :: serve_env where
  "quiet_serve = \<lparr>sv_lstat = (\<lambda>_. None), sv_bind_ok = True, sv_chmod_ok = True, sv_events = [Shutdown],
     sv_at_exit = (\<lambda>_. Some True), sv_attached = []\<rparr>"

definition quiet_env :: cli_env where
  "quiet_env = \<lparr>ce_listing = Inr [], ce_json = (\<lambda>_. ([], True)), ce_serve = quiet_serve,
     ce_events = \<lparr>ev_lstat = (\<lambda>_. None), ev_bind_ok = True, ev_chmod_ok = True, ev_watch_ok = True, ev_listing = Inr []\<rparr>,
     ce_self = lit ''/bin/u'', ce_root = False, ce_iokit = witness_iokit\<rparr>"

theorem daemon_defaults_closed_witness:
  "main_cmd quiet_env (Daemon default_listen None [] False False) =
     Served [BindTcp default_listen] (Some (Inr ())) \<and>
   policy_filter (dc_policy (config_of default_listen None [] False False)) [listed_device] = [] \<and>
   BindTcp default_listen \<in> set [BindTcp default_listen]"
proof -
  have r: "main_cmd quiet_env (Daemon default_listen None [] False False) =
      Served [BindTcp default_listen] (Some (Inr ()))"
    by (simp add: quiet_env_def quiet_serve_def config_of_def endpoint_of_def serve_def refused_addr_def
        serve_endpoint_def is_loopback_def default_listen_def)
  show ?thesis using r daemon_defaults_closed [OF r, of "[listed_device]"] by blast
qed

text \<open>
  A sudoers rule that is printed authorises exactly one command: the given binary (or the
  running one) with the subcommand \<^verbatim>\<open>daemon\<close> and the given arguments. Whatever the arguments, no
  other subcommand can be whitelisted.
\<close>

theorem sudoers_pins_daemon:
  assumes "emit_sudoers self grp_name bin args = Inr t"
  shows "\<exists>cmnd. t = fragment_header @ rule_prefix grp_name @ cmnd @ [10] \<and> 10 \<notin> set cmnd \<and>
    terminators cmnd = [] \<and>
    cmnd_words [] cmnd = (case bin of Some p \<Rightarrow> p | None \<Rightarrow> self) # lit ''daemon'' #
      (if args \<noteq> [] \<and> hd args = lit ''daemon'' then tl args else args)"
  using render_command [OF assms [unfolded emit_sudoers_def]]
  by (intro exI conjI) (auto simp: sudoers_argv_def split: list.splits)

theorem sudoers_pins_daemon_witness:
  "\<exists>t cmnd. emit_sudoers (lit ''/bin/u'') (lit ''admin'') None [lit ''list''] = Inr t \<and>
     t = fragment_header @ rule_prefix (lit ''admin'') @ cmnd @ [10] \<and> 10 \<notin> set cmnd \<and>
     terminators cmnd = [] \<and> cmnd_words [] cmnd = [lit ''/bin/u'', lit ''daemon'', lit ''list'']"
proof -
  let ?e = "emit_sudoers (lit ''/bin/u'') (lit ''admin'') None [lit ''list'']"
  have "\<exists>t. ?e = Inr t"
    unfolding emit_sudoers_def
    by (rule exI, rule render_acceptable)
      (simp add: acceptable_def sudoers_argv_def safe_word_def is_safe_byte_def is_ascii_alphanumeric_def)
  then obtain t where t: "?e = Inr t" by blast
  show ?thesis using t sudoers_pins_daemon [OF t] by simp
qed

end
