(* ===== verification/Test_Loopback.thy ===== *)
theory Test_Loopback
  imports Cli
begin

text \<open>
  The integration tests of the daemon (\<^verbatim>\<open>usbipd/tests/loopback_devlist.rs\<close>) on the model. They start
  the daemon on a socket in a fresh directory with \<^verbatim>\<open>--allow-all\<close> and speak USB/IP at it by hand. What
  a test does not control, the devices of the machine it runs on and the world behind them, is an
  argument.
\<close>

section \<open>Fixture\<close>

definition test_sock :: rstr where
  "test_sock = lit ''/tmp/x/usbipd.sock''"

text \<open>The fresh directory holds nothing at the path, and the one client connects.\<close>

definition test_world :: serve_env where
  "test_world = \<lparr>sv_lstat = (\<lambda>_. None), sv_bind_ok = True, sv_chmod_ok = True, sv_events = [Accepted (lit ''unix:unknown'')],
     sv_at_exit = (\<lambda>_. Some True), sv_attached = []\<rparr>"

definition test_daemon_cmd :: cmd where
  "test_daemon_cmd = Daemon default_listen (Some test_sock) [] True False"

text \<open>The actions of the daemon that the command starts, while it runs.\<close>

definition test_spawn :: "cli_env \<Rightarrow> serve_action list" where
  "test_spawn env = (case main_cmd (env\<lparr>ce_serve := test_world\<rparr>) test_daemon_cmd of Served acts None \<Rightarrow> acts | _ \<Rightarrow> [])"

text \<open>The client writes its request; the session answers from the policy that the flags give.\<close>

definition test_client :: "'w session_env \<Rightarrow> bytes \<Rightarrow> outcome \<times> bytes" where
  "test_client env request =
     (case handle_session env (lit ''unix:unknown'')
         \<lparr>cn_reader = \<lparr>rd_bytes = request, rd_broken = False\<rparr>, cn_writer = \<lparr>wr_sent = [], wr_room = None\<rparr>,
          cn_state = daemon_state_new (dc_policy (config_of (cm_listen test_daemon_cmd) (cm_socket test_daemon_cmd)
             (cm_allow test_daemon_cmd) (cm_allow_all test_daemon_cmd) (cm_allow_public test_daemon_cmd)))\<rparr> of
        (out, c) \<Rightarrow> (out, wr_sent (cn_writer c)))"

section \<open>Tests\<close>

definition test_devlist_over_unix_socket :: "cli_env \<Rightarrow> 'w session_env \<Rightarrow> bool" where
  "test_devlist_over_unix_socket env sess \<longleftrightarrow>
     (case test_spawn env of
        [BindUnix path, SetMode path' mode True, SpawnSession _] \<Rightarrow>
          path = test_sock \<and> path' = test_sock \<and> mode = 6 * 8 * 8
      | _ \<Rightarrow> False) \<and>
     (let reply = snd (test_client sess (op_header_encode (op_header_new OP_REQ_DEVLIST)))
      in (case op_header_decode (take 8 reply) of
            Some (Inr hdr) \<Rightarrow> op_version hdr = USBIP_VERSION \<and> op_code hdr = OP_REP_DEVLIST \<and> op_status hdr = 0
          | _ \<Rightarrow> False) \<and>
         (case be32_at reply 8 of
            Some n \<Rightarrow> n < 256
          | None \<Rightarrow> False))"

definition test_unknown_op_code_closes_connection :: "cli_env \<Rightarrow> 'w session_env \<Rightarrow> bool" where
  "test_unknown_op_code_closes_connection env sess \<longleftrightarrow>
     BindUnix test_sock \<in> set (test_spawn env) \<and>
     test_client sess (op_header_encode \<lparr>op_version = USBIP_VERSION, op_code = 0x0000, op_status = 0\<rparr>) =
       (Done (Inr ()), [])"

section \<open>They pass\<close>

lemma test_spawn_eq:
  "test_spawn env = [BindUnix test_sock, SetMode test_sock SOCKET_MODE True, SpawnSession (lit ''unix:unknown'')]"
  by (simp add: test_spawn_def test_daemon_cmd_def test_world_def config_of_def endpoint_of_def serve_def
      refused_addr_def serve_endpoint_def accept_loop_unix_def)

lemma session_reads_header:
  "read_exact 8 \<lparr>rd_bytes = op_header_encode h, rd_broken = b\<rparr> =
     (Inr (op_header_encode h), \<lparr>rd_bytes = [], rd_broken = b\<rparr>)"
  "op_header_decode (op_header_encode h) = Some (Inr h)"
  using op_header_dec_enc [of h "[]"] by (simp_all add: read_exact_def op_hdr.enc_length)

lemma devlist_reply_front:
  "take 8 (encode_rep_devlist ds) = op_header_encode (op_header_new OP_REP_DEVLIST)"
  "be32_at (encode_rep_devlist ds) 8 = Some (u32_of_usize (length (filter (\<lambda>d. ud_class d \<noteq> 9) ds)))"
  by (simp_all add: encode_rep_devlist_def Let_def op_hdr.enc_length be_at_skip be_at_field)

lemma loopback_devlist_test:
  assumes "se_listing sess = Inr infos" "length infos < 256"
  shows "test_devlist_over_unix_socket env sess"
proof -
  let ?ds = "policy_filter AllowAll (map from_info infos)"
  have "length (filter (\<lambda>d. ud_class d \<noteq> 9) ?ds) < 256"
    by (intro le_less_trans [OF length_filter_le]) (simp add: policy_filter_def assms(2))
  then have n: "u32_of_usize (length (filter (\<lambda>d. ud_class d \<noteq> 9) ?ds)) < 256"
    by (simp add: word_less_nat_alt unat_u32_of_usize)
  have reply: "snd (test_client sess (op_header_encode (op_header_new OP_REQ_DEVLIST))) = encode_rep_devlist ?ds"
    using assms(1)
    by (simp add: test_client_def handle_session_def session_reads_header handle_devlist_def list_devices_def
        test_daemon_cmd_def config_of_def policy_of_def daemon_state_new_def op_header_new_def Let_def)
  show ?thesis
    unfolding test_devlist_over_unix_socket_def reply Let_def devlist_reply_front test_spawn_eq
    using n by (simp add: SOCKET_MODE_def session_reads_header op_header_new_def)
qed

lemma loopback_unknown_op_test [passed]: "test_unknown_op_code_closes_connection env sess"
  by (simp add: test_unknown_op_code_closes_connection_def test_spawn_eq test_client_def handle_session_def
      session_reads_header op_codes)

end
