(* ===== verification/Error_Text.thy ===== *)
theory Error_Text
  imports Host_Capture Wire_Codec
begin

text \<open>
  The texts of the errors, as \<^verbatim>\<open>thiserror\<close> derives them from the attributes of the enums
  (\<^verbatim>\<open>usbip-proto/src/error.rs\<close>, \<^verbatim>\<open>HostError\<close> in \<^verbatim>\<open>host-mac/src/lib.rs\<close> and \<^verbatim>\<open>CaptureError\<close> in
  \<^verbatim>\<open>capture.rs\<close>). The texts of the errors of nusb are arguments. \<^verbatim>\<open>{:#x}\<close> of a signed integer shows its
  two's complement, which is the value of the word.
\<close>

fun show_hex :: "nat \<Rightarrow> rstr" where
  "show_hex n = (if n < 16 then [hex_digit n] else show_hex (n div 16) @ [hex_digit (n mod 16)])"

declare show_hex.simps [simp del]

definition fmt_alt_x :: "nat \<Rightarrow> rstr" where
  "fmt_alt_x n = lit ''0x'' @ show_hex n"

fun proto_error_text :: "proto_error \<Rightarrow> rstr" where
  "proto_error_text (ShortRead n k) =
     lit ''short read: need '' @ show_dec n @ lit '' bytes, got '' @ show_dec k"
| "proto_error_text (UnknownOp op) = lit ''unknown op code: 0x'' @ fmt_04x op"
| "proto_error_text (UnsupportedVersion v) = lit ''unsupported protocol version: 0x'' @ fmt_04x v"

fun capture_error_text :: "capture_error \<Rightarrow> rstr" where
  "capture_error_text (NoService i) = lit ''no IOUSBDevice service found for registry_entry_id '' @ fmt_alt_x (unat i)"
| "capture_error_text (PlugIn r) = lit ''IOCreatePlugInInterfaceForService failed: '' @ fmt_alt_x (unat r)"
| "capture_error_text (QueryInterface r) = lit ''QueryInterface failed: HRESULT '' @ fmt_alt_x (unat r)"
| "capture_error_text (OpenSeize r) = lit ''USBDeviceOpenSeize failed: '' @ fmt_alt_x (unat r) @ lit '' (run as root?)''"
| "capture_error_text (ReEnumerate r) = lit ''USBDeviceReEnumerate failed: '' @ fmt_alt_x (unat r)"

fun host_error_text :: "(nusb_error \<Rightarrow> rstr) \<Rightarrow> (transfer_error \<Rightarrow> rstr) \<Rightarrow> host_error \<Rightarrow> rstr" where
  "host_error_text nusb tr (Nusb e) = lit ''nusb error: '' @ nusb e"
| "host_error_text nusb tr (Transfer e) = lit ''transfer error: '' @ tr e"
| "host_error_text nusb tr (NotFound busid) = lit ''device not found: busid '' @ busid"
| "host_error_text nusb tr (EndpointNotFound ep) =
     lit ''endpoint 0x'' @ fmt_02x ep @ lit '' not found in active configuration''"
| "host_error_text nusb tr (UnsupportedTransfer ep) =
     lit ''unsupported transfer type for endpoint 0x'' @ fmt_02x ep"
| "host_error_text nusb tr InvalidSetup = lit ''invalid setup packet''"
| "host_error_text nusb tr (Capture e) = lit ''force-capture failed: '' @ capture_error_text e"
| "host_error_text nusb tr ReenumerateTimeout = lit ''timed out waiting for device to re-enumerate''"

end
