(* ===== verification/Hid_Keyboard.thy ===== *)
theory Hid_Keyboard
  imports Device_Open Error_Text
begin

text \<open>
  The example program of the host crate (\<^verbatim>\<open>host-mac/examples/hid_keyboard.rs\<close>): it opens a boot
  keyboard, polls its interrupt endpoint and prints which keys go down and up. What it prints is
  modelled as events and as the text of their lines; the flag that Ctrl-C clears is the number of
  times it is read as set. Which value of nusb's error type is \<^verbatim>\<open>Cancelled\<close> is an argument.
\<close>

section \<open>Lines\<close>

datatype key_event =
    Down u8 rstr
  | Up u8 rstr
  | Mod rstr

definition mod_names :: "(u8 \<times> rstr) list" where
  "mod_names =
     [(0b00000001, lit ''LCtrl''), (0b00000010, lit ''LShift''), (0b00000100, lit ''LAlt''), (0b00001000, lit ''LGUI''),
      (0b00010000, lit ''RCtrl''), (0b00100000, lit ''RShift''), (0b01000000, lit ''RAlt''), (0b10000000, lit ''RGUI'')]"

definition describe_mods :: "u8 \<Rightarrow> rstr" where
  "describe_mods m =
     (let active = map snd (filter (\<lambda>(b, _). m AND b \<noteq> 0) mod_names)
      in if active = [] then lit ''[no mods]'' else lit ''['' @ join (lit ''+'') active @ lit '']'')"






section \<open>Reports\<close>

text \<open>\<^const>\<open>None\<close> if a report is too short for its indices.\<close>

definition print_report :: "bytes \<Rightarrow> bytes \<Rightarrow> key_event list option" where
  "print_report report prev =
     do {
       mods \<leftarrow> idx report 0;
       body \<leftarrow> slice report 2 (length report);
       prev_body \<leftarrow> slice prev 2 (length prev);
       prev_mods \<leftarrow> idx prev 0;
       let keys = sort (filter (\<lambda>k. k \<noteq> 0) body);
           prev_keys = filter (\<lambda>k. k \<noteq> 0) prev_body;
           pressed = filter (\<lambda>k. k \<notin> set prev_keys) keys;
           released = filter (\<lambda>k. k \<notin> set keys) prev_keys;
           mod_str = describe_mods mods
       in Some (map (\<lambda>k. Down k mod_str) pressed @ map (\<lambda>k. Up k mod_str) released @
                (if pressed = [] \<and> released = [] \<and> mods \<noteq> prev_mods then [Mod mod_str] else []))
     }"

text \<open>What the loop prints: key events on standard output, the rest on standard error.\<close>

datatype hid_output =
    Keys "key_event list"
  | ShortReport bytes
  | TransferFailed host_error

text \<open>
  The loop: \<open>n\<close> is how often the flag is found set. The result holds what was printed, the last
  report and the state of the device; \<^const>\<open>None\<close> is a panic.
\<close>

fun hid_loop ::
  "'w nusb \<Rightarrow> (transfer_error \<Rightarrow> bool) \<Rightarrow> nat \<Rightarrow> bytes \<Rightarrow> opened_device \<times> 'w \<Rightarrow>
     (hid_output list \<times> bytes \<times> opened_device \<times> 'w) option" where
  "hid_loop nb cancelled 0 prev s = Some ([], prev, s)"
| "hid_loop nb cancelled (Suc n) prev s =
     (case data_transfer nb 0x81 8 [] s of
        (Inr r, s1) \<Rightarrow>
          if length (tr_data r) = 8 then
            if tr_data r \<noteq> prev then
              do {
                evs \<leftarrow> print_report (tr_data r) prev;
                (out, res) \<leftarrow> hid_loop nb cancelled n (tr_data r) s1;
                Some (Keys evs # out, res)
              }
            else hid_loop nb cancelled n prev s1
          else map_option (apfst (Cons (ShortReport (tr_data r)))) (hid_loop nb cancelled n prev s1)
      | (Inl e, s1) \<Rightarrow>
          if (case e of Transfer x \<Rightarrow> cancelled x | _ \<Rightarrow> False) then hid_loop nb cancelled n prev s1
          else Some ([TransferFailed e], prev, s1))"

datatype hid_error = Usage | OpenError host_error

text \<open>
  \<^verbatim>\<open>main\<close>: the first argument is the busid. On return the device is dropped, which releases the
  capture.
\<close>

definition hid_main ::
  "'w nusb \<Rightarrow> (transfer_error \<Rightarrow> bool) \<Rightarrow> host_env \<Rightarrow> listing \<Rightarrow> rstr list \<Rightarrow> nat \<Rightarrow> 'w \<Rightarrow>
     ((hid_error + hid_output list) \<times> drop_action list) option" where
  "hid_main nb cancelled env listed args n w =
     (case args of
        _ # busid # _ \<Rightarrow>
          (case snd (open_device env busid) of
             None \<Rightarrow> None
           | Some (Inl e) \<Rightarrow> Some (Inl (OpenError e), [])
           | Some (Inr d) \<Rightarrow>
               map_option (\<lambda>(out, prev, d', w'). (Inr out, drop_device (he_iokit env) listed d'))
                 (hid_loop nb cancelled n (replicate 8 0) (d, w)))
      | _ \<Rightarrow> Some (Inl Usage, []))"

section \<open>Lemmas\<close>



section \<open>What the polls deliver\<close>





fun report_of :: "host_error + transfer_result \<Rightarrow> bytes option" where
  "report_of (Inr r) = (if length (tr_data r) = 8 then Some (tr_data r) else None)"
| "report_of (Inl e) = None"

definition last_report :: "bytes \<Rightarrow> (host_error + transfer_result) list \<Rightarrow> bytes" where
  "last_report prev xs = fold (\<lambda>x p. case report_of x of Some r \<Rightarrow> r | None \<Rightarrow> p) xs prev"



lemma last_report_simps [simp]:
  "last_report prev [] = prev"
  "last_report prev (x # xs) = last_report (case report_of x of Some r \<Rightarrow> r | None \<Rightarrow> prev) xs"
  by (simp_all add: last_report_def)

section \<open>What the lines show\<close>


fun track :: "u8 set \<times> rstr \<Rightarrow> key_event \<Rightarrow> u8 set \<times> rstr" where
  "track (ks, _) (Down k mods) = (insert k ks, mods)"
| "track (ks, _) (Up k mods) = (ks - {k}, mods)"
| "track (ks, _) (Mod mods) = (ks, mods)"

text \<open>A reader who replays the lines: the keys held and the modifiers shown last.\<close>

definition replayed :: "key_event list \<Rightarrow> u8 set \<times> rstr \<Rightarrow> u8 set \<times> rstr" where
  "replayed evs x = fold (\<lambda>ev x. track x ev) evs x"


lemma replayed_simps [simp]:
  "replayed [] x = x" "replayed (ev # evs) x = replayed evs (track x ev)"
  "replayed (evs @ evs') x = replayed evs' (replayed evs x)"
  by (simp_all add: replayed_def)







section \<open>Properties\<close>


end
