(* ===== verification/Capture_Layout.thy ===== *)
theory Capture_Layout
  imports Host_Capture
begin

text \<open>
  The memory layout that force-capture assumes of IOKit's interfaces (\<^verbatim>\<open>host-mac/src/capture.rs\<close>, the
  \<^verbatim>\<open>repr(C)\<close> tables and the identifiers): which function pointer is loaded from which offset. A struct
  is the list of its fields in order of declaration, laid out by the rules of \<^verbatim>\<open>repr(C)\<close> on a target
  with 64-bit pointers; an optional function pointer has the size of a pointer.
\<close>

section \<open>The layout of a \<^verbatim>\<open>repr(C)\<close> struct\<close>

datatype ctype = Opaque | FnPtr | UInt16

fun size_of :: "ctype \<Rightarrow> nat" where
  "size_of Opaque = 8"
| "size_of FnPtr = 8"
| "size_of UInt16 = 2"

definition align_of :: "ctype \<Rightarrow> nat" where
  "align_of t = size_of t"

definition align_up :: "nat \<Rightarrow> nat \<Rightarrow> nat" where
  "align_up off a = (off + (a - 1)) div a * a"

type_synonym cstruct = "(string \<times> ctype) list"

fun offsets :: "nat \<Rightarrow> cstruct \<Rightarrow> (string \<times> ctype \<times> nat) list" where
  "offsets off [] = []"
| "offsets off ((f, t) # fs) =
     (let o1 = align_up off (align_of t) in (f, t, o1) # offsets (o1 + size_of t) fs)"

fun end_offset :: "nat \<Rightarrow> cstruct \<Rightarrow> nat" where
  "end_offset off [] = off"
| "end_offset off ((f, t) # fs) = end_offset (align_up off (align_of t) + size_of t) fs"

definition struct_align :: "cstruct \<Rightarrow> nat" where
  "struct_align fs = foldr (\<lambda>(_, t) a. max (align_of t) a) fs 1"

definition struct_size :: "cstruct \<Rightarrow> nat" where
  "struct_size fs = align_up (end_offset 0 fs) (struct_align fs)"

definition offset_of :: "cstruct \<Rightarrow> string \<Rightarrow> nat option" where
  "offset_of fs f = map_option snd (map_of (offsets 0 fs) f)"

section \<open>The tables\<close>

definition IUnknownVTable :: cstruct where
  "IUnknownVTable =
     [(''_reserved'', Opaque), (''_query_interface'', FnPtr), (''_add_ref'', FnPtr), (''release'', FnPtr)]"

definition IOUSBDeviceVTable :: cstruct where
  "IOUSBDeviceVTable =
     [(''_reserved'', Opaque), (''_query_interface'', FnPtr), (''_add_ref'', FnPtr), (''release'', FnPtr),
      (''_m4'', Opaque), (''_m5'', Opaque), (''_m6'', Opaque), (''_m7'', Opaque),
      (''_usb_device_open'', FnPtr), (''usb_device_close'', FnPtr),
      (''_m10'', Opaque), (''_m11'', Opaque), (''_m12'', Opaque), (''_m13'', Opaque), (''_m14'', Opaque),
      (''_m15'', Opaque), (''_m16'', Opaque), (''_m17'', Opaque), (''_m18'', Opaque), (''_m19'', Opaque),
      (''_m20'', Opaque), (''_m21'', Opaque), (''_m22'', Opaque), (''_m23'', Opaque), (''_m24'', Opaque),
      (''_m25'', Opaque), (''_m26'', Opaque), (''_m27'', Opaque), (''_m28'', Opaque),
      (''usb_device_open_seize'', FnPtr),
      (''_m30'', Opaque), (''_m31'', Opaque), (''_m32'', Opaque), (''_m33'', Opaque), (''_m34'', Opaque),
      (''_m35'', Opaque), (''_m36'', Opaque), (''usb_device_reenumerate'', FnPtr)]"

definition IOCFPlugInVTable :: cstruct where
  "IOCFPlugInVTable =
     [(''_reserved'', Opaque), (''_query_interface'', FnPtr), (''_add_ref'', FnPtr), (''release'', FnPtr),
      (''_version'', UInt16), (''_revision'', UInt16),
      (''_probe'', Opaque), (''_start'', Opaque), (''_stop'', Opaque)]"

section \<open>Identifiers\<close>

definition k_io_usb_device_user_client_type_id :: bytes where
  "k_io_usb_device_user_client_type_id =
     [0x9d, 0xc7, 0xb7, 0x80, 0x9e, 0xc0, 0x11, 0xD4, 0xa5, 0x4f, 0x00, 0x0a, 0x27, 0x05, 0x28, 0x61]"

definition k_io_usb_device_interface_id_500 :: bytes where
  "k_io_usb_device_interface_id_500 =
     [0x39, 0x61, 0x04, 0xF7, 0x94, 0x3D, 0x48, 0x93, 0x90, 0xF1, 0x69, 0xBD, 0x6C, 0xF5, 0xC2, 0xEB]"

text \<open>The textual form of an identifier, in which the comments and Apple's headers give it.\<close>

definition upper_hex :: "nat \<Rightarrow> char" where
  "upper_hex n = ''0123456789ABCDEF'' ! n"

definition hex_pair :: "u8 \<Rightarrow> string" where
  "hex_pair b = [upper_hex (unat b div 16), upper_hex (unat b mod 16)]"

definition uuid_text :: "bytes \<Rightarrow> string" where
  "uuid_text bs =
     (let h = (\<lambda>a n. concat (map hex_pair (take n (drop a bs))))
      in h 0 4 @ ''-'' @ h 4 2 @ ''-'' @ h 6 2 @ ''-'' @ h 8 2 @ ''-'' @ h 10 6)"

section \<open>Lemmas\<close>

lemma align_of_pos [simp]: "0 < align_of t"
  by (cases t) (simp_all add: align_of_def)

lemma align_up_bounds:
  assumes "0 < a"
  shows "off \<le> align_up off a" "a dvd align_up off a" "align_up off a < off + a"
proof -
  define q r where "q = (off + (a - 1)) div a" and "r = (off + (a - 1)) mod a"
  have "q * a + r = off + (a - 1)" "r < a" using assms by (simp_all add: q_def r_def)
  moreover have "align_up off a = q * a" by (simp add: align_up_def q_def)
  ultimately show "off \<le> align_up off a" "a dvd align_up off a" "align_up off a < off + a"
    using assms by auto
qed

lemma offsets_above:
  "(f, t, o1) \<in> set (offsets off fs) \<Longrightarrow>
   off \<le> o1 \<and> align_of t dvd o1 \<and> o1 + size_of t \<le> end_offset off fs"
  "off \<le> end_offset off fs"
proof (induction off fs arbitrary: f t o1 rule: end_offset.induct)
  case (2 off g u fs)
  note a = align_up_bounds [of "align_of u" off]
  {
    case 1
    with 2 a show ?case by (auto simp: Let_def dest: le_trans) fastforce+
  next
    case 2
    with "2.IH"(2) a show ?case by simp
  }
qed simp_all

text \<open>Fields are aligned, in order, disjoint and inside the struct.\<close>

lemma offsets_sorted:
  "sorted_wrt (\<lambda>(_, t, a) (_, _, b). a + size_of t \<le> b) (offsets off fs)"
proof (induction off fs rule: offsets.induct)
  case (2 off f t fs)
  have "align_up off (align_of t) + size_of t \<le> b"
    if "(g, u, b) \<in> set (offsets (align_up off (align_of t) + size_of t) fs)" for g u b
    using offsets_above(1) [OF that] by simp
  with 2 show ?case by (auto simp: Let_def)
qed simp

lemma struct_align_pos: "0 < struct_align fs"
  by (induction fs) (auto simp: struct_align_def less_max_iff_disj)

lemma struct_size_bound: "(f, t, o1) \<in> set (offsets 0 fs) \<Longrightarrow> o1 + size_of t \<le> struct_size fs"
  using offsets_above(1) [of f t o1 0 fs] align_up_bounds(1) [OF struct_align_pos, of "end_offset 0 fs" fs]
  by (simp add: struct_size_def)

lemma offsets_names: "map fst (offsets off fs) = map fst fs"
  by (induction off fs rule: offsets.induct) (simp_all add: Let_def)

text \<open>A struct of pointers has no padding.\<close>

lemma pointer_offsets:
  assumes "list_all (\<lambda>(_, t). size_of t = 8) fs"
  shows "map (\<lambda>(_, _, a). a) (offsets (8 * k) fs) = map (\<lambda>i. 8 * i) [k..<k + length fs] \<and>
    end_offset (8 * k) fs = 8 * (k + length fs)"
  using assms
proof (induction fs arbitrary: k)
  case (Cons x fs)
  obtain f t where x: "x = (f, t)" by (cases x) auto
  have al: "align_up (8 * k) (align_of t) = 8 * k" and sz: "size_of t = 8"
    using Cons.prems x by (auto simp: align_of_def align_up_def)
  have step: "8 * k + 8 = 8 * Suc k" by simp
  from Cons.IH [of "Suc k"] Cons.prems show ?case
    by (simp add: x Let_def al sz step upt_conv_Cons del: upt_Suc mult_Suc_right)
qed simp

lemma offset_of_pointers:
  assumes "list_all (\<lambda>(_, t). size_of t = 8) fs" "distinct (map fst fs)" "i < length fs" "fst (fs ! i) = f"
  shows "offset_of fs f = Some (8 * i)"
proof -
  have len: "length (offsets 0 fs) = length fs" by (metis length_map offsets_names)
  obtain g t a where x: "offsets 0 fs ! i = (g, t, a)" by (cases "offsets 0 fs ! i") auto
  have "map (\<lambda>(_, _, a). a) (offsets 0 fs) ! i = 8 * i"
    using pointer_offsets [OF assms(1), of 0] assms(3) by simp
  then have "a = 8 * i" using x assms(3) len by simp
  moreover have "map fst (offsets 0 fs) ! i = f" unfolding offsets_names using assms(3,4) by simp
  then have "g = f" using x assms(3) len by simp
  ultimately have "(f, t, 8 * i) \<in> set (offsets 0 fs)" using x assms(3) len by (metis nth_mem)
  then have "map_of (offsets 0 fs) f = Some (t, 8 * i)"
    using assms(2) by (intro map_of_is_SomeI) (simp_all add: offsets_names)
  then show ?thesis by (simp add: offset_of_def)
qed

lemma device_table_shape:
  "list_all (\<lambda>(_, t). size_of t = 8) IOUSBDeviceVTable" "length IOUSBDeviceVTable = 38"
  by (simp_all add: IOUSBDeviceVTable_def)

lemma device_table_distinct: "distinct (map fst IOUSBDeviceVTable)"
  by (simp add: IOUSBDeviceVTable_def)

lemma device_table_names:
  "fst (IOUSBDeviceVTable ! 3) = ''release''" "fst (IOUSBDeviceVTable ! 9) = ''usb_device_close''"
  "fst (IOUSBDeviceVTable ! 29) = ''usb_device_open_seize''" "fst (IOUSBDeviceVTable ! 37) = ''usb_device_reenumerate''"
  by (simp_all add: IOUSBDeviceVTable_def)

lemma uuid_texts:
  "uuid_text k_io_usb_device_user_client_type_id = ''9DC7B780-9EC0-11D4-A54F-000A27052861''"
  "uuid_text k_io_usb_device_interface_id_500 = ''396104F7-943D-4893-90F1-69BD6CF5C2EB''"
  by (simp_all add: uuid_text_def hex_pair_def upper_hex_def
    k_io_usb_device_user_client_type_id_def k_io_usb_device_interface_id_500_def)

lemma plugin_table:
  "map (\<lambda>(_, _, a). a) (offsets 0 IOCFPlugInVTable) = [0, 8, 16, 24, 32, 34, 40, 48, 56]"
  "struct_size IOCFPlugInVTable = 64"
  by (simp_all add: IOCFPlugInVTable_def struct_size_def struct_align_def align_of_def align_up_def)

lemma device_table_size: "struct_size IOUSBDeviceVTable = 304"
proof -
  have "struct_align IOUSBDeviceVTable = 8" by (simp add: struct_align_def IOUSBDeviceVTable_def align_of_def)
  with pointer_offsets [OF device_table_shape(1), of 0] show ?thesis
    by (simp add: struct_size_def device_table_shape(2) align_up_def)
qed

section \<open>Properties\<close>

text \<open>
  Every function that force-capture calls is loaded from the slot where the interface has it. In
  any \<^verbatim>\<open>repr(C)\<close> struct the fields are in order and disjoint; the device table consists of 38
  slots of one pointer each, without padding, which the assertion in the source demands, with
  \<^verbatim>\<open>Release\<close>, \<^verbatim>\<open>USBDeviceClose\<close>, \<^verbatim>\<open>USBDeviceOpenSeize\<close> and \<^verbatim>\<open>USBDeviceReEnumerate\<close> in the slots 3, 9, 29
  and 37; both tables begin with the four slots of \<^verbatim>\<open>IUnknown\<close>, the plug-in table is padded after its
  two version numbers; and the two identifiers are those of the comments.
\<close>

theorem capture_tables_layout:
  "sorted_wrt (\<lambda>(_, t, a) (_, _, b). a + size_of t \<le> b) (offsets off fs) \<and>
   map (\<lambda>(_, _, a). a) (offsets 0 IOUSBDeviceVTable) = map (\<lambda>i. 8 * i) [0..<38] \<and>
   struct_size IOUSBDeviceVTable = 38 * size_of Opaque \<and>
   map (offset_of IOUSBDeviceVTable) [''release'', ''usb_device_close'', ''usb_device_open_seize'', ''usb_device_reenumerate''] =
     map (\<lambda>i. Some (8 * i)) [3, 9, 29, 37] \<and>
   take 4 IOUSBDeviceVTable = IUnknownVTable \<and> take 4 IOCFPlugInVTable = IUnknownVTable \<and>
   map (\<lambda>(_, _, a). a) (offsets 0 IOCFPlugInVTable) = [0, 8, 16, 24, 32, 34, 40, 48, 56] \<and>
   struct_size IOCFPlugInVTable = 64 \<and>
   uuid_text k_io_usb_device_user_client_type_id = ''9DC7B780-9EC0-11D4-A54F-000A27052861'' \<and>
   uuid_text k_io_usb_device_interface_id_500 = ''396104F7-943D-4893-90F1-69BD6CF5C2EB''"
proof (intro conjI)
  show "map (\<lambda>(_, _, a). a) (offsets 0 IOUSBDeviceVTable) = map (\<lambda>i. 8 * i) [0..<38]"
    using pointer_offsets [OF device_table_shape(1), of 0] by (simp only: device_table_shape(2) mult_0_right add_0)
  show "struct_size IOUSBDeviceVTable = 38 * size_of Opaque" by (simp add: device_table_size)
  note slot = offset_of_pointers [OF device_table_shape(1) device_table_distinct]
  show "map (offset_of IOUSBDeviceVTable) [''release'', ''usb_device_close'', ''usb_device_open_seize'', ''usb_device_reenumerate''] =
     map (\<lambda>i. Some (8 * i)) [3, 9, 29, 37]"
    by (simp only: list.map slot [OF _ device_table_names(1)] slot [OF _ device_table_names(2)]
        slot [OF _ device_table_names(3)] slot [OF _ device_table_names(4)] device_table_shape(2))
  show "take 4 IOUSBDeviceVTable = IUnknownVTable" "take 4 IOCFPlugInVTable = IUnknownVTable"
    by (simp_all add: IOUSBDeviceVTable_def IOCFPlugInVTable_def IUnknownVTable_def)
qed (rule offsets_sorted plugin_table uuid_texts)+

end
