(* ===== verification/Fuzz_Targets.thy ===== *)
theory Fuzz_Targets
  imports Proto_Op Proto_Urb
begin

text \<open>
  The fuzz targets of the protocol crate (\<^verbatim>\<open>usbip-proto/fuzz/fuzz_targets\<close>). Each runs one decoder
  on the bytes it is given and drops the result, error or not: what is left is whether it returns
  at all, so a target is \<^const>\<open>None\<close> where it would crash and \<^term>\<open>Some ()\<close> otherwise.
\<close>

definition fuzz_op_header :: "bytes \<Rightarrow> unit option" where
  "fuzz_op_header data = do { _ \<leftarrow> op_header_decode data; Some () }"

definition fuzz_urb_header :: "bytes \<Rightarrow> unit option" where
  "fuzz_urb_header data = do { _ \<leftarrow> urb_header_decode data; Some () }"

definition fuzz_cmd_submit :: "bytes \<Rightarrow> unit option" where
  "fuzz_cmd_submit data = do { _ \<leftarrow> cmd_submit_decode data; Some () }"

definition fuzz_req_import_busid :: "bytes \<Rightarrow> unit option" where
  "fuzz_req_import_busid data = do { _ \<leftarrow> decode_req_import_busid data; Some () }"

text \<open>A target returns exactly when its decoder does.\<close>

lemma bind_discard: "Option.bind m (\<lambda>_. Some ()) = Some () \<longleftrightarrow> m \<noteq> None"
  by (cases m) auto

lemma fuzz_target_returns:
  "fuzz_op_header data = Some () \<longleftrightarrow> op_header_decode data \<noteq> None"
  "fuzz_urb_header data = Some () \<longleftrightarrow> urb_header_decode data \<noteq> None"
  "fuzz_cmd_submit data = Some () \<longleftrightarrow> cmd_submit_decode data \<noteq> None"
  "fuzz_req_import_busid data = Some () \<longleftrightarrow> decode_req_import_busid data \<noteq> None"
  unfolding fuzz_op_header_def fuzz_urb_header_def fuzz_cmd_submit_def fuzz_req_import_busid_def
  by (rule bind_discard)+

end
