(* ===== verification/Wire_Types.thy ===== *)
theory Wire_Types
  imports Daemon_Session
begin

text \<open>
  That the records the daemon makes of host devices are well typed for the wire: every string fits
  its field, every count its byte, and every number the range that the client side of the protocol
  assumes of it, so that nothing is clipped on the way.
\<close>

section \<open>The lengths of busids\<close>

lemma length_show_dec_u8: "length (show_dec (unat (p :: u8))) \<le> 3"
proof -
  have "unat p < 256" using unsigned_less [of p, where 'a = nat] by simp
  then show ?thesis by (subst show_dec.simps, subst show_dec.simps, subst show_dec.simps) auto
qed

lemma show_dec_plain: "b \<in> set (show_dec n) \<Longrightarrow> 0 < b \<and> b < 128"
  using show_dec_digits [of b n] by (auto simp: word_le_nat_alt word_less_nat_alt)

lemma join_bytes: "set (join sep xs) \<subseteq> set sep \<union> (\<Union>x \<in> set xs. set x)"
  by (induction sep xs rule: join.induct) auto

lemma length_join:
  "(\<And>x. x \<in> set xs \<Longrightarrow> length x \<le> k) \<Longrightarrow> length (join sep xs) \<le> length xs * (k + length sep)"
proof (induction sep xs rule: join.induct)
  case (3 sep x y zs)
  then have "length (join sep (y # zs)) \<le> length (y # zs) * (k + length sep)" "length x \<le> k" by simp_all
  then show ?case by simp
qed simp_all

lemma plain_utf8: "(\<And>b. b \<in> set s \<Longrightarrow> 0 < b \<and> b < 128) \<Longrightarrow> utf8_valid s \<and> 0 \<notin> set s"
  by (auto intro!: ascii_utf8_valid simp: ascii_def)

text \<open>
  A device as USB and nusb give it: a short bus id that is text without NUL, a port chain bounded
  by the seven tiers of a bus, and interface numbers that are bytes.
\<close>

definition usb_topology :: "device_info \<Rightarrow> bool" where
  "usb_topology info \<longleftrightarrow>
     length (di_bus_id info) \<le> 3 \<and> 0 \<notin> set (di_bus_id info) \<and> utf8_valid (di_bus_id info) \<and>
     length (di_port_chain info) \<le> 7 \<and> length (di_interfaces info) \<le> 255"

lemma busid_fits:
  assumes "usb_topology info"
  shows "fits_field 32 (format_busid info)"
proof -
  let ?ports = "map (show_dec \<circ> unat) (busid_ports info) :: rstr list"
  let ?chain = "join [of_char CHR ''.''] ?ports"
  have "length (busid_ports info) \<le> 7" using assms by (auto simp: busid_ports_def usb_topology_def)
  moreover have "length ?chain \<le> length ?ports * (3 + length [of_char CHR ''.'' :: u8])"
    by (rule length_join) (auto simp: length_show_dec_u8)
  ultimately have "length (format_busid info) \<le> 32"
    using assms by (simp add: format_busid_ports usb_topology_def)
  moreover have "utf8_valid (of_char CHR ''-'' # ?chain) \<and> 0 \<notin> set (of_char CHR ''-'' # ?chain)"
    using join_bytes [of "[of_char CHR ''.'']" ?ports] by (intro plain_utf8) (auto dest: show_dec_plain)
  ultimately show ?thesis
    using assms by (auto simp: fits_field_def format_busid_ports usb_topology_def intro!: utf8_valid_append)
qed

section \<open>Well-typed device records\<close>

text \<open>
  A device record as a client may assume it: text that fits its field without a NUL inside, at most
  255 interfaces, bus and device number in a byte and not 0, a speed that the protocol has.
\<close>

definition wire_typed :: "exported_device \<Rightarrow> bool" where
  "wire_typed d \<longleftrightarrow>
     fits_device d \<and> ed_busnum d \<in> {1..255} \<and> ed_devnum d \<in> {1..255} \<and> ed_speed d \<in> {0, 1, 2, 3, 5, 6}"

lemma path_fits: "fits_field 32 s \<Longrightarrow> fits_field 256 (lit ''/usbipd-darwin/'' @ s)"
  by (auto simp: fits_field_def intro!: utf8_valid_append)

lemma speed_to_usbip_range: "speed_to_usbip s \<in> {0, 1, 2, 3, 5, 6}"
  by (cases s) (auto simp: speed_to_usbip_def split: nusb_speed.splits)

lemma from_info_typed:
  assumes "usb_topology info"
  shows "wire_typed (to_exported (from_info info))"
proof -
  have "fits_device (to_exported (from_info info))"
    using busid_fits [OF assms] path_fits [OF busid_fits [OF assms]] assms
    by (simp add: fits_device_def to_exported_def usb_topology_def)
  moreover have "ud_busnum (from_info info) \<in> {1..255} \<and> ud_devnum (from_info info) \<in> {1..255}"
    using derive_bus_dev_bounds [of "di_bus_id info" "di_port_chain info" "di_device_address info"]
    by (auto simp: from_info_def from_nusb_def derive_bus_dev_def word_le_nat_alt split: prod.split)
  moreover have "ud_speed (from_info info) \<in> {0, 1, 2, 3, 5, 6}"
    using speed_to_usbip_range [of "di_speed info"]
    by (simp add: from_info_def from_nusb_def split: prod.split)
  ultimately show ?thesis by (simp add: wire_typed_def to_exported_def)
qed

text \<open>
  C25: Device records are well typed. For any listing of devices as USB allows them (bus ids of at
  most three bytes, at most seven ports on the way, at most 255 interfaces), every record the
  daemon makes of a device has its strings within their fields and free of NUL, its interface count
  in a byte, bus and device number between 1 and 255 and a speed of the protocol; so no field is
  clipped, and a client decodes the device list to exactly the records of the devices that are not
  hubs.
\<close>

theorem listed_records_typed:
  assumes "length infos < 2 ^ 32" "list_all usb_topology infos"
  shows "list_all wire_typed (map (\<lambda>i. to_exported (from_info i)) infos) \<and>
    client_devlist (encode_rep_devlist (map from_info infos)) =
      Some (map (\<lambda>i. to_exported (from_info i)) (filter (\<lambda>i. di_class i \<noteq> 9) infos), [])"
proof
  have typed: "wire_typed (to_exported (from_info i))" if "i \<in> set infos" for i
    using that assms(2) by (intro from_info_typed) (simp add: list_all_iff)
  then show "list_all wire_typed (map (\<lambda>i. to_exported (from_info i)) infos)" by (simp add: list_all_iff)
  have "clip_device (to_exported (from_info i)) = to_exported (from_info i)" if "i \<in> set infos" for i
    using typed [OF that] by (simp add: wire_typed_def clip_device_fits)
  moreover have "client_devlist (encode_rep_devlist (map from_info infos)) =
      Some (map (\<lambda>d. clip_device (to_exported d)) (filter (\<lambda>d. ud_class d \<noteq> 9) (map from_info infos)), [])"
    using assms by (intro client_devlist_encoded) (auto simp: list_all_iff usb_topology_def)
  ultimately show "client_devlist (encode_rep_devlist (map from_info infos)) =
      Some (map (\<lambda>i. to_exported (from_info i)) (filter (\<lambda>i. di_class i \<noteq> 9) infos), [])"
    by (simp add: filter_map comp_def)
qed

theorem listed_records_typed_witness:
  "usb_topology keyboard_info \<and> wire_typed (to_exported (from_info keyboard_info)) \<and>
   client_devlist (encode_rep_devlist [from_info keyboard_info]) = Some ([to_exported (from_info keyboard_info)], [])"
proof -
  have k: "usb_topology keyboard_info" by (simp add: usb_topology_def keyboard_info_def)
  moreover have "di_class keyboard_info \<noteq> 9" by (simp add: keyboard_info_def)
  ultimately show ?thesis using listed_records_typed [of "[keyboard_info]"] by simp
qed

end
