(* ===== verification/Test_Proto.thy ===== *)
theory Test_Proto
  imports Proto_Op Proto_Urb
begin

text \<open>
  The unit tests of the protocol crate (\<^verbatim>\<open>usbip-proto/src/op.rs\<close> and \<^verbatim>\<open>urb.rs\<close>, modules \<^verbatim>\<open>tests\<close>), each as a
  boolean: the conjunction of its assertions, where \<^verbatim>\<open>unwrap\<close> of an error or a panic makes it false.
  That they hold of the definitions checks these against the expectations of the repository.
\<close>

section \<open>Op messages\<close>

definition test_op_header_known_bytes_req_devlist :: bool where
  "test_op_header_known_bytes_req_devlist \<longleftrightarrow>
     op_header_encode (op_header_new OP_REQ_DEVLIST) = [0x01, 0x11, 0x80, 0x05, 0x00, 0x00, 0x00, 0x00]"

definition test_op_header_roundtrip :: bool where
  "test_op_header_roundtrip \<longleftrightarrow>
     (let h = \<lparr>op_version = 0x0111, op_code = OP_REP_IMPORT, op_status = 0\<rparr>
      in op_header_decode (op_header_encode h) = Some (Inr h))"

definition test_op_header_short_read :: bool where
  "test_op_header_short_read \<longleftrightarrow> op_header_decode (replicate 4 0) = Some (Inl (ShortRead 8 4))"

definition test_exported_interface_roundtrip :: bool where
  "test_exported_interface_roundtrip \<longleftrightarrow>
     (let i = \<lparr>ei_class = 0x08, ei_subclass = 0x06, ei_protocol = 0x50\<rparr>;
          buf = exported_interface_encode i
      in length buf = 4 \<and> buf = [0x08, 0x06, 0x50, 0x00] \<and> exported_interface_decode buf = Some (Inr i))"

definition test_exported_device_roundtrip_sandisk :: bool where
  "test_exported_device_roundtrip_sandisk \<longleftrightarrow>
     (let d = \<lparr>ed_path = lit ''/usbipd-darwin/01-1'', ed_busid = lit ''01-1'', ed_busnum = 1, ed_devnum = 1,
               ed_speed = 3, ed_id_vendor = 0x0781, ed_id_product = 0x5530, ed_bcd_device = 0x0001,
               ed_device_class = 0x00, ed_device_subclass = 0x00, ed_device_protocol = 0x00,
               ed_configuration_value = 1, ed_num_configurations = 1,
               ed_interfaces = [\<lparr>ei_class = 0x08, ei_subclass = 0x06, ei_protocol = 0x50\<rparr>]\<rparr>;
          buf = exported_device_encode d
      in length buf = HEADER_SIZE + 4 \<and> exported_device_decode buf = Some (Inr (d, length buf)))"

definition test_exported_device_busid_offset_and_length :: bool where
  "test_exported_device_busid_offset_and_length \<longleftrightarrow>
     (let d = \<lparr>ed_path = lit ''p'', ed_busid = lit ''1-2.3'', ed_busnum = 0, ed_devnum = 0, ed_speed = 0,
               ed_id_vendor = 0, ed_id_product = 0, ed_bcd_device = 0, ed_device_class = 0,
               ed_device_subclass = 0, ed_device_protocol = 0, ed_configuration_value = 0,
               ed_num_configurations = 0, ed_interfaces = []\<rparr>;
          buf = exported_device_encode d
      in slice buf 256 (256 + 5) = Some (lit ''1-2.3'') \<and>
         (case slice buf (256 + 5) 288 of None \<Rightarrow> False | Some s \<Rightarrow> list_all (\<lambda>b. b = 0) s))"

section \<open>URB messages\<close>

definition test_urb_header_roundtrip :: bool where
  "test_urb_header_roundtrip \<longleftrightarrow>
     (let h = \<lparr>uh_command = USBIP_CMD_SUBMIT, uh_seqnum = 0x12345678, uh_devid = push_bit 16 1 OR 1,
               uh_direction = USBIP_DIR_IN, uh_ep = 1\<rparr>;
          buf = urb_header_encode h
      in length buf = 20 \<and> slice buf 0 4 = Some [0, 0, 0, 1] \<and>
         slice buf 4 8 = Some (to_be_bytes32 0x12345678) \<and> urb_header_decode buf = Some (Inr h))"

definition test_cmd_submit_decodes_get_descriptor :: bool where
  "test_cmd_submit_decodes_get_descriptor \<longleftrightarrow>
     (let setup = [0x80, 0x06, 0x00, 0x01, 0x00, 0x00, 0x12, 0x00];
          buf = to_be_bytes32 0 @ to_be_bytes32 18 @ to_be_bytes32 0 @ to_be_bytes32 (- 1) @ to_be_bytes32 0 @ setup
      in (case cmd_submit_decode buf of
            Some (Inr cmd) \<Rightarrow>
              cs_transfer_buffer_length cmd = 18 \<and> cs_number_of_packets cmd = - 1 \<and> cs_setup cmd = setup
          | _ \<Rightarrow> False))"

definition test_ret_submit_known_bytes :: bool where
  "test_ret_submit_known_bytes \<longleftrightarrow>
     (let buf = write_ret_submit 42
            \<lparr>rs_status = 0, rs_actual_length = 4, rs_start_frame = 0, rs_number_of_packets = 0,
             rs_error_count = 0, rs_padding = replicate 8 0\<rparr> [0xDE, 0xAD, 0xBE, 0xEF]
      in length buf = URB_HEADER_SIZE + 4 \<and> slice buf 0 4 = Some (to_be_bytes32 3) \<and>
         slice buf 4 8 = Some (to_be_bytes32 42) \<and> slice buf 20 24 = Some (to_be_bytes32 0) \<and>
         slice buf 24 28 = Some (to_be_bytes32 4) \<and> slice buf 48 52 = Some [0xDE, 0xAD, 0xBE, 0xEF])"

definition test_cmd_unlink_decodes :: bool where
  "test_cmd_unlink_decodes \<longleftrightarrow>
     (case cmd_unlink_decode (to_be_bytes32 77 @ replicate 24 0) of
        Some (Inr u) \<Rightarrow> cu_unlink_seqnum u = 77
      | _ \<Rightarrow> False)"

section \<open>They pass\<close>

lemma op_header_tests [passed]:
  test_op_header_known_bytes_req_devlist test_op_header_roundtrip test_op_header_short_read
proof -
  show test_op_header_known_bytes_req_devlist
    by (simp add: test_op_header_known_bytes_req_devlist_def op_header_encode_def op_header_new_def op_codes
        to_be_bytes16_def to_be_bytes32_def)
  show test_op_header_roundtrip
    using op_header_dec_enc [of _ "[]"] by (simp add: test_op_header_roundtrip_def)
  show test_op_header_short_read by (simp add: test_op_header_short_read_def op_header_decode_def)
qed

lemma exported_interface_test [passed]: test_exported_interface_roundtrip
  by (simp add: test_exported_interface_roundtrip_def exported_interface_encode_def exported_interface_decode_def idx_def)

lemma exported_device_tests [passed]:
  test_exported_device_roundtrip_sandisk test_exported_device_busid_offset_and_length
proof -
  show test_exported_device_roundtrip_sandisk
    unfolding test_exported_device_roundtrip_sandisk_def Let_def
    using exported_device_decode_encode [of _ "[]"]
    by (simp add: clip_device_fits length_exported_device_encode fits_device_def fits_field_def HEADER_SIZE_eq)
  show test_exported_device_busid_offset_and_length
    by (simp add: test_exported_device_busid_offset_and_length_def exported_device_encode_def write_fixed_str_eq
        slice_def list_all_iff Let_def)
qed

lemma urb_tests [passed]:
  test_urb_header_roundtrip test_cmd_submit_decodes_get_descriptor test_ret_submit_known_bytes test_cmd_unlink_decodes
proof -
  show test_urb_header_roundtrip
    using urb_header_dec_enc [of _ "[]"]
    by (simp add: test_urb_header_roundtrip_def urb_hdr.enc_length)
      (simp add: urb_header_encode_def slice_def urb_codes to_be_bytes32_def)
  show test_cmd_submit_decodes_get_descriptor
    by (simp add: test_cmd_submit_decodes_get_descriptor_def cmd_submit_decode_def slice_def wire_simps)
  show test_ret_submit_known_bytes
    by (simp add: test_ret_submit_known_bytes_def write_ret_submit_def urb_header_encode_def ret_submit_encode_def
        URB_HEADER_SIZE_def slice_def urb_codes to_be_bytes32_def)
  show test_cmd_unlink_decodes
    by (simp add: test_cmd_unlink_decodes_def cmd_unlink_decode_def slice_def wire_simps)
qed

end
