(* ===== verification/Test_Host.thy ===== *)
theory Test_Host
  imports Device_Open Error_Text
begin

text \<open>
  The unit tests of the host crate (\<^verbatim>\<open>host-mac/src/lib.rs\<close> and \<^verbatim>\<open>capture.rs\<close>, modules \<^verbatim>\<open>tests\<close>) as booleans.
  A loop over a range is a conjunction over the list of its values.
\<close>

fun str_contains :: "rstr \<Rightarrow> rstr \<Rightarrow> bool" where
  "str_contains [] sub \<longleftrightarrow> sub = []"
| "str_contains (c # s) sub \<longleftrightarrow> take (length sub) (c # s) = sub \<or> str_contains s sub"

lemma str_contains_mid: "str_contains (xs @ sub @ ys) sub"
proof (induction xs)
  case Nil
  show ?case by (cases "sub @ ys") (auto simp del: append_eq_Cons_conv dest: arg_cong [of _ _ "take (length sub)"])
qed simp

section \<open>Bus and device numbers\<close>

definition test_parse_bus_id_numeric :: bool where
  "test_parse_bus_id_numeric \<longleftrightarrow>
     parse_bus_id (lit ''1'') = 1 \<and> parse_bus_id (lit ''42'') = 42 \<and> parse_bus_id (lit ''0'') = 1 \<and>
     parse_bus_id (lit ''255'') = 0xFF \<and> parse_bus_id (lit ''70000'') = 0xFF"

definition test_parse_bus_id_alphanumeric_falls_back_to_hash :: bool where
  "test_parse_bus_id_alphanumeric_falls_back_to_hash \<longleftrightarrow>
     (let a = parse_bus_id (lit ''ehci-pci''); b = parse_bus_id (lit ''xhci-hcd'')
      in 1 \<le> a \<and> 1 \<le> b \<and> a \<noteq> b)"

definition test_derive_bus_dev_distinguishes_ports :: bool where
  "test_derive_bus_dev_distinguishes_ports \<longleftrightarrow>
     (let a = derive_bus_dev_inner (lit ''1'') [2] 7; b = derive_bus_dev_inner (lit ''1'') [3] 7
      in fst a = fst b \<and> snd a \<noteq> snd b)"

definition test_derive_bus_dev_devnum_is_nonzero_and_in_range :: bool where
  "test_derive_bus_dev_devnum_is_nonzero_and_in_range \<longleftrightarrow>
     list_all (\<lambda>bus. list_all (\<lambda>port. list_all (\<lambda>addr.
       case derive_bus_dev_inner (show_dec bus) [of_nat port, of_nat port XOR 0x55] (of_nat addr) of
         (b, d) \<Rightarrow> 1 \<le> d \<and> d \<le> 0xFF \<and> 1 \<le> b \<and> b \<le> 0xFF) [1..<10]) [1..<50]) [1..<4]"

definition test_derive_bus_dev_roundtrips_through_linux_usbip_truncation :: bool where
  "test_derive_bus_dev_roundtrips_through_linux_usbip_truncation \<longleftrightarrow>
     list_all (\<lambda>bus. list_all (\<lambda>port. list_all (\<lambda>addr.
       case derive_bus_dev_inner (show_dec bus) [of_nat port] (of_nat addr) of
         (b, d) \<Rightarrow> push_bit 16 b OR d = push_bit 16 (b AND 0xFF) OR (d AND 0xFF)) [1..<16]) [1..<32]) [1..<8]"

definition test_derive_bus_dev_distinguishes_buses :: bool where
  "test_derive_bus_dev_distinguishes_buses \<longleftrightarrow>
     fst (derive_bus_dev_inner (lit ''1'') [1, 2] 3) \<noteq> fst (derive_bus_dev_inner (lit ''2'') [1, 2] 3)"

section \<open>Intercepted requests\<close>

definition test_setup :: "u8 \<Rightarrow> u8 \<Rightarrow> u16 \<Rightarrow> u16 \<Rightarrow> u16 \<Rightarrow> setup_packet" where
  "test_setup bm b val index len =
     \<lparr>bm_request_type = bm, b_request = b, w_value = val, w_index = index, w_length = len\<rparr>"

definition test_detects_set_configuration :: bool where
  "test_detects_set_configuration \<longleftrightarrow>
     is_set_configuration (test_setup 0x00 0x09 1 0 0) \<and> \<not> is_set_configuration (test_setup 0x80 0x09 1 0 0) \<and>
     \<not> is_set_configuration (test_setup 0x00 0x0B 1 0 0) \<and> \<not> is_set_configuration (test_setup 0x20 0x09 1 0 0)"

definition test_detects_set_interface :: bool where
  "test_detects_set_interface \<longleftrightarrow>
     is_set_interface (test_setup 0x01 0x0B 0 2 0) \<and> \<not> is_set_interface (test_setup 0x81 0x0B 0 2 0) \<and>
     \<not> is_set_interface (test_setup 0x00 0x0B 0 2 0)"

section \<open>Capture\<close>

definition test_capture_mask_matches_apple_header :: bool where
  "test_capture_mask_matches_apple_header \<longleftrightarrow> kUSBReEnumerateCaptureDeviceMask = 0x40000000"

definition test_release_mask_matches_apple_header :: bool where
  "test_release_mask_matches_apple_header \<longleftrightarrow> kUSBReEnumerateReleaseDeviceMask = 0x20000000"

definition test_capture_and_release_masks_are_disjoint :: bool where
  "test_capture_and_release_masks_are_disjoint \<longleftrightarrow>
     kUSBReEnumerateCaptureDeviceMask AND kUSBReEnumerateReleaseDeviceMask = 0"

definition test_no_service_error_includes_hex_registry_id :: bool where
  "test_no_service_error_includes_hex_registry_id \<longleftrightarrow>
     str_contains (capture_error_text (NoService 0xdeadbeef)) (lit ''0xdeadbeef'')"

definition test_open_seize_error_mentions_root :: bool where
  "test_open_seize_error_mentions_root \<longleftrightarrow>
     str_contains (capture_error_text (OpenSeize 0xe00002c5)) (lit ''root'')"

section \<open>They pass\<close>

lemmas number_defs =
  parse_bus_id_def from_str_radix_def to_digit_def fold_to_u8_xor fnv_step_def FNV_BASIS_def FNV_PRIME_def
  derive_bus_dev_inner_def Let_def

lemma bus_id_tests [passed]:
  test_parse_bus_id_numeric test_parse_bus_id_alphanumeric_falls_back_to_hash
  by (simp_all add: test_parse_bus_id_numeric_def test_parse_bus_id_alphanumeric_falls_back_to_hash_def number_defs)

lemma derive_tests [passed]:
  test_derive_bus_dev_distinguishes_ports
  test_derive_bus_dev_distinguishes_buses
  by (simp_all add: test_derive_bus_dev_distinguishes_ports_def
      test_derive_bus_dev_distinguishes_buses_def number_defs)

lemma sweep_tests [passed]:
  test_derive_bus_dev_devnum_is_nonzero_and_in_range
  test_derive_bus_dev_roundtrips_through_linux_usbip_truncation
proof -
  have "1 \<le> b \<and> b \<le> 0xFF \<and> 1 \<le> d \<and> d \<le> 0xFF \<and> b AND 0xFF = b \<and> d AND 0xFF = d"
    if "derive_bus_dev_inner bus ports addr = (b, d)" for bus ports addr b d
    using derive_bus_dev_bounds [OF that] by (simp add: word_le_nat_alt ucast_u8_masked)
  then show test_derive_bus_dev_devnum_is_nonzero_and_in_range
    test_derive_bus_dev_roundtrips_through_linux_usbip_truncation
    unfolding test_derive_bus_dev_devnum_is_nonzero_and_in_range_def
      test_derive_bus_dev_roundtrips_through_linux_usbip_truncation_def list_all_iff
    by (auto simp only: split: prod.split)
qed

lemma request_tests [passed]: test_detects_set_configuration test_detects_set_interface
  by (simp_all add: test_detects_set_configuration_def test_detects_set_interface_def test_setup_def
      is_set_configuration_def is_set_interface_def setup_is_in_def)

lemma mask_tests [passed]:
  test_capture_mask_matches_apple_header test_release_mask_matches_apple_header
  test_capture_and_release_masks_are_disjoint
  by (simp_all add: test_capture_mask_matches_apple_header_def test_release_mask_matches_apple_header_def
      test_capture_and_release_masks_are_disjoint_def kUSBReEnumerateCaptureDeviceMask_def
      kUSBReEnumerateReleaseDeviceMask_def)

lemma text_tests [passed]: test_no_service_error_includes_hex_registry_id test_open_seize_error_mentions_root
  by (simp_all add: test_no_service_error_includes_hex_registry_id_def test_open_seize_error_mentions_root_def
      fmt_alt_x_def show_hex.simps hex_digit_def)

end
