(* ===== verification/Test_Daemon.thy ===== *)
theory Test_Daemon
  imports Events_Hub Sudoers Test_Host
begin

text \<open>
  The unit tests of the daemon crate (\<^verbatim>\<open>usbipd/src/daemon.rs\<close>, \<^verbatim>\<open>sudoers.rs\<close> and \<^verbatim>\<open>events.rs\<close>, modules
  \<^verbatim>\<open>tests\<close>) as booleans. What a test asserts of the text of an error is asserted of its constructor;
  what it reads back from JSON is asserted of the event that was printed. A socket that delivers
  what was written to it is the writer of the subscriber, and the broadcast channel delivers in
  order and without gaps, which its capacity of 16 guarantees for the few events of a test.
\<close>

section \<open>Policy, attach table, device list\<close>

definition test_dev :: "u16 \<Rightarrow> u16 \<Rightarrow> usb_device" where
  "test_dev vid pid =
     \<lparr>ud_busid = lit ''01-'' @ show_hex (unat vid), ud_busnum = 1, ud_devnum = 1, ud_speed = 3, ud_vendor_id = vid,
      ud_product_id = pid, ud_bcd_device = 0, ud_class = 0, ud_subclass = 0, ud_protocol = 0,
      ud_configuration_value = 1, ud_num_configurations = 1, ud_manufacturer = None, ud_product = None,
      ud_serial = None, ud_interfaces = []\<rparr>"

definition test_policy_deny_all_rejects_everything :: bool where
  "test_policy_deny_all_rejects_everything \<longleftrightarrow>
     \<not> permits DenyAll 0x1050 0x0407 \<and> policy_filter DenyAll [test_dev 0x1050 0x0407] = []"

definition test_policy_allow_all_admits_everything :: bool where
  "test_policy_allow_all_admits_everything \<longleftrightarrow>
     permits AllowAll 0x1050 0x0407 \<and> length (policy_filter AllowAll [test_dev 0x1050 0x0407, test_dev 1 2]) = 2"

definition test_policy_allow_list_is_exact_match :: bool where
  "test_policy_allow_list_is_exact_match \<longleftrightarrow>
     (let p = AllowList {(0x1050, 0x0407)}; filtered = policy_filter p [test_dev 0x1050 0x0407, test_dev 1 2]
      in permits p 0x1050 0x0407 \<and> \<not> permits p 0x1050 0x0408 \<and> \<not> permits p 0x1051 0x0407 \<and>
         length filtered = 1 \<and> ud_vendor_id (filtered ! 0) = 0x1050)"

definition test_try_attach_is_mutually_exclusive_per_busid :: bool where
  "test_try_attach_is_mutually_exclusive_per_busid \<longleftrightarrow>
     (let peer1 = lit ''tcp:127.0.0.1:1111''; peer2 = lit ''tcp:127.0.0.1:2222'';
          (g1, s1) = try_attach (lit ''01-1'') peer1 (daemon_state_new AllowAll);
          (g2, s2) = try_attach (lit ''01-1'') peer2 s1;
          (g3, s3) = try_attach (lit ''01-2'') peer2 s2;
          s4 = (case g1 of Some g \<Rightarrow> attach_guard_drop g s3 | None \<Rightarrow> s3);
          (g4, s5) = try_attach (lit ''01-1'') peer2 s4
      in g1 \<noteq> None \<and> g2 = None \<and> g3 \<noteq> None \<and> g4 \<noteq> None)"

definition test_is_loopback_classifies_correctly :: bool where
  "test_is_loopback_classifies_correctly \<longleftrightarrow>
     is_loopback \<lparr>sa_ip = V4 127 0 0 1, sa_port = 3240\<rparr> \<and>
     is_loopback \<lparr>sa_ip = V6 [0, 0, 0, 0, 0, 0, 0, 1], sa_port = 3240\<rparr> \<and>
     \<not> is_loopback \<lparr>sa_ip = V4 0 0 0 0, sa_port = 3240\<rparr> \<and>
     \<not> is_loopback \<lparr>sa_ip = V4 192 168 1 10, sa_port = 3240\<rparr>"

definition test_devlist_filters_hubs_and_encodes_record :: bool where
  "test_devlist_filters_hubs_and_encodes_record \<longleftrightarrow>
     (let hub = (test_dev 0x1d6b 0x0002)\<lparr>ud_class := 0x09\<rparr>;
          bytes = encode_rep_devlist [hub, test_dev 0x1050 0x0407]
      in slice bytes 8 12 = Some [0, 0, 0, 1] \<and>
         (case exported_device_decode (drop 12 bytes) of
            Some (Inr (decoded, _)) \<Rightarrow>
              ed_id_vendor decoded = 0x1050 \<and> ed_id_product decoded = 0x0407 \<and>
              take 15 (ed_path decoded) = lit ''/usbipd-darwin/''
          | _ \<Rightarrow> False))"

section \<open>Sudoers fragment\<close>

definition test_ok_args :: "rstr list" where
  "test_ok_args = [lit ''daemon'', lit ''--listen'', lit ''127.0.0.1:3240'', lit ''--allow'', lit ''0781:5530'']"

definition test_renders_expected_fragment :: bool where
  "test_renders_expected_fragment \<longleftrightarrow>
     (case render \<lparr>sp_group = lit ''admin'', sp_binary = lit ''/opt/homebrew/bin/usbipd'', sp_args = test_ok_args\<rparr> of
        Inr s \<Rightarrow>
          str_contains s (lit ''%admin ALL=(root:wheel) NOPASSWD:NOSETENV: '') \<and>
          str_contains s (lit ''/opt/homebrew/bin/usbipd daemon --listen 127.0.0.1'' @ [92] @ lit '':3240 --allow 0781'' @
            [92] @ lit '':5530'') \<and> last s = 10
      | Inl _ \<Rightarrow> False)"

definition test_rejects_relative_binary :: "(rstr \<Rightarrow> rstr) \<Rightarrow> (bytes \<Rightarrow> rstr) \<Rightarrow> (rstr \<Rightarrow> rstr) \<Rightarrow> bool" where
  "test_rejects_relative_binary str path chr \<longleftrightarrow>
     (let spec = \<lparr>sp_group = lit ''admin'', sp_binary = lit ''usbipd'', sp_args = [lit ''daemon'']\<rparr>
      in case render spec of
           Inl e \<Rightarrow> str_contains (sudoers_error_text str path chr spec e) (lit ''absolute'')
         | Inr _ \<Rightarrow> False)"

definition test_bad_args :: "rstr list" where
  "test_bad_args =
     [lit ''dae mon'', lit ''daemon'' @ [10], lit ''daemon;rm'', lit ''daemon*'', lit ''daemon'' @ [92] @ lit ''x'', lit ''a,b'',
      lit ''da#emon'', lit ''da&emon'', lit ''da|emon'', lit ''da>emon'', lit ''da$emon'', lit ''da`emon'',
      lit ''da'' @ [39] @ lit ''emon'', lit ''da'' @ [34] @ lit ''emon'', lit ''da?emon'', lit ''da[emon'', lit ''da{emon'']"

definition test_rejects_metacharacters_in_args ::
  "(rstr \<Rightarrow> rstr) \<Rightarrow> (bytes \<Rightarrow> rstr) \<Rightarrow> (rstr \<Rightarrow> rstr) \<Rightarrow> bool" where
  "test_rejects_metacharacters_in_args str path chr \<longleftrightarrow>
     list_all (\<lambda>bad.
       let spec = \<lparr>sp_group = lit ''admin'', sp_binary = lit ''/usr/local/bin/usbipd'', sp_args = [bad]\<rparr>
       in case render spec of
            Inl e \<Rightarrow> str_contains (sudoers_error_text str path chr spec e) (lit ''character'')
          | Inr _ \<Rightarrow> False) test_bad_args"

definition test_accepts_realistic_daemon_args :: bool where
  "test_accepts_realistic_daemon_args \<longleftrightarrow>
     (case render \<lparr>sp_group = lit ''admin'', sp_binary = lit ''/opt/homebrew/bin/usbipd'',
          sp_args = [lit ''daemon'', lit ''--listen'', lit ''127.0.0.1:3240'', lit ''--socket'', lit ''/var/run/usbipd.sock'',
            lit ''--allow'', lit ''0781:5530'', lit ''--key=value'', lit ''--allow-public'']\<rparr> of
        Inr _ \<Rightarrow> True
      | Inl _ \<Rightarrow> False)"

definition is_err :: "'e + 'a \<Rightarrow> bool" where
  "is_err r \<longleftrightarrow> (case r of Inl _ \<Rightarrow> True | Inr _ \<Rightarrow> False)"

definition test_rejects_empty_inputs :: bool where
  "test_rejects_empty_inputs \<longleftrightarrow>
     (let bin = lit ''/usr/local/bin/usbipd''
      in is_err (render \<lparr>sp_group = [], sp_binary = bin, sp_args = [lit ''daemon'']\<rparr>) \<and>
         is_err (render \<lparr>sp_group = lit ''admin'', sp_binary = bin, sp_args = []\<rparr>) \<and>
         is_err (render \<lparr>sp_group = lit ''admin'', sp_binary = bin, sp_args = [[]]\<rparr>))"

definition test_rejects_metacharacters_in_group_and_binary :: bool where
  "test_rejects_metacharacters_in_group_and_binary \<longleftrightarrow>
     is_err (render \<lparr>sp_group = lit ''admin'', sp_binary = lit ''/usr/local/bin/usb pd'', sp_args = [lit ''daemon'']\<rparr>) \<and>
     is_err (render \<lparr>sp_group = lit ''ad min'', sp_binary = lit ''/usr/local/bin/usbipd'', sp_args = [lit ''daemon'']\<rparr>)"

section \<open>Hotplug events\<close>

definition test_sample_added :: "rstr \<Rightarrow> added_device" where
  "test_sample_added busid =
     \<lparr>ad_busid = busid, ad_vendor_id = lit ''1050'', ad_product_id = lit ''0407'', ad_manufacturer = Some (lit ''Yubico''),
      ad_product = Some (lit ''YubiKey''), ad_serial = Some (lit ''SN1''), ad_class = 0, ad_subclass = 0,
      ad_protocol = 0, ad_speed = 2\<rparr>"

definition test_idmap_roundtrip_known_and_unknown :: bool where
  "test_idmap_roundtrip_known_and_unknown \<longleftrightarrow>
     (let d1 = \<lparr>rm_busid = lit ''01-1'', rm_vendor_id = lit ''1050'', rm_product_id = lit ''0407''\<rparr>;
          d2 = \<lparr>rm_busid = lit ''02-1'', rm_vendor_id = lit ''0781'', rm_product_id = lit ''5530''\<rparr>;
          m = note_added 9 d2 (note_added 7 d1 id_map_new);
          (r1, m1) = note_removed 7 m;
          (r2, m2) = note_removed 7 m1;
          (r3, m3) = note_removed 12345 m2;
          (r4, m4) = note_removed 9 m3
      in card (dom (by_id m)) = 2 \<and> r1 = Some d1 \<and> card (dom (by_id m1)) = 1 \<and> r2 = None \<and> r3 = None \<and> r4 = Some d2)"

text \<open>
  The end-to-end test of hub and subscribers. \<open>to_json\<close> is the printer; the lines a subscriber reads
  are the events written to its socket.
\<close>

definition test_subscribers_get_snapshot_then_live_events :: "(event_line \<Rightarrow> rstr) \<Rightarrow> bool" where
  "test_subscribers_get_snapshot_then_live_events to_json \<longleftrightarrow>
     (let w0 = \<lparr>wr_sent = [], wr_room = None\<rparr>;
          h1 = publish_added (test_sample_added (lit ''01-1'')) hub_new;
          first_snapshot = snapshot_added [lit ''01-1''] h1;
          h2 = publish_added (test_sample_added (lit ''02-1'')) h1;
          gone = \<lparr>rm_busid = lit ''01-1'', rm_vendor_id = lit ''1050'', rm_product_id = lit ''0407''\<rparr>;
          h3 = publish_removed gone h2;
          live = map Got (drop (subscribe h1) (hb_sent h3))
      in wr_sent (snd (serve_subscriber to_json first_snapshot live w0)) =
           concat (map (encode_line to_json)
             [Added (test_sample_added (lit ''01-1'')), Added (test_sample_added (lit ''02-1'')), Removed gone]) \<and>
         snapshot_added [lit ''02-1''] h3 = [Added (test_sample_added (lit ''02-1''))] \<and> hb_snapshot h3 (lit ''01-1'') = None)"

definition test_subscriber_disconnect_does_not_affect_publisher :: "(event_line \<Rightarrow> rstr) \<Rightarrow> bool" where
  "test_subscriber_disconnect_does_not_affect_publisher to_json \<longleftrightarrow>
     (let rx = subscribe hub_new;
          h1 = publish_added (test_sample_added (lit ''03-1'')) hub_new;
          live = map Got (drop rx (hb_sent h1));
          a = serve_subscriber to_json [] live \<lparr>wr_sent = [], wr_room = Some 0\<rparr>;
          b = serve_subscriber to_json [] live \<lparr>wr_sent = [], wr_room = None\<rparr>
      in fst a = Some () \<and> wr_sent (snd b) = encode_line to_json (Added (test_sample_added (lit ''03-1''))))"

definition test_fs :: "bool option \<Rightarrow> events_env" where
  "test_fs entry = \<lparr>ev_lstat = (\<lambda>_. entry), ev_bind_ok = True, ev_chmod_ok = True, ev_watch_ok = True, ev_listing = Inr []\<rparr>"

definition test_bind_listener_sets_owner_only_permissions :: bool where
  "test_bind_listener_sets_owner_only_permissions \<longleftrightarrow>
     (case bind_listener (test_fs None) (lit ''events.sock'') of
        (acts, Inr _) \<Rightarrow> acts \<noteq> [] \<and> last acts = SetMode (lit ''events.sock'') (6 * 8 * 8) True
      | _ \<Rightarrow> False)"

definition test_bind_listener_refuses_to_overwrite_regular_file :: bool where
  "test_bind_listener_refuses_to_overwrite_regular_file \<longleftrightarrow>
     bind_listener (test_fs (Some False)) (lit ''not-a-socket'') = ([], Inl (EvNotASocket (lit ''not-a-socket'')))"

definition test_bind_listener_replaces_stale_socket :: bool where
  "test_bind_listener_replaces_stale_socket \<longleftrightarrow>
     \<not> is_err (snd (bind_listener (test_fs (Some True)) (lit ''events.sock'')))"

section \<open>They pass\<close>

lemma policy_tests [passed]:
  test_policy_deny_all_rejects_everything test_policy_allow_all_admits_everything
  test_policy_allow_list_is_exact_match
  by (simp_all add: test_policy_deny_all_rejects_everything_def test_policy_allow_all_admits_everything_def
      test_policy_allow_list_is_exact_match_def policy_filter_def test_dev_def)

lemma attach_test [passed]: test_try_attach_is_mutually_exclusive_per_busid
  by (simp add: test_try_attach_is_mutually_exclusive_per_busid_def try_attach_def daemon_state_new_def attach_guard_drop_def)

lemma loopback_test [passed]: test_is_loopback_classifies_correctly
  by (simp add: test_is_loopback_classifies_correctly_def is_loopback_def)

lemma event_tests [passed]:
  test_idmap_roundtrip_known_and_unknown
  test_bind_listener_sets_owner_only_permissions test_bind_listener_refuses_to_overwrite_regular_file
  test_bind_listener_replaces_stale_socket
  by (simp_all add: test_idmap_roundtrip_known_and_unknown_def note_added_def note_removed_def id_map_new_def
      test_bind_listener_sets_owner_only_permissions_def test_bind_listener_refuses_to_overwrite_regular_file_def
      test_bind_listener_replaces_stale_socket_def bind_listener_def test_fs_def SOCKET_MODE_def is_err_def)

lemma devlist_test [passed]: test_devlist_filters_hubs_and_encodes_record
proof -
  let ?d = "to_exported (test_dev 0x1050 0x0407)"
  have "encode_rep_devlist [(test_dev 0x1d6b 0x0002)\<lparr>ud_class := 0x09\<rparr>, test_dev 0x1050 0x0407] =
      op_header_encode (op_header_new OP_REP_DEVLIST) @ to_be_bytes32 1 @ exported_device_encode ?d @ []"
    by (simp add: encode_rep_devlist_def test_dev_def u32_of_usize_def)
  moreover have "exported_device_decode (exported_device_encode ?d @ []) =
      Some (Inr (clip_device ?d, 312 + 4 * min (length (ed_interfaces ?d)) 255))"
    by (rule exported_device_decode_encode)
  moreover have "clip_field 256 (ed_path ?d) = ed_path ?d" "take 15 (ed_path ?d) = lit ''/usbipd-darwin/''"
    by (simp_all add: clip_field_fits fits_field_def to_exported_def test_dev_def show_hex.simps hex_digit_def)
  ultimately show ?thesis
    by (simp add: test_devlist_filters_hubs_and_encodes_record_def slice_def op_hdr.enc_length to_be_bytes32_def
        clip_device_def del: append_Nil2) (simp add: to_exported_def test_dev_def)
qed

lemma error_text_words:
  "str_contains (sudoers_error_text str path chr spec RelativeBinary) (lit ''absolute'')"
  "str_contains (sudoers_error_text str path chr spec (InvalidArgument a c)) (lit ''character'')"
  using str_contains_mid [of "lit ''binary path '' @ path (sp_binary spec) @ lit '' must be ''" "lit ''absolute''"
      "lit '' (sudoers ignores PATH lookup)''"]
    str_contains_mid [of "lit ''argument '' @ str a @ lit '' contains ''" "lit ''character''"
      "lit '' '' @ chr c @ lit '' that cannot appear in a sudoers Cmnd''"]
  by simp_all

lemma sudoers_error_tests [passed]:
  test_rejects_empty_inputs test_rejects_metacharacters_in_group_and_binary
  by (simp_all add: test_rejects_empty_inputs_def test_rejects_metacharacters_in_group_and_binary_def
      is_err_def render_def invalid_chars_def is_safe_char_def is_safe_byte_def is_ascii_alphanumeric_def)

lemma bad_args_rejected:
  "bad \<in> set test_bad_args \<Longrightarrow>
   \<exists>c. render \<lparr>sp_group = lit ''admin'', sp_binary = lit ''/usr/local/bin/usbipd'', sp_args = [bad]\<rparr> =
     Inl (InvalidArgument bad c)"
  by (auto simp: test_bad_args_def render_def invalid_chars_def is_safe_char_def is_safe_byte_def is_ascii_alphanumeric_def)

lemma sudoers_message_tests [passed]:
  "test_rejects_relative_binary str path chr" "test_rejects_metacharacters_in_args str path chr"
proof -
  have "render \<lparr>sp_group = lit ''admin'', sp_binary = lit ''usbipd'', sp_args = [lit ''daemon'']\<rparr> = Inl RelativeBinary"
    by (simp add: render_def invalid_chars_def is_safe_char_def is_safe_byte_def is_ascii_alphanumeric_def)
  then show "test_rejects_relative_binary str path chr"
    unfolding test_rejects_relative_binary_def Let_def by (simp only: sum.case error_text_words)
  show "test_rejects_metacharacters_in_args str path chr"
    unfolding test_rejects_metacharacters_in_args_def Let_def list_all_iff
  proof
    fix bad
    assume "bad \<in> set test_bad_args"
    then obtain c where "render \<lparr>sp_group = lit ''admin'', sp_binary = lit ''/usr/local/bin/usbipd'', sp_args = [bad]\<rparr> =
        Inl (InvalidArgument bad c)" using bad_args_rejected by blast
    then show "case render \<lparr>sp_group = lit ''admin'', sp_binary = lit ''/usr/local/bin/usbipd'', sp_args = [bad]\<rparr> of
        Inl e \<Rightarrow> str_contains (sudoers_error_text str path chr
          \<lparr>sp_group = lit ''admin'', sp_binary = lit ''/usr/local/bin/usbipd'', sp_args = [bad]\<rparr> e) (lit ''character'')
      | Inr _ \<Rightarrow> False" by (simp only: sum.case error_text_words)
  qed
qed

lemma subscriber_tests [passed]:
  "test_subscribers_get_snapshot_then_live_events to_json"
  "test_subscriber_disconnect_does_not_affect_publisher to_json"
  by (simp_all add: test_subscribers_get_snapshot_then_live_events_def
      test_subscriber_disconnect_does_not_affect_publisher_def publish_added_def publish_removed_def tx_send_def
      hub_new_def subscribe_def snapshot_added_def map_filter_simps serve_subscriber_def write_line_def write_all_def
      encode_line_def test_sample_added_def Let_def)

lemma sudoers_accept_test [passed]: test_accepts_realistic_daemon_args
  unfolding test_accepts_realistic_daemon_args_def
  by (subst render_acceptable)
    (simp_all add: acceptable_def safe_word_def is_safe_byte_def is_ascii_alphanumeric_def)

lemma sudoers_render_test [passed]: test_renders_expected_fragment
proof -
  let ?spec = "\<lparr>sp_group = lit ''admin'', sp_binary = lit ''/opt/homebrew/bin/usbipd'', sp_args = test_ok_args\<rparr>"
  let ?cmd = "lit ''/opt/homebrew/bin/usbipd daemon --listen 127.0.0.1'' @ [92] @ lit '':3240 --allow 0781'' @ [92] @ lit '':5530''"
  let ?prefix = "lit ''%admin ALL=(root:wheel) NOPASSWD:NOSETENV: ''"
  have "render ?spec = Inr (fragment_header @ rule_prefix (sp_group ?spec) @ rule_command (sp_binary ?spec) (sp_args ?spec) @ [10])"
    by (rule render_acceptable)
      (simp add: acceptable_def safe_word_def is_safe_byte_def is_ascii_alphanumeric_def test_ok_args_def)
  moreover have "rule_command (sp_binary ?spec) (sp_args ?spec) = ?cmd"
    by (simp add: rule_command_def test_ok_args_def escape_sudoers_def needs_escape_def)
  moreover have "rule_prefix (sp_group ?spec) = ?prefix" by (simp add: rule_prefix_def)
  ultimately have r: "render ?spec = Inr (fragment_header @ ?prefix @ ?cmd @ [10])" by (simp only:)
  have "str_contains (fragment_header @ ?prefix @ ?cmd @ [10]) ?prefix" by (rule str_contains_mid)
  moreover have "str_contains ((fragment_header @ ?prefix) @ ?cmd @ [10]) ?cmd" by (rule str_contains_mid)
  moreover have "last (fragment_header @ ?prefix @ ?cmd @ [10]) = 10" by simp
  ultimately show ?thesis unfolding test_renders_expected_fragment_def r by (simp only: append_assoc sum.case)
qed

end
