(* ===== verification/Spec2Isabelle.thy ===== *)
theory Spec2Isabelle
  imports Daemon_Devices Thread_Coherence Test_Loopback Hid_Keyboard Capture_Layout Fuzz_Targets Wire_Types
    Test_Proto Test_Daemon
begin

text \<open>
  A verification library for \<^verbatim>\<open>usbipd-darwin\<close>, a USB/IP server for macOS: it exports USB devices of
  the host over TCP or a Unix socket to Linux clients, whose \<^verbatim>\<open>vhci_hcd\<close> driver then uses them as
  if they were plugged in there.

  \<^bold>\<open>The program.\<close> Three crates under \<^verbatim>\<open>src/crates\<close>. \<^verbatim>\<open>usbip-proto\<close> encodes and decodes the messages
  of the protocol. \<^verbatim>\<open>host-mac\<close> enumerates devices through nusb, detaches a device from its kernel
  drivers through IOKit ("force-capture"), opens it and runs transfers, with a cache of claimed
  interfaces and endpoint handles. \<^verbatim>\<open>usbipd\<close> is the daemon: one process, one task per connection.
  A connection starts with an op request, either the device list, after which it ends, or an
  import, which checks the access policy, reserves the device in the attach table shared by all
  connections, opens it and hands the connection to the URB loop. The URB loop reads submits and
  unlinks; each submit becomes a task that runs the transfer on a thread of the blocking pool and
  writes its reply under the lock of the socket. Beside it stand the hotplug stream (\<^verbatim>\<open>events\<close>), the
  generator of a sudoers fragment and the command line.

  \<^bold>\<open>Theories and sources.\<close>

  \<^item> \<open>Prelude\<close>, \<open>Rust_Str\<close>: machine integers, slices that may panic, byte orders, Rust strings; the
    locales \<open>safe_system\<close> (a transition system with an invariant), \<open>simulation\<close> (one system
    refining another along an abstraction function) and \<open>terminating_system\<close> (a well-founded rank
    and progress).
  \<^item> \<open>Wire_Codec\<close>: the interface of a fixed-size message as locales. \<open>Proto_Op\<close> (\<^verbatim>\<open>op.rs\<close>,
    \<^verbatim>\<open>error.rs\<close>) and \<open>Proto_Urb\<close> (\<^verbatim>\<open>urb.rs\<close>) model the messages and interpret it for each of them.
  \<^item> \<open>Host_Enum\<close> (\<^verbatim>\<open>host-mac/src/lib.rs\<close>, enumeration): bus ids, device numbers, listings.
    \<open>Host_Capture\<close> (\<^verbatim>\<open>capture.rs\<close>): re-enumeration over a parameter that stands for IOKit, with a
    log of the objects acquired, used and released. \<open>Host_Device\<close>: opening, capture with its poll,
    transfers, caches, drop, over a parameter that stands for nusb. \<open>Device_Cache\<close>,
    \<open>Cache_Coherence\<close> and \<open>Device_Open\<close> hold what is proved of it. \<open>Device_Threads\<close> takes the same
    methods apart at their locks and interleaves them, as the threads of the daemon do, and
    \<open>Thread_Coherence\<close> carries cache coherence over to that.
    \<open>Capture_Layout\<close>: the \<^verbatim>\<open>repr(C)\<close> tables and identifiers of \<^verbatim>\<open>capture.rs\<close>. \<open>Hid_Keyboard\<close>
    (\<^verbatim>\<open>examples/hid_keyboard.rs\<close>): the example program of the host crate.
  \<^item> \<open>Fuzz_Targets\<close> (\<^verbatim>\<open>usbip-proto/fuzz\<close>): the harnesses around the decoders.
  \<^item> \<open>Daemon_Policy\<close> (\<^verbatim>\<open>daemon.rs\<close>, policy, attach table, binding, accept loops, shutdown),
    \<open>Daemon_Session\<close> (\<^verbatim>\<open>handle_session\<close>, \<^verbatim>\<open>handle_devlist\<close>, \<^verbatim>\<open>handle_import\<close>), \<open>Daemon_Urb\<close>
    (reading a command, running a transfer, building a reply, as functions) and \<open>Urb_Machine\<close>
    (\<^verbatim>\<open>urb_loop\<close> with its tasks, closures, permits, in-flight map and locks, as a step relation).
    \<open>Urb_Progress\<close> proves termination, progress and a refinement of it. The machine counts the
    references to the opened device that a session hands to its tasks and closures;
    \<open>Device_Lifetime\<close> says who they are and that the last one goes once. \<open>Daemon_System\<close> puts all connections together around the one attach table
    and logs when devices are opened and dropped; \<open>Daemon_Devices\<close> holds what is proved of that log.
    \<open>Wire_Types\<close> types the device records the daemon sends.
  \<^item> \<open>Events_Hub\<close> (\<^verbatim>\<open>events.rs\<close>): lines, id map, hub, subscribers, and publisher and accept loop as a
    step relation. \<open>Sudoers\<close> (\<^verbatim>\<open>sudoers.rs\<close>). \<open>Cli\<close> (\<^verbatim>\<open>main.rs\<close>).
  \<^item> \<open>Error_Text\<close>: the texts of the error types of the three crates, as \<^verbatim>\<open>thiserror\<close> renders them.
  \<^item> \<open>Test_Proto\<close>, \<open>Test_Host\<close>, \<open>Test_Daemon\<close> and \<open>Test_Loopback\<close>: tests of the repository as
    executable predicates on the model, each with the lemma that the model passes it. They are kept
    as a check of the definitions against the bytes and texts that the Rust tests compare with.
  \<^item> This theory holds the properties that span the crates.

  \<^bold>\<open>How code corresponds to definitions.\<close> A struct is a record whose fields carry a two-letter
  prefix, an enum a datatype, a function or method a definition of the same name. Integers keep
  their width. A function that can fail returns a sum with the error on the left; one that could
  panic returns an option with \<^const>\<open>None\<close> for the panic, so that the absence of panics is a theorem.
  State is passed explicitly; the operations of nusb, IOKit, the clock, the file system and serde
  are fields of a record argument (\<open>nusb\<close>, \<open>iokit\<close>, \<open>host_env\<close>, \<open>session_env\<close>), and what a theorem
  needs of them is a hypothesis with a name (\<open>io_contract\<close>, \<open>stack_contract\<close>,
  \<open>honest_completions\<close>). The order in which a \<^verbatim>\<open>HashMap\<close> is walked is drawn anew for each walk. Concurrency is an inductive step relation whose atomic steps are the
  stretches of the source between two points where another task may run: await points, lock
  operations, the end of a blocking closure. An aborted task stops at such a point; the blocking
  closure it was waiting for does not.

  \<^bold>\<open>What is shown.\<close>

  \<^item> Protocol: codecs are exact inverses on well-formed messages, decoders fail only on short input
    and never panic, strings are clipped to their fields and come back as UTF-8.
  \<^item> Host: device ids survive their packing; a re-enumeration balances every IOKit reference on
    every error path and uses nothing it has released; opening returns; a device is released only
    if it is the one that was captured; caches stay consistent over any sequence of transfers and a
    cached endpoint is the one that fresh resolution would give; padding of IN requests is hidden.
    Any set of concurrent calls on a device completes without deadlock; undisturbed, a method is its
    atomic model; calls that do not reconfigure the device share one handle per endpoint, which is
    the one that resolution prescribes and on which transfers are serialised. Every function called through IOKit's tables is loaded from its slot.
    The example program shows exactly the keys that are held.
  \<^item> Session: device records are well typed for the wire; an import is granted for a permitted, free device and for nothing else; a session that
    fails leaves no trace; the list shows what may be imported, and what it shows can be imported
    and used.
  \<^item> URB loop: in every interleaving at most 256 submits are in flight, each is answered at most
    once and each unlink read is answered in turn under its own sequence number, replies are whole
    unless a write was abandoned, replies are framed by their length fields; every run ends and ends settled; the whole machine refines a ledger of sequence numbers.
  \<^item> Daemon: over all connections devices are held exclusively and come back; every device that is
    opened is dropped exactly once, never while a task or closure can still use it, and under the
    reservation of its own session unless a closure has outlived that session; public addresses are
    not bound by accident, nothing but a socket is removed at start-up, and the mode of the socket is
    restricted before the first session, as far as the file system lets the daemon do so.
  \<^item> Events: a subscriber that has drained the channel agrees with the hub, the hub with the bus.
  \<^item> Sudoers and command line: the rule reads back as the command that was meant, defaults are closed.

  Some theorems show what the code does although its comments promise otherwise: blocking closures
  outlive their permits and even the attachment of their device, so that the next client can be cut
  off by the release of the former one; an unlink races with the reply it cancels; an open that
  fails after the capture leaves the device captured; a cancellation waits for the transfer it
  should interrupt; the device that is opened need not be the one that the policy was asked
  about; and a shutdown removes whatever lies at the path of the socket.

  \<^bold>\<open>Bounds, fuel and fairness.\<close> No model of a terminating function uses fuel, except that the poll
  after a capture, a loop until a deadline of the clock, is a partial function: it is proved to
  return for every clock that advances, after at most a hundred turns. The number of permits (256), the
  deadline of the poll (5000 ms in steps of 50 ms) and the sizes of the messages are those of the
  sources; the capacity of the broadcast channel is left open. Termination of the URB loop
  is a statement about the step relation: the client sends finitely many bytes and then closes or
  breaks the connection, a transfer that has started returns and a write proceeds or fails. These
  are the steps that the machine offers, so no fairness assumption beyond "a step that stays
  possible is taken" is made, and none is needed for the well-founded rank.

  \<^bold>\<open>Atomic methods.\<close> The URB machine runs the transfer of a submit as one step at the end of its
  closure. \<open>Device_Threads\<close> says when that is the whole story: for a method that runs undisturbed it
  is proved to be, and for methods that overlap, the locks of the device are modelled there.

  \<^bold>\<open>Not modelled.\<close> The extern declarations of the IOKit foreign interface beyond its tables and
  identifiers, logging, the command line splitter clap, JSON text (serde_json is a parameter), the
  scheduler of tokio beyond the interleavings, lock poisoning (no step panics while it holds a
  lock), nusb and IOKit themselves. The benchmarks only measure time, the packaging is data. Of the
  tests, \<^verbatim>\<open>wire_format_matches_documented_schema\<close> (the JSON text of an event), \<^verbatim>\<open>is_root_returns_bool\<close> (asks
  the operating system) and \<^verbatim>\<open>derive_bus_dev_is_deterministic\<close> (holds of every function of logic) are left
  out.
\<close>

section \<open>No decoder panics\<close>

text \<open>
  C28: No sequence of bytes makes a decoder of the protocol crate panic, and a decoder fails only
  because the buffer is too short, saying how much it needed and how much there was. The fixed-size
  messages fail exactly below their size; a device record, whose size depends on its interface
  count, is otherwise decoded within the buffer. So no input crashes a fuzz target.
\<close>

theorem decoders_total:
  "(op_header_decode buf \<noteq> None \<and>
      (op_header_decode buf = Some (Inl e) \<longleftrightarrow> length buf < 8 \<and> e = ShortRead 8 (length buf))) \<and>
   (exported_interface_decode buf \<noteq> None \<and>
      (exported_interface_decode buf = Some (Inl e) \<longleftrightarrow> length buf < 4 \<and> e = ShortRead 4 (length buf))) \<and>
   (urb_header_decode buf \<noteq> None \<and>
      (urb_header_decode buf = Some (Inl e) \<longleftrightarrow> length buf < 20 \<and> e = ShortRead 20 (length buf))) \<and>
   (cmd_submit_decode buf \<noteq> None \<and>
      (cmd_submit_decode buf = Some (Inl e) \<longleftrightarrow> length buf < 28 \<and> e = ShortRead 28 (length buf))) \<and>
   (cmd_unlink_decode buf \<noteq> None \<and>
      (cmd_unlink_decode buf = Some (Inl e) \<longleftrightarrow> length buf < 28 \<and> e = ShortRead 28 (length buf))) \<and>
   (decode_req_import_busid buf \<noteq> None \<and>
      (decode_req_import_busid buf = Some (Inl e) \<longleftrightarrow> length buf < 32 \<and> e = ShortRead 32 (length buf))) \<and>
   (case exported_device_decode buf of
      None \<Rightarrow> False
    | Some (Inl err) \<Rightarrow> (\<exists>k. length buf < k \<and> err = ShortRead k (length buf))
    | Some (Inr (d, used)) \<Rightarrow> used = 312 + 4 * length (ed_interfaces d) \<and> used \<le> length buf) \<and>
   fuzz_op_header buf = Some () \<and> fuzz_urb_header buf = Some () \<and> fuzz_cmd_submit buf = Some () \<and>
   fuzz_req_import_busid buf = Some ()"
proof (intro conjI)
  show "cmd_unlink_decode buf = Some (Inl e) \<longleftrightarrow> length buf < 28 \<and> e = ShortRead 28 (length buf)"
    by (auto simp: cmd_unlink_decode_cases)
  show "decode_req_import_busid buf \<noteq> None"
    "decode_req_import_busid buf = Some (Inl e) \<longleftrightarrow> length buf < 32 \<and> e = ShortRead 32 (length buf)"
    by (auto simp: decode_req_import_busid_def slice_def)
  show "case exported_device_decode buf of
      None \<Rightarrow> False
    | Some (Inl err) \<Rightarrow> (\<exists>k. length buf < k \<and> err = ShortRead k (length buf))
    | Some (Inr (d, used)) \<Rightarrow> used = 312 + 4 * length (ed_interfaces d) \<and> used \<le> length buf"
    using exported_device_decode_cases [of buf] by auto
  show "fuzz_op_header buf = Some ()" "fuzz_urb_header buf = Some ()" "fuzz_cmd_submit buf = Some ()"
    "fuzz_req_import_busid buf = Some ()"
    unfolding fuzz_target_returns
    by (rule op_hdr.dec_no_panic urb_hdr.dec_no_panic sub_tail.dec_no_panic
      | simp add: decode_req_import_busid_def slice_def)+
qed (rule op_hdr.dec_no_panic op_hdr.dec_error_iff exp_iface.dec_no_panic exp_iface.dec_error_iff
      urb_hdr.dec_no_panic urb_hdr.dec_error_iff sub_tail.dec_no_panic sub_tail.dec_error_iff
    | simp add: cmd_unlink_decode_cases)+

section \<open>A client from the device list to its first requests\<close>

text \<open>
  The device id that a client forms from the reply to its import: the bus and the device number at
  their offsets in the device record, packed as \<^verbatim>\<open>vhci_hcd\<close> packs them.
\<close>

definition client_devid :: "bytes \<Rightarrow> u32 option" where
  "client_devid reply = do { busnum \<leftarrow> be32_at reply 296; devnum \<leftarrow> be32_at reply 300; Some (devid_of busnum devnum) }"

lemma client_devid_reply:
  "client_devid (encode_rep_import_ok d) = Some (devid_of (ed_busnum d) (ed_devnum d))"
  by (simp add: client_devid_def encode_rep_import_ok_def encode_header_only_def wire_simps op_hdr.enc_length)

lemma find_unique:
  "distinct (map f xs) \<Longrightarrow> x \<in> set xs \<Longrightarrow> find (\<lambda>y. f y = f x) xs = Some x"
  by (induction xs) (auto simp: image_iff)

text \<open>Where a record of the decoded device list comes from.\<close>

lemma listed_record:
  assumes "length infos < 2 ^ 32"
    and "\<forall>i \<in> set infos. length (di_interfaces i) \<le> 255 \<and> fits_field 32 (format_busid i)"
    and "client_devlist (encode_rep_devlist (policy_filter policy (map from_info infos))) = Some (recs, [])"
    and "rec \<in> set recs"
  obtains info where "info \<in> set infos" "permits policy (di_vendor_id info) (di_product_id info)"
    "ed_busid rec = format_busid info" "ed_id_vendor rec = di_vendor_id info" "ed_id_product rec = di_product_id info"
proof -
  let ?ds = "policy_filter policy (map from_info infos)"
  have "length ?ds < 2 ^ 32"
    unfolding policy_filter_def using assms(1) by (intro le_less_trans [OF length_filter_le]) simp
  then have "client_devlist (encode_rep_devlist ?ds) =
      Some (map (\<lambda>d. clip_device (to_exported d)) (filter (\<lambda>d. ud_class d \<noteq> 9) ?ds), [])"
    using assms(2) by (intro client_devlist_encoded) (auto simp: policy_filter_def)
  with assms(3,4) obtain info where i: "info \<in> set infos" "permits policy (di_vendor_id info) (di_product_id info)"
    "rec = clip_device (to_exported (from_info info))" by (auto simp: policy_filter_def)
  with assms(2) show thesis
    by (intro that [of info]) (auto simp: clip_device_def to_exported_def clip_field_fits)
qed

text \<open>
  C3: What is listed can be used. Take any record of the decoded device list reply. If nobody holds
  the device and it can be opened, a client that sends the busid of the record back in an import
  request, followed by commands for the device id it reads off the reply, is served: the import
  succeeds for the device of the record, the device id in the reply is the one the URB loop
  compares against, and the loop reads exactly the commands the client sent.
\<close>

theorem listed_device_usable:
  assumes "se_listing env = Inr infos" "length infos < 2 ^ 32" "distinct (map format_busid infos)"
    and "\<forall>i \<in> set infos. length (di_interfaces i) \<le> 255 \<and> fits_field 32 (format_busid i)"
    and "client_devlist (encode_rep_devlist (policy_filter (ds_policy (cn_state c)) (map from_info infos))) =
      Some (recs, [])" "rec \<in> set recs"
    and "ds_attached (cn_state c) (ed_busid rec) = None"
    and "snd (open_device (se_host env) (ed_busid rec)) = Some (Inr opened)" "wr_room (cn_writer c) = None"
    and "rd_bytes (cn_reader c) = op_header_encode (op_header_new OP_REQ_IMPORT) @
      write_fixed_str (ed_busid rec) 32 @ concat (map command_encode cmds) @ rest"
    and "list_all (command_wf (od_devid opened)) cmds"
  shows "\<exists>desc c' reply. handle_session env peer c = (EnterUrb desc opened (AttachGuard (ed_busid rec)), c') \<and>
     wr_sent (cn_writer c') = wr_sent (cn_writer c) @ reply \<and> client_devid reply = Some (od_devid opened) \<and>
     ud_vendor_id desc = ed_id_vendor rec \<and> ud_product_id desc = ed_id_product rec \<and>
     read_commands (length cmds) (desc_devid desc) (cn_reader c') = (cmds, (cn_reader c')\<lparr>rd_bytes := rest\<rparr>)"
proof -
  obtain info where info: "info \<in> set infos"
    "permits (ds_policy (cn_state c)) (di_vendor_id info) (di_product_id info)"
    "ed_busid rec = format_busid info" "ed_id_vendor rec = di_vendor_id info" "ed_id_product rec = di_product_id info"
    using listed_record [OF assms(2,4,5,6)] by blast
  let ?c = "c\<lparr>cn_reader := (cn_reader c)\<lparr>rd_bytes := concat (map command_encode cmds) @ rest\<rparr>\<rparr>"
  have fits: "fits_field 32 (ed_busid rec)" using assms(4) info by simp
  have found: "find (\<lambda>i. format_busid i = ed_busid rec) infos = Some info"
    using find_unique [OF assms(3) info(1)] info(3) by simp
  obtain desc c' where s: "import_device env peer (ed_busid rec) ?c = (EnterUrb desc opened (AttachGuard (ed_busid rec)), c')"
    using import_device_granted [OF assms(1) found, of ?c opened peer] assms(7-9) info(2) by auto
  note told = import_device_told [OF s assms(1) found]
  have "client_devid (encode_rep_import_ok (to_exported desc)) = Some (od_devid opened)"
    using told(2) by (simp add: client_devid_reply desc_devid_def to_exported_def)
  moreover have "read_commands (length cmds) (desc_devid desc) (cn_reader c') = (cmds, (cn_reader c')\<lparr>rd_bytes := rest\<rparr>)"
    unfolding told(2) by (rule command_stream_roundtrip [OF assms(11)]) (simp add: told(1))
  ultimately show ?thesis
    unfolding import_request [OF assms(10) fits]
    using s told(3-5) info(4,5)
    by (intro exI [of _ desc] exI [of _ c'] exI [of _ "encode_rep_import_ok (to_exported desc)"]) simp
qed

text \<open>A client that lists the keyboard of the examples, imports it and cancels a request.\<close>

definition sample_unlink :: urb_command where
  "sample_unlink =
     Unlink \<lparr>uh_command = USBIP_CMD_UNLINK, uh_seqnum = 8, uh_devid = od_devid sample_device, uh_direction = 0, uh_ep = 0\<rparr>
       \<lparr>cu_unlink_seqnum = 7, cu_padding = replicate 24 0\<rparr>"

theorem listed_device_usable_witness:
  "\<exists>desc c'. handle_session sample_session_env (lit ''p'') (sample_conn (sample_import @ command_encode sample_unlink)) =
       (EnterUrb desc sample_device (AttachGuard sample_busid), c') \<and>
     fst (read_commands 1 (desc_devid desc) (cn_reader c')) = [sample_unlink]"
proof -
  let ?rec = "clip_device (to_exported (from_info keyboard_info))"
  have busid: "ed_busid ?rec = sample_busid"
    by (simp add: clip_device_def to_exported_def sample_busid_device clip_field_fits [OF sample_busid_fits] del: keyboard_busid)
  have kbd: "di_class keyboard_info \<noteq> 9" "length (di_interfaces keyboard_info) \<le> 255"
    "di_vendor_id keyboard_info = 0x1050" "di_product_id keyboard_info = 0x0407"
    by (simp_all add: keyboard_info_def)
  have "client_devlist (encode_rep_devlist (policy_filter keyboard_policy (map from_info [keyboard_info]))) = Some ([?rec], [])"
    by (subst client_devlist_encoded) (simp_all add: policy_filter_def kbd)
  then have "\<exists>desc c' reply. handle_session sample_session_env (lit ''p'') (sample_conn (sample_import @ command_encode sample_unlink)) =
       (EnterUrb desc sample_device (AttachGuard (ed_busid ?rec)), c') \<and>
     wr_sent (cn_writer c') = [] @ reply \<and> client_devid reply = Some (od_devid sample_device) \<and>
     ud_vendor_id desc = ed_id_vendor ?rec \<and> ud_product_id desc = ed_id_product ?rec \<and>
     read_commands (length [sample_unlink]) (desc_devid desc) (cn_reader c') = ([sample_unlink], (cn_reader c')\<lparr>rd_bytes := []\<rparr>)"
    using listed_device_usable [of sample_session_env "[keyboard_info]"
        "sample_conn (sample_import @ command_encode sample_unlink)" "[?rec]" ?rec sample_device "[sample_unlink]" "[]" "lit ''p''"]
      busid kbd sample_busid_fits
    by (simp add: sample_session_env_def sample_busid_device sample_import_def sample_unlink_def del: keyboard_busid)
  then show ?thesis unfolding busid by auto
qed

end
